(* ===== verification/Prelude.thy ===== *)
theory Prelude
  imports Main "HOL-Library.Char_ord" "HOL-Library.List_Lexorder"
begin

text \<open>
  What every component shares: the collections its lemmas go into, the part of Go's
  \<open>strings\<close> package the program uses, and generic facts on lists and association lists.

  A Go string is a sequence of bytes, so \<^typ>\<open>string\<close> (a list of 8-bit characters)
  is Go's type. The functions of package \<open>strings\<close> are modelled on ASCII text: a byte
  of 128 or more is neither white space nor a letter here, whereas Go would decode UTF-8
  (the DNS library escapes such bytes in every name and TXT string it hands over).
\<close>

named_theorems contract \<open>what a prober promises about the results it returns\<close>
named_theorems hist_grow \<open>every operation only appends to the history\<close>
named_theorems query_bound \<open>how many exchanges an operation makes\<close>

subsection \<open>Characters\<close>

definition is_space :: "char \<Rightarrow> bool" where
  "is_space c \<longleftrightarrow> c \<in> {CHR '' '', CHR 0x09, CHR 0x0A, CHR 0x0B, CHR 0x0C, CHR 0x0D}"

definition char_lower :: "char \<Rightarrow> char" where
  "char_lower c = (if (65::nat) \<le> of_char c \<and> of_char c \<le> (90::nat)
     then char_of (of_char c + 32 :: nat) else c)"

definition ToLower :: "string \<Rightarrow> string" where
  "ToLower s = map char_lower s"

definition EqualFold :: "string \<Rightarrow> string \<Rightarrow> bool" where
  "EqualFold s t \<longleftrightarrow> ToLower s = ToLower t"

definition TrimSpace :: "string \<Rightarrow> string" where
  "TrimSpace s = rev (dropWhile is_space (rev (dropWhile is_space s)))"

fun splitp :: "(char \<Rightarrow> bool) \<Rightarrow> string \<Rightarrow> string list" where
  "splitp p [] = [[]]"
| "splitp p (c # cs) =
     (if p c then [] # splitp p cs
      else (case splitp p cs of [] \<Rightarrow> [[c]] | w # ws \<Rightarrow> (c # w) # ws))"

text \<open>\<open>strings.Fields\<close>: the maximal runs of non-space bytes.\<close>

definition Fields :: "string \<Rightarrow> string list" where
  "Fields s = filter (\<lambda>w. w \<noteq> []) (splitp is_space s)"

text \<open>\<open>strings.Split\<close> with a one-byte separator.\<close>

definition Split :: "string \<Rightarrow> char \<Rightarrow> string list" where
  "Split s sep = splitp (\<lambda>c. c = sep) s"

text \<open>\<open>strings.SplitN(s, sep, 2)\<close> with a one-byte separator: one piece without it.\<close>

fun SplitN2 :: "string \<Rightarrow> char \<Rightarrow> string \<times> string option" where
  "SplitN2 [] sep = ([], None)"
| "SplitN2 (c # cs) sep =
     (if c = sep then ([], Some cs)
      else (case SplitN2 cs sep of (a, b) \<Rightarrow> (c # a, b)))"

definition HasPrefix :: "string \<Rightarrow> string \<Rightarrow> bool" where
  "HasPrefix s p \<longleftrightarrow> take (length p) s = p"

fun Contains :: "string \<Rightarrow> string \<Rightarrow> bool" where
  "Contains [] sub \<longleftrightarrow> sub = []"
| "Contains (c # cs) sub \<longleftrightarrow> HasPrefix (c # cs) sub \<or> Contains cs sub"

definition TrimSuffixDot :: "string \<Rightarrow> string" where
  "TrimSuffixDot s = (if s \<noteq> [] \<and> last s = CHR ''.'' then butlast s else s)"

fun Join :: "string list \<Rightarrow> string \<Rightarrow> string" where
  "Join [] sep = []"
| "Join [s] sep = s"
| "Join (s # t # ts) sep = s @ sep @ Join (t # ts) sep"

subsection \<open>Facts about the string functions\<close>

lemma char_lower_other:
  assumes "char_lower c = d" and "\<not> ((97::nat) \<le> of_char d \<and> of_char d \<le> (122::nat))"
  shows "c = d"
proof (rule ccontr)
  assume "c \<noteq> d"
  with assms(1) have u: "(65::nat) \<le> of_char c" "of_char c \<le> (90::nat)" "d = char_of (of_char c + 32 :: nat)"
    by (auto simp: char_lower_def split: if_splits)
  then have "of_char d = (of_char c + 32 :: nat)" by simp
  with u assms(2) show False by simp
qed

lemma char_lower_idem [simp]: "char_lower (char_lower c) = char_lower c"
  by (auto simp: char_lower_def)

lemma ToLower_idem [simp]: "ToLower (ToLower s) = ToLower s"
  by (simp add: ToLower_def)

lemma ToLower_Nil [simp]: "ToLower s = [] \<longleftrightarrow> s = []" "ToLower [] = []"
  by (auto simp: ToLower_def)

lemma length_ToLower [simp]: "length (ToLower s) = length s"
  by (simp add: ToLower_def)

lemma ToLower_Cons [simp]: "ToLower (c # s) = char_lower c # ToLower s"
  by (simp add: ToLower_def)

lemma Fields_nonempty: "f \<in> set (Fields s) \<Longrightarrow> f \<noteq> []"
  by (auto simp: Fields_def)

lemma splitp_nonempty [simp]: "splitp p s \<noteq> []"
  by (induction s) (auto split: list.splits)

lemma splitp_span:
  "\<forall>c \<in> set w. \<not> p c \<Longrightarrow> splitp p (w @ s) = (w @ hd (splitp p s)) # tl (splitp p s)"
  by (induction w) (auto split: list.splits simp: neq_Nil_conv)

lemma Fields_space: "is_space c \<Longrightarrow> Fields (c # s) = Fields s"
  by (simp add: Fields_def)

lemma Fields_Nil [simp]: "Fields [] = []"
  by (simp add: Fields_def)

lemma Fields_dropWhile: "Fields (dropWhile is_space s) = Fields s"
  by (induction s) (auto simp: Fields_space)

lemma Fields_word:
  assumes "w \<noteq> []" and "\<forall>c \<in> set w. \<not> is_space c" and "s = [] \<or> is_space (hd s)"
  shows "Fields (w @ s) = w # Fields s"
  using assms splitp_span [of w is_space s] by (cases s) (auto simp: Fields_def)

lemma TrimSpace_tail:
  obtains sp where "dropWhile is_space s = TrimSpace s @ sp" "\<forall>c \<in> set sp. is_space c"
proof -
  let ?t = "dropWhile is_space s"
  have "?t = TrimSpace s @ rev (takeWhile is_space (rev ?t))"
    unfolding TrimSpace_def by (metis rev_append rev_rev_ident takeWhile_dropWhile_id)
  moreover have "\<forall>c \<in> set (rev (takeWhile is_space (rev ?t))). is_space c"
    by (auto dest: set_takeWhileD)
  ultimately show ?thesis using that by blast
qed

lemma ToLower_no_space:
  assumes "\<forall>c \<in> set (ToLower w). \<not> is_space c"
  shows "\<forall>c \<in> set w. \<not> is_space c"
proof (intro ballI notI)
  fix c assume "c \<in> set w" "is_space c"
  then have "char_lower c = c" "char_lower c \<in> set (ToLower w)"
    by (auto simp: is_space_def char_lower_def ToLower_def)
  with assms \<open>is_space c\<close> show False by auto
qed

subsection \<open>Split and Join\<close>

lemma splitp_Join: "Join (splitp (\<lambda>c. c = sep) s) [sep] = s"
proof (induction s)
  case (Cons c s)
  then show ?case 
    by (cases "splitp (\<lambda>c. c = sep) s"; cases "tl (splitp (\<lambda>c. c = sep) s)") auto
qed simp

lemma Split_nonempty [simp]: "Split s sep \<noteq> []"
  by (simp add: Split_def)

lemma Split_Join: "Join (Split s sep) [sep] = s"
  by (simp add: Split_def splitp_Join)

lemma Split_of_Join:
  assumes "ls \<noteq> []" and "\<forall>l \<in> set ls. sep \<notin> set l"
  shows "Split (Join ls [sep]) sep = ls"
  using assms
proof (induction ls "[sep]" rule: Join.induct)
  case (2 s)
  then have "\<forall>c \<in> set s. c \<noteq> sep" by auto
  from splitp_span [OF this, of "[]"] show ?case by (simp add: Split_def)
next
  case (3 s t ts)
  then have "\<forall>c \<in> set s. c \<noteq> sep" by auto
  from splitp_span [OF this] 3 show ?case by (simp add: Split_def)
qed simp

subsection \<open>Lists and sets\<close>

lemma card_new_key:
  assumes "finite K"
  shows "(if k \<in> D then 0 else n) + n * card (K - insert k D) \<le> n * card (insert k K - D)"
proof (cases "k \<in> D")
  case True
  then have "insert k D = D" "insert k K - D = K - D" by auto
  with True show ?thesis by simp
next
  case False
  then have "insert k K - D = insert k (K - insert k D)" by auto
  with False assms show ?thesis by simp
qed

lemma set_map_filter: "set (List.map_filter f xs) = {y. \<exists>x \<in> set xs. f x = Some y}"
  by (induction xs) (auto split: option.splits)

lemma map_filter_append [simp]:
  "List.map_filter f (xs @ ys) = List.map_filter f xs @ List.map_filter f ys"
  by (induction xs) (auto split: option.splits)

lemma list_all2_in:
  assumes "list_all2 P xs ys" and "y \<in> set ys"
  obtains x where "x \<in> set xs" and "P x y"
  using assms that by (induction xs ys rule: list_all2_induct) auto

lemma map_fst_Some: "map_option fst x = Some a \<Longrightarrow> \<exists>b. x = Some (a, b)"
  by (cases x) auto

lemma distinct_concat_map:
  assumes "distinct xs" and "\<And>x. x \<in> set xs \<Longrightarrow> distinct (f x)"
    and "\<And>x y. x \<in> set xs \<Longrightarrow> y \<in> set xs \<Longrightarrow> x \<noteq> y \<Longrightarrow> set (f x) \<inter> set (f y) = {}"
  shows "distinct (concat (map f xs))"
  using assms
proof (induction xs)
  case (Cons x xs)
  then have "set (f x) \<inter> \<Union>(set ` f ` set xs) = {}" by fastforce
  with Cons show ?case by auto
qed simp

end
