(* ===== verification/Go_Net.thy ===== *)
theory Go_Net
  imports Prelude
begin

text \<open>
  The part of Go's packages \<open>net\<close>, \<open>strconv\<close> and \<open>fmt\<close> the program uses: IP addresses
  as lists of 4 or 16 bytes (numbers below 256), \<open>net.ParseIP\<close>, \<open>IP.To4\<close>, \<open>IP.String\<close>,
  \<open>net.JoinHostPort\<close>, decimal printing and parsing. \<open>ParseIP\<close> follows the standard
  library's parser byte by byte, so that "the same address in another textual form" has
  its real meaning where the configuration relies on it.
\<close>

type_synonym ip_bytes = "nat list"

subsection \<open>Decimal numbers\<close>

definition digit_char :: "nat \<Rightarrow> char" where
  "digit_char d = ''0123456789'' ! d"

fun Itoa :: "nat \<Rightarrow> string" where
  "Itoa n = (if n < 10 then [digit_char n] else Itoa (n div 10) @ [digit_char (n mod 10)])"

declare Itoa.simps [simp del]

definition is_digit :: "char \<Rightarrow> bool" where
  "is_digit c \<longleftrightarrow> (48::nat) \<le> of_char c \<and> of_char c \<le> (57::nat)"

definition digit_val :: "char \<Rightarrow> nat" where
  "digit_val c = of_char c - 48"

text \<open>\<open>fmt.Sprintf("%05d", n)\<close>.\<close>

definition Sprintf05d :: "nat \<Rightarrow> string" where
  "Sprintf05d n = replicate (5 - length (Itoa n)) CHR ''0'' @ Itoa n"

definition dec_value :: "string \<Rightarrow> nat" where
  "dec_value s = foldl (\<lambda>v c. v * 10 + digit_val c) 0 s"

text \<open>\<open>strconv.ParseFloat\<close> on the texts the program feeds it: plain decimal digits.\<close>

definition ParseDigits :: "string \<Rightarrow> nat option" where
  "ParseDigits s = (if s \<noteq> [] \<and> list_all is_digit s then Some (dec_value s) else None)"

subsection \<open>Parsing addresses\<close>

text \<open>\<open>parseIPv4Fields\<close>: \<open>fields\<close> are the octets done, \<open>digs\<close> the digits of the current one.\<close>

fun parseIPv4Fields_loop :: "string \<Rightarrow> nat list \<Rightarrow> string \<Rightarrow> nat list option" where
  "parseIPv4Fields_loop [] fields digs =
     (if digs = [] \<or> length fields < 3 then None else Some (fields @ [dec_value digs]))"
| "parseIPv4Fields_loop (c # s) fields digs =
     (if is_digit c then
        (if length digs = 1 \<and> dec_value digs = 0 then None
         else if dec_value (digs @ [c]) > 255 then None
         else parseIPv4Fields_loop s fields (digs @ [c]))
      else if c = CHR ''.'' then
        (if digs = [] \<or> s = [] \<or> length fields = 3 then None
         else parseIPv4Fields_loop s (fields @ [dec_value digs]) [])
      else None)"

definition parseIPv4Fields :: "string \<Rightarrow> ip_bytes option" where
  "parseIPv4Fields s = parseIPv4Fields_loop s [] []"

definition v4_prefix :: ip_bytes where
  "v4_prefix = replicate 10 0 @ [255, 255]"

definition is_hex :: "char \<Rightarrow> bool" where
  "is_hex c \<longleftrightarrow> is_digit c \<or> ((97::nat) \<le> of_char c \<and> of_char c \<le> (102::nat))
     \<or> ((65::nat) \<le> of_char c \<and> of_char c \<le> (70::nat))"

definition hex_val :: "char \<Rightarrow> nat" where
  "hex_val c = (if is_digit c then of_char c - 48
     else if (97::nat) \<le> of_char c then of_char c - 87 else of_char c - 55)"

definition hex_value :: "string \<Rightarrow> nat" where
  "hex_value s = foldl (\<lambda>v c. v * 16 + hex_val c) 0 s"

definition group_bytes :: "nat \<Rightarrow> ip_bytes" where
  "group_bytes g = [g div 256, g mod 256]"

text \<open>The group loop of \<open>parseIPv6\<close>; the first argument counts the groups still free.\<close>

fun parseIPv6_loop ::
  "nat \<Rightarrow> string \<Rightarrow> ip_bytes \<Rightarrow> nat option \<Rightarrow> (ip_bytes \<times> nat option \<times> string) option" where
  "parseIPv6_loop 0 s ip ell = Some (ip, ell, s)"
| "parseIPv6_loop (Suc n) s ip ell =
     (let digs = takeWhile is_hex s; rest = dropWhile is_hex s; off = length digs in
      if off = 0 \<or> off > 4 then None
      else if rest \<noteq> [] \<and> hd rest = CHR ''.'' then
        (if ell = None \<and> length ip \<noteq> 12 then None
         else if length ip + 4 > 16 then None
         else (case parseIPv4Fields s of
                 None \<Rightarrow> None
               | Some b \<Rightarrow> Some (ip @ b, ell, [])))
      else let ip' = ip @ group_bytes (hex_value digs) in
        (case rest of
           [] \<Rightarrow> Some (ip', ell, [])
         | c # s1 \<Rightarrow>
             if c \<noteq> CHR '':'' \<or> s1 = [] then None
             else if hd s1 = CHR '':'' then
               (if ell \<noteq> None then None
                else if tl s1 = [] then Some (ip', Some (length ip'), [])
                else parseIPv6_loop n (tl s1) ip' (Some (length ip')))
             else parseIPv6_loop n s1 ip' ell))"

definition parseIPv6 :: "string \<Rightarrow> ip_bytes option" where
  "parseIPv6 s =
     (if s = ''::'' then Some (replicate 16 0)
      else case (if HasPrefix s ''::'' then parseIPv6_loop 8 (drop 2 s) [] (Some 0)
                 else parseIPv6_loop 8 s [] None) of
        None \<Rightarrow> None
      | Some (ip, ell, rest) \<Rightarrow>
          if rest \<noteq> [] then None
          else if length ip < 16 then
            (case ell of
               None \<Rightarrow> None
             | Some e \<Rightarrow> Some (take e ip @ replicate (16 - length ip) 0 @ drop e ip))
          else if ell \<noteq> None then None
          else Some ip)"

text \<open>
  \<open>net.ParseIP\<close>: the first of \<^verbatim>\<open>. : %\<close> decides; an address with a zone (any \<^verbatim>\<open>%\<close>) is
  refused; the result has 16 bytes.
\<close>

definition ParseIP :: "string \<Rightarrow> ip_bytes option" where
  "ParseIP s =
     (case filter (\<lambda>c. c \<in> set ''.:%'') s of
        [] \<Rightarrow> None
      | c # _ \<Rightarrow>
          if CHR ''%'' \<in> set s then None
          else if c = CHR ''.'' then map_option (\<lambda>b. v4_prefix @ b) (parseIPv4Fields s)
          else parseIPv6 s)"

subsection \<open>Printing addresses\<close>

definition To4 :: "ip_bytes \<Rightarrow> ip_bytes option" where
  "To4 ip =
     (if length ip = 4 then Some ip
      else if length ip = 16 \<and> take 12 ip = v4_prefix then Some (drop 12 ip)
      else None)"

definition v4_string :: "ip_bytes \<Rightarrow> string" where
  "v4_string b = Join (map Itoa b) ''.''"

fun groups_of :: "ip_bytes \<Rightarrow> nat list" where
  "groups_of (a # b # bs) = (a * 256 + b) # groups_of bs"
| "groups_of _ = []"

definition hex_char :: "nat \<Rightarrow> char" where
  "hex_char d = ''0123456789abcdef'' ! d"

fun hex_string :: "nat \<Rightarrow> string" where
  "hex_string n = (if n < 16 then [hex_char n] else hex_string (n div 16) @ [hex_char (n mod 16)])"

declare hex_string.simps [simp del]

text \<open>The leftmost longest run of at least two zero groups: its start and end.\<close>

definition zero_run_at :: "nat list \<Rightarrow> nat \<Rightarrow> nat" where
  "zero_run_at gs i = length (takeWhile (\<lambda>g. g = 0) (drop i gs))"

fun longest_zero_run :: "nat list \<Rightarrow> nat list \<Rightarrow> nat \<times> nat \<Rightarrow> nat \<times> nat" where
  "longest_zero_run gs [] best = best"
| "longest_zero_run gs (i # is) (zs, ze) =
     (let l = zero_run_at gs i in
      longest_zero_run gs is (if l \<ge> 2 \<and> l > ze - zs then (i, i + l) else (zs, ze)))"

definition v6_string :: "ip_bytes \<Rightarrow> string" where
  "v6_string ip =
     (let gs = groups_of ip; (zs, ze) = longest_zero_run gs [0..<8] (255, 255) in
      if zs < 8
      then Join (map hex_string (take zs gs)) '':'' @ ''::'' @ Join (map hex_string (drop ze gs)) '':''
      else Join (map hex_string gs) '':'')"

definition hex_byte :: "nat \<Rightarrow> string" where
  "hex_byte b = [hex_char (b div 16), hex_char (b mod 16)]"

definition IP_String :: "ip_bytes \<Rightarrow> string" where
  "IP_String ip =
     (if ip = [] then ''<nil>''
      else if length ip \<noteq> 4 \<and> length ip \<noteq> 16 then CHR ''?'' # concat (map hex_byte ip)
      else case To4 ip of
        Some b \<Rightarrow> v4_string b
      | None \<Rightarrow> v6_string ip)"

text \<open>The verb \<^verbatim>\<open>%q\<close> of \<open>fmt\<close>, \<open>strconv.Quote\<close>, on ASCII; other bytes are left as they are.\<close>

definition quoted_char :: "char \<Rightarrow> string" where
  "quoted_char c = (let b = of_char c :: nat in
     if c = CHR 0x22 \<or> c = CHR 0x5C then [CHR 0x5C, c]
     else if 32 \<le> b \<and> b \<noteq> 127 then [c]
     else if 7 \<le> b \<and> b \<le> 13 then [CHR 0x5C, ''abtnvfr'' ! (b - 7)]
     else [CHR 0x5C, CHR ''x''] @ hex_byte b)"

definition Quote :: "string \<Rightarrow> string" where
  "Quote s = [CHR 0x22] @ concat (map quoted_char s) @ [CHR 0x22]"

lemma Quote_example:
  "Quote [CHR ''a'', CHR 0x22, CHR 0x0A, CHR 0x00] =
     [CHR 0x22, CHR ''a'', CHR 0x5C, CHR 0x22, CHR 0x5C, CHR ''n'', CHR 0x5C, CHR ''x'', CHR ''0'', CHR ''0'', CHR 0x22]"
  by code_simp

definition JoinHostPort :: "string \<Rightarrow> string \<Rightarrow> string" where
  "JoinHostPort host port =
     (if CHR '':'' \<in> set host then ''['' @ host @ '']:'' @ port else host @ '':'' @ port)"

subsection \<open>Facts\<close>

lemma Itoa_nonempty [simp]: "Itoa n \<noteq> []"
  by (subst Itoa.simps) simp

lemma hex_string_nonempty [simp]: "hex_string n \<noteq> []"
  by (subst hex_string.simps) simp

lemma Join_nonempty: "s \<noteq> [] \<Longrightarrow> Join (s # ss) sep \<noteq> []"
  by (cases ss) auto

lemma length_4: "length xs = 4 \<Longrightarrow> \<exists>a b c d. xs = [a, b, c, d]"
  by (auto simp: numeral_eq_Suc length_Suc_conv)

lemma To4_length: "To4 ip = Some b \<Longrightarrow> length b = 4"
  by (auto simp: To4_def split: if_splits)

text \<open>The empty string is the code's "no address": no address prints as it.\<close>

lemma IP_String_nonempty [simp]: "IP_String ip \<noteq> []"
proof (cases "To4 ip")
  case (Some b)
  then obtain p q r s where "b = [p, q, r, s]" using To4_length length_4 by blast
  with Some show ?thesis by (simp add: IP_String_def v4_string_def)
next
  case None
  have "v6_string ip \<noteq> []" if len: "length ip = 16"
  proof -
    obtain a b bs where "ip = a # b # bs"
      using len by (cases ip; cases "tl ip") auto
    then show ?thesis
      by (auto simp: v6_string_def Let_def Join_nonempty split: prod.splits)
  qed
  moreover have "length ip \<noteq> 4" using None by (auto simp: To4_def)
  ultimately show ?thesis using None by (simp add: IP_String_def)
qed

lemma IP_String_nonempty' [simp]: "[] \<noteq> IP_String ip"
  using IP_String_nonempty [of ip] by metis

subsection \<open>Decimal round trip and order\<close>

lemma dec_value_snoc [simp]: "dec_value (s @ [c]) = dec_value s * 10 + digit_val c"
  by (simp add: dec_value_def)

lemma dec_value_Nil [simp]: "dec_value [] = 0"
  by (simp add: dec_value_def)

lemma dec_value_append: "dec_value (s @ t) = dec_value s * 10 ^ length t + dec_value t"
  by (induction t rule: rev_induct)
    (simp_all add: append_assoc [symmetric] algebra_simps del: append_assoc)

lemma dec_value_Cons: "dec_value (c # s) = digit_val c * 10 ^ length s + dec_value s"
  using dec_value_append [of "[c]" s] dec_value_snoc [of "[]" c] by simp

lemma digit_val_less: "is_digit c \<Longrightarrow> digit_val c < 10"
  by (auto simp: is_digit_def digit_val_def)

lemma dec_value_less: "list_all is_digit s \<Longrightarrow> dec_value s < 10 ^ length s"
proof (induction s)
  case (Cons c s)
  then have "digit_val c \<le> 9" "dec_value s < 10 ^ length s" using digit_val_less [of c] by auto
  then have "digit_val c * 10 ^ length s \<le> 9 * 10 ^ length s" by (intro mult_right_mono) auto
  then have "digit_val c * 10 ^ length s + dec_value s < 9 * 10 ^ length s + 10 ^ length s"
    using \<open>dec_value s < 10 ^ length s\<close> by (rule add_le_less_mono)
  then show ?case by (simp add: dec_value_Cons)
qed simp

lemma dec_order:
  assumes "list_all is_digit s" and "list_all is_digit t" and "length s = length t"
  shows "s < t \<longleftrightarrow> dec_value s < dec_value t"
  using assms(3,1,2)
proof (induction s t rule: list_induct2)
  case (Cons c s d t)
  let ?n = "(10::nat) ^ length t"
  have bound: "dec_value s < ?n" "dec_value t < ?n"
    using Cons.prems Cons.hyps dec_value_less [of s] dec_value_less [of t] by auto
  have cd: "c < d \<longleftrightarrow> digit_val c < digit_val d" "c = d \<longleftrightarrow> digit_val c = digit_val d"
    using Cons.prems by (auto simp: less_char_def digit_val_def is_digit_def)
      (metis (mono_tags, lifting) add_diff_inverse_nat not_less of_char_eq_iff)
  have step: "x * ?n + dec_value s < y * ?n + dec_value t" if "x < y" for x y
  proof -
    have "Suc x * ?n \<le> y * ?n" using that by (intro mult_right_mono) auto
    with bound show ?thesis by simp
  qed
  have step': "y * ?n + dec_value t < x * ?n + dec_value s" if "y < x" for x y
  proof -
    have "Suc y * ?n \<le> x * ?n" using that by (intro mult_right_mono) auto
    with bound show ?thesis by simp
  qed
  show ?case
    using Cons step [of "digit_val c" "digit_val d"] step' [of "digit_val d" "digit_val c"]
    by (cases "digit_val c" "digit_val d" rule: linorder_cases) (auto simp: dec_value_Cons cd)
qed simp

lemma digit_char_digit: "d < 10 \<Longrightarrow> is_digit (digit_char d) \<and> digit_val (digit_char d) = d"
  unfolding numeral_nat less_Suc_eq
  by (elim disjE) (simp_all add: digit_char_def is_digit_def digit_val_def)

lemma Itoa_digits: "list_all is_digit (Itoa n) \<and> dec_value (Itoa n) = n"
proof (induction n rule: Itoa.induct)
  case (1 n)
  then show ?case
    using digit_char_digit [of n] digit_char_digit [of "n mod 10"] dec_value_snoc [of "[]"]
    by (subst (1 2) Itoa.simps) (auto simp: div_mult_mod_eq)
qed

lemma length_Itoa: "n < 10 ^ Suc k \<Longrightarrow> length (Itoa n) \<le> Suc k"
proof (induction k arbitrary: n)
  case 0
  then show ?case by (subst Itoa.simps) simp
next
  case (Suc k)
  then have "length (Itoa (n div 10)) \<le> Suc k" by (intro Suc.IH) auto
  then show ?case by (subst Itoa.simps) auto
qed

lemma Sprintf05d_digits:
  assumes "n < 100000"
  shows "list_all is_digit (Sprintf05d n)" "length (Sprintf05d n) = 5" "dec_value (Sprintf05d n) = n"
proof -
  have zeros: "dec_value (replicate k CHR ''0'') = 0" "list_all is_digit (replicate k CHR ''0'')" for k
    by (induction k) (auto simp: dec_value_Cons digit_val_def is_digit_def list_all_iff)
  show "list_all is_digit (Sprintf05d n)" and "dec_value (Sprintf05d n) = n"
    using Itoa_digits [of n] zeros by (auto simp: Sprintf05d_def dec_value_append)
  show "length (Sprintf05d n) = 5"
    using length_Itoa [of n 4] assms by (simp add: Sprintf05d_def)
qed

lemma ParseDigits_Sprintf05d:
  assumes "n < 100000"
  shows "ParseDigits (Sprintf05d n) = Some n"
  using Sprintf05d_digits [OF assms] by (auto simp: ParseDigits_def)

lemma Sprintf05d_less:
  assumes "m < 100000" and "n < 100000"
  shows "Sprintf05d m < Sprintf05d n \<longleftrightarrow> m < n"
  using dec_order [of "Sprintf05d m" "Sprintf05d n"] Sprintf05d_digits [OF assms(1)] Sprintf05d_digits [OF assms(2)]
  by simp

end
