(* ===== verification/Dns_Model.thy ===== *)
theory Dns_Model
  imports Go_Net "HOL-Library.Word" "HOL-Library.Sublist"
begin

text \<open>
  What all probers share: DNS records and messages, the environment they run in, the
  exchange with one retry (\<^verbatim>\<open>prober/retry.go\<close>), probe results (\<^verbatim>\<open>prober/result.go\<close>) and the
  contract of the type \<open>ProbeFn\<close> (\<^verbatim>\<open>prober/prober.go\<close>).

  The network, the DNS library, the clock and the context are not this program's code.
  They are the parameter \<open>penv\<close>: every call of the environment is appended to a history,
  and its answer is an arbitrary function of the history so far, so any network, however
  it changes over time, is an instance. A function that reads \<open>RootServers[0]\<close> panics on
  an empty list; its model returns \<open>None\<close> there.
\<close>

section \<open>Records and messages\<close>

datatype qtype = TypeA | TypeNS | TypeCNAME | TypeSOA | TypeMX | TypeTXT | TypeAAAA

record soa_rdata =
  soa_Ns :: string
  soa_Serial :: "32 word"
  soa_Refresh :: "32 word"
  soa_Retry :: "32 word"
  soa_Expire :: "32 word"
  soa_Minttl :: "32 word"

datatype rr =
  RR_A (rr_name: string) ip_bytes
| RR_AAAA (rr_name: string) ip_bytes
| RR_NS (rr_name: string) string
| RR_CNAME (rr_name: string) string
| RR_SOA (rr_name: string) soa_rdata
| RR_MX (rr_name: string) "16 word" string
| RR_TXT (rr_name: string) "string list"
| RR_Other (rr_name: string)

record dns_msg =
  msg_name :: string
  msg_type :: qtype
  msg_RecursionDesired :: bool

text \<open>\<open>SetQuestion\<close> asks with recursion desired; the walkers clear the flag.\<close>

definition SetQuestion :: "string \<Rightarrow> qtype \<Rightarrow> dns_msg" where
  "SetQuestion name t = \<lparr>msg_name = name, msg_type = t, msg_RecursionDesired = True\<rparr>"

definition NonRecursive :: "string \<Rightarrow> qtype \<Rightarrow> dns_msg" where
  "NonRecursive name t = (SetQuestion name t)\<lparr>msg_RecursionDesired := False\<rparr>"

datatype rcode = RcodeSuccess | RcodeNameError | RcodeOther nat

record response =
  rsp_Authoritative :: bool
  rsp_RecursionAvailable :: bool
  rsp_Rcode :: rcode
  rsp_Answer :: "rr list"
  rsp_Ns :: "rr list"
  rsp_Extra :: "rr list"

text \<open>
  Errors: a network error says whether it is a timeout, \<open>fmt.Errorf\<close> with \<^verbatim>\<open>%w\<close> wraps an
  error, everything else is a plain error.
\<close>

datatype goerror =
  NetError bool
| PlainError string
| Wrapped string goerror

section \<open>The environment\<close>

datatype event =
  EvExchange int dns_msg string
| EvCtx
| EvNow

type_synonym history = "event list"

record penv =
  net_exchange :: "history \<Rightarrow> int \<Rightarrow> dns_msg \<Rightarrow> string \<Rightarrow> goerror + response"
  ctx_Err :: "history \<Rightarrow> bool"
  clock :: "history \<Rightarrow> int"
  dns_Fqdn :: "string \<Rightarrow> string"
  client_Timeout :: int
  RootServers :: "string list"
  ResolveAddress :: "string \<Rightarrow> string"

definition ExchangeContext ::
  "penv \<Rightarrow> int \<Rightarrow> dns_msg \<Rightarrow> string \<Rightarrow> history \<Rightarrow> (goerror + response) \<times> history" where
  "ExchangeContext e timeout msg addr h =
     (net_exchange e h timeout msg addr, h @ [EvExchange timeout msg addr])"

definition ctxErr :: "penv \<Rightarrow> history \<Rightarrow> bool \<times> history" where
  "ctxErr e h = (ctx_Err e h, h @ [EvCtx])"

definition timeNow :: "penv \<Rightarrow> history \<Rightarrow> int \<times> history" where
  "timeNow e h = (clock e h, h @ [EvNow])"

section \<open>Exchange with one retry\<close>

fun asNetError :: "goerror \<Rightarrow> bool option" where
  "asNetError (NetError t) = Some t"
| "asNetError (PlainError _) = None"
| "asNetError (Wrapped _ err) = asNetError err"

fun IsTimeout :: "goerror option \<Rightarrow> bool" where
  "IsTimeout None = False"
| "IsTimeout (Some err) = (case asNetError err of Some t \<Rightarrow> t | None \<Rightarrow> False)"

text \<open>Go's integer division rounds towards zero.\<close>

definition halfDuration :: "int \<Rightarrow> int" where
  "halfDuration t = sgn t * (\<bar>t\<bar> div 2)"

definition ExchangeWithRetry ::
  "penv \<Rightarrow> dns_msg \<Rightarrow> string \<Rightarrow> history \<Rightarrow> (goerror + response) \<times> history" where
  "ExchangeWithRetry e msg addr h =
     (case ExchangeContext e (client_Timeout e) msg addr h of
        (Inr resp, h1) \<Rightarrow> (Inr resp, h1)
      | (Inl err, h1) \<Rightarrow>
          (case ctxErr e h1 of
             (True, h2) \<Rightarrow> (Inl err, h2)
           | (False, h2) \<Rightarrow>
               (case ExchangeContext e (halfDuration (client_Timeout e)) msg addr h2 of
                  (Inl retryErr, h3) \<Rightarrow> (Inl err, h3)
                | (Inr resp, h3) \<Rightarrow> (Inr resp, h3))))"

section \<open>Nameservers, delegations, results\<close>

record nameserver =
  Hostname :: string
  NS_IP :: string

record DelegationResult =
  ParentServer :: string
  NSRecords :: "nameserver list"
  Glue :: "nameserver list"

text \<open>
  A Go map of metric values or labels is the list of its entries, in the order a range
  over it happens to visit them; lookups use \<^const>\<open>map_of\<close>. All metric values the probers
  emit are whole numbers (flags, counts, 32-bit fields), exact in a float64; durations are
  kept in nanoseconds.
\<close>

record ProbeResult =
  Zone :: string
  Check :: string
  Nameserver :: string
  IP :: string
  Success :: bool
  TimedOut :: bool
  Duration :: int
  Metrics :: "(string \<times> int) list"
  Labels :: "(string \<times> string) list"

definition zeroResult :: "string \<Rightarrow> string \<Rightarrow> ProbeResult" where
  "zeroResult zone check = \<lparr>Zone = zone, Check = check, Nameserver = [], IP = [], Success = False,
     TimedOut = False, Duration = 0, Metrics = [], Labels = []\<rparr>"

definition boolToFloat :: "bool \<Rightarrow> int" where
  "boolToFloat b = (if b then 1 else 0)"

type_synonym probe_fn =
  "penv \<Rightarrow> string \<Rightarrow> nameserver list \<Rightarrow> DelegationResult \<Rightarrow> history \<Rightarrow>
   ((goerror + ProbeResult list) \<times> history) option"

section \<open>Histories\<close>

fun is_exchange :: "event \<Rightarrow> bool" where
  "is_exchange (EvExchange _ _ _) = True"
| "is_exchange _ = False"

definition exchanges :: "history \<Rightarrow> nat" where
  "exchanges h = length (filter is_exchange h)"

text \<open>\<open>extends n h h'\<close>: \<open>h'\<close> continues \<open>h\<close> with at most \<open>n\<close> exchanges.\<close>

definition extends :: "nat \<Rightarrow> history \<Rightarrow> history \<Rightarrow> bool" where
  "extends n h h' \<longleftrightarrow> (\<exists>evs. h' = h @ evs \<and> exchanges evs \<le> n)"

lemma extends_refl [intro, simp]: "extends n h h"
  by (auto simp: extends_def exchanges_def)

lemma extends_trans: "extends m h h1 \<Longrightarrow> extends n h1 h2 \<Longrightarrow> extends (m + n) h h2"
  by (fastforce simp: extends_def exchanges_def)

lemma extends_mono: "extends m h h' \<Longrightarrow> m \<le> n \<Longrightarrow> extends n h h'"
  by (auto simp: extends_def)

lemma extends_step:
  assumes "extends m h h1" and "extends n h1 h2" and "m + n \<le> k"
  shows "extends k h h2"
  using extends_mono [OF extends_trans [OF assms(1,2)] assms(3)] .

lemmas extends_then = extends_trans [THEN extends_mono]

lemma exchange_then:
  "ExchangeContext e t msg addr h = (r, h1) \<Longrightarrow> extends n h1 h' \<Longrightarrow> extends (Suc n) h h'"
  by (auto simp: ExchangeContext_def extends_def exchanges_def)

lemma extends_exchanges: "extends n h h' \<Longrightarrow> exchanges h' \<le> exchanges h + n"
  by (auto simp: extends_def exchanges_def)

lemma ExchangeContext_extends [query_bound]:
  "ExchangeContext e t msg addr h = (r, h') \<Longrightarrow> extends 1 h h'"
  by (auto simp: ExchangeContext_def extends_def exchanges_def)

lemma ctxErr_extends [query_bound]: "ctxErr e h = (r, h') \<Longrightarrow> extends 0 h h'"
  by (auto simp: ctxErr_def extends_def exchanges_def)

lemma timeNow_extends [query_bound]: "timeNow e h = (r, h') \<Longrightarrow> extends 0 h h'"
  by (auto simp: timeNow_def extends_def exchanges_def)

lemma ExchangeWithRetry_extends [query_bound]:
  assumes "ExchangeWithRetry e msg addr h = (r, h')"
  shows "extends 2 h h'"
  using assms by (auto simp: ExchangeWithRetry_def ExchangeContext_def ctxErr_def extends_def exchanges_def
      split: sum.splits bool.splits)

text \<open>Every operation only appends to the history.\<close>

lemma extends_prefix: "extends n h h' \<Longrightarrow> prefix h h'"
  by (auto simp: extends_def)

lemma ExchangeContext_prefix [hist_grow]: "ExchangeContext e t msg addr h = (r, h') \<Longrightarrow> prefix h h'"
  using ExchangeContext_extends extends_prefix by blast

lemma ExchangeWithRetry_prefix [hist_grow]: "ExchangeWithRetry e msg addr h = (r, h') \<Longrightarrow> prefix h h'"
  using ExchangeWithRetry_extends extends_prefix by blast

lemma timeNow_prefix [hist_grow]: "timeNow e h = (t, h') \<Longrightarrow> prefix h h'"
  by (auto simp: timeNow_def)

lemma ctxErr_prefix [hist_grow]: "ctxErr e h = (b, h') \<Longrightarrow> prefix h h'"
  by (auto simp: ctxErr_def)

text \<open>
  \<open>answered e h h' msg addr resp\<close>: between \<open>h\<close> and \<open>h'\<close> the question \<open>msg\<close> was put to
  \<open>addr\<close> and the response was \<open>resp\<close>.
\<close>

definition answered ::
  "penv \<Rightarrow> history \<Rightarrow> history \<Rightarrow> dns_msg \<Rightarrow> string \<Rightarrow> response \<Rightarrow> bool" where
  "answered e h h' msg addr resp \<longleftrightarrow> (\<exists>mid t post. h' = h @ mid @ EvExchange t msg addr # post \<and>
     net_exchange e (h @ mid) t msg addr = Inr resp)"

lemma answered_exchange:
  "ExchangeContext e t msg addr h = (Inr resp, h1) \<Longrightarrow> answered e h h1 msg addr resp"
  unfolding ExchangeContext_def answered_def by (metis Pair_inject append_Nil append_Nil2)

lemma answered_before: "prefix h0 h \<Longrightarrow> answered e h h' msg addr resp \<Longrightarrow> answered e h0 h' msg addr resp"
  unfolding prefix_def answered_def by (metis append.assoc)

lemma answered_after: "prefix h1 h' \<Longrightarrow> answered e h h1 msg addr resp \<Longrightarrow> answered e h h' msg addr resp"
  unfolding prefix_def answered_def by (metis append.assoc append_Cons)

lemma answered_retry:
  assumes "ExchangeWithRetry e msg addr h = (Inr resp, h')"
  shows "answered e h h' msg addr resp"
proof (cases "net_exchange e h (client_Timeout e) msg addr")
  case (Inl err)
  let ?h = "h @ [EvExchange (client_Timeout e) msg addr] @ [EvCtx]"
  from Inl assms have "ExchangeContext e (halfDuration (client_Timeout e)) msg addr ?h = (Inr resp, h')"
    by (auto simp: ExchangeWithRetry_def ExchangeContext_def ctxErr_def split: sum.splits bool.splits)
  from answered_before [OF _ answered_exchange [OF this], of h] show ?thesis by simp
next
  case (Inr r)
  then have "ExchangeContext e (client_Timeout e) msg addr h = (Inr resp, h')"
    using assms by (auto simp: ExchangeWithRetry_def ExchangeContext_def)
  then show ?thesis by (rule answered_exchange)
qed

lemma answered_split:
  assumes "prefix h h1" and "prefix h1 h2"
  shows "answered e h h2 m a r \<longleftrightarrow> answered e h h1 m a r \<or> answered e h1 h2 m a r"
proof
  obtain u v where h1: "h1 = h @ u" and h2: "h2 = h @ u @ v" using assms by (auto simp: prefix_def)
  assume "answered e h h2 m a r"
  then obtain mid t post where uv: "u @ v = mid @ EvExchange t m a # post"
    and net: "net_exchange e (h @ mid) t m a = Inr r"
    by (auto simp: answered_def h2)
  from uv consider w where "u = mid @ EvExchange t m a # w" | w where "mid = u @ w" "v = w @ EvExchange t m a # post"
    by (auto simp: append_eq_append_conv2 append_eq_Cons_conv)
  then show "answered e h h1 m a r \<or> answered e h1 h2 m a r"
  proof cases
    case 1
    then show ?thesis using net unfolding answered_def h1 by blast
  next
    case 2
    then have "answered e h1 h2 m a r"
      unfolding answered_def h1 h2 using net by (intro exI [of _ w] exI [of _ t] exI [of _ post]) simp
    then show ?thesis by blast
  qed
qed (use assms answered_before answered_after in blast)

lemma answered_ExchangeContext:
  "ExchangeContext e t msg addr h = (x, h') \<Longrightarrow>
   answered e h h' m a r \<longleftrightarrow> x = Inr r \<and> m = msg \<and> a = addr"
  by (auto simp: ExchangeContext_def answered_def Cons_eq_append_conv)

lemma answered_ctxErr: "ctxErr e h = (b, h') \<Longrightarrow> \<not> answered e h h' m a r"
  by (auto simp: ctxErr_def answered_def Cons_eq_append_conv)

lemma answered_refl [simp]: "\<not> answered e h h m a r"
  by (simp add: answered_def)

lemma answered_ExchangeWithRetry:
  assumes "ExchangeWithRetry e msg addr h = (x, h')"
  shows "answered e h h' m a r \<longleftrightarrow> x = Inr r \<and> m = msg \<and> a = addr"
proof -
  obtain x1 h1 where one: "ExchangeContext e (client_Timeout e) msg addr h = (x1, h1)" by fastforce
  note A1 = answered_ExchangeContext [OF one]
  show ?thesis
  proof (cases x1)
    case (Inr resp)
    with assms one A1 show ?thesis by (auto simp: ExchangeWithRetry_def)
  next
    case (Inl err)
    obtain b h2 where ctx: "ctxErr e h1 = (b, h2)" by fastforce
    note p = ExchangeContext_prefix [OF one] ctxErr_prefix [OF ctx]
    have none: "\<not> answered e h h2 m a r"
      using answered_split [OF p] A1 Inl answered_ctxErr [OF ctx] by auto
    show ?thesis
    proof (cases b)
      case True
      with assms one Inl ctx none show ?thesis by (auto simp: ExchangeWithRetry_def)
    next
      case False
      obtain x3 h3 where three: "ExchangeContext e (halfDuration (client_Timeout e)) msg addr h2 = (x3, h3)"
        by fastforce
      have "answered e h h3 m a r \<longleftrightarrow> x3 = Inr r \<and> m = msg \<and> a = addr"
        using answered_split [OF prefix_order.trans [OF p] ExchangeContext_prefix [OF three]] none
          answered_ExchangeContext [OF three] by auto
      with assms one Inl ctx False three show ?thesis
        by (auto simp: ExchangeWithRetry_def split: sum.splits)
    qed
  qed
qed

section \<open>Runs of exchanges\<close>

text \<open>\<open>ask_run e h run h'\<close>: from \<open>h\<close> to \<open>h'\<close> the questions of \<open>run\<close> were put, each with its retry, one after the
  other to the addresses named there and with the results named there, and nothing else was asked.\<close>

inductive ask_run :: "penv \<Rightarrow> history \<Rightarrow> (dns_msg \<times> string \<times> (goerror + response)) list \<Rightarrow> history \<Rightarrow> bool" for e where
  ask_done: "ask_run e h [] h"
| ask_step: "ExchangeWithRetry e msg addr h = (x, h1) \<Longrightarrow> ask_run e h1 run h2 \<Longrightarrow> ask_run e h ((msg, addr, x) # run) h2"

inductive_simps ask_run_Nil [simp]: "ask_run e h [] h'"
inductive_simps ask_run_Cons: "ask_run e h ((msg, addr, x) # run) h'"

lemma ask_run_one: "ExchangeWithRetry e msg addr h = (x, h1) \<Longrightarrow> ask_run e h [(msg, addr, x)] h1"
  by (blast intro: ask_run.intros)

lemma ask_run_append: "ask_run e h run h1 \<Longrightarrow> ask_run e h1 run2 h2 \<Longrightarrow> ask_run e h (run @ run2) h2"
  by (induction rule: ask_run.induct) (auto intro: ask_run.intros)

lemma ask_run_extends: "ask_run e h run h' \<Longrightarrow> extends (2 * length run) h h'"
proof (induction rule: ask_run.induct)
  case (ask_step msg addr h x h1 run h2)
  from ExchangeWithRetry_extends [OF ask_step.hyps(1)] ask_step.IH show ?case by (rule extends_step) simp
qed simp

lemma ask_run_prefix: "ask_run e h run h' \<Longrightarrow> prefix h h'"
  using ask_run_extends by (rule extends_prefix)

section \<open>The prober contract\<close>

text \<open>
  The interface of \<open>ProbeFn\<close>, as the cycle runner relies on it: a prober returns a list of
  results (never an error), each carrying the probed zone and the prober's own check name;
  it only talks to the environment, and it does not panic while there is a root server.
\<close>

locale prober =
  fixes check :: string and fn :: probe_fn
  assumes returns_results: "fn e zone nss dlg h = Some (out, h') \<Longrightarrow> \<exists>rs. out = Inr rs"
    and labelled: "fn e zone nss dlg h = Some (Inr rs, h') \<Longrightarrow> r \<in> set rs \<Longrightarrow>
       Zone r = zone \<and> Check r = check"
    and only_extends: "fn e zone nss dlg h = Some (out, h') \<Longrightarrow> prefix h h'"
    and no_panic: "RootServers e \<noteq> [] \<Longrightarrow> fn e zone nss dlg h \<noteq> None"
begin

lemma runs:
  assumes "RootServers e \<noteq> []"
  obtains rs h' where "fn e zone nss dlg h = Some (Inr rs, h')"
    and "\<And>r. r \<in> set rs \<Longrightarrow> Zone r = zone \<and> Check r = check"
proof -
  obtain out h' where "fn e zone nss dlg h = Some (out, h')"
    using no_panic [OF assms, of zone nss dlg h] by auto
  moreover then obtain rs where "out = Inr rs" using returns_results by blast
  ultimately show ?thesis using that labelled by blast
qed

end

section \<open>Properties\<close>

text \<open>The retry discipline. A call makes one exchange, or two exactly when the first failed
  and the context has not ended; its result is the second exchange's only where that one
  succeeds after the first failed, so a failure always reports the first error.\<close>

lemma retry_discipline:
  "let t = client_Timeout e;
       first = net_exchange e h t msg addr;
       alive = (\<not> ctx_Err e (h @ [EvExchange t msg addr]));
       second = net_exchange e (h @ [EvExchange t msg addr, EvCtx]) (halfDuration t) msg addr;
       (r, h') = ExchangeWithRetry e msg addr h in
   r = (if isl first \<and> alive \<and> \<not> isl second then second else first) \<and>
   exchanges h' = exchanges h + (if isl first \<and> alive then 2 else 1)"
  by (cases "net_exchange e h (client_Timeout e) msg addr")
    (auto simp: ExchangeWithRetry_def ExchangeContext_def ctxErr_def exchanges_def Let_def
      split: sum.splits bool.splits)

text \<open>Wrapping an error does not hide a timeout.\<close>

lemma IsTimeout_Wrapped [simp]: "IsTimeout (Some (Wrapped m err)) = IsTimeout (Some err)"
  by simp

end
