(* ===== verification/Delegation.thy ===== *)
theory Delegation
  imports Dns_Model
begin

text \<open>
  The iterative walks of \<^verbatim>\<open>prober/prober.go\<close>: \<open>WalkDelegation\<close> down to the parent of a zone,
  \<open>extractDelegation\<close>, and \<open>ResolveHostnames\<close> with its per-family walk. A loop
  \<^verbatim>\<open>for depth := 0; depth < 10; depth++\<close> is recursion on the iterations left, from 10.
\<close>

definition DefaultRootServers :: "string list" where
  "DefaultRootServers = [''198.41.0.4:53'', ''170.247.170.2:53'', ''192.33.4.12:53'',
     ''199.7.91.13:53'', ''192.203.230.10:53'']"

text \<open>The initial value of the variable \<open>ResolveAddress\<close>.\<close>

definition defaultResolveAddress :: "string \<Rightarrow> string" where
  "defaultResolveAddress ip = JoinHostPort ip ''53''"

section \<open>Reading a referral\<close>

definition ns_targets :: "rr list \<Rightarrow> string list" where
  "ns_targets rrs = List.map_filter (\<lambda>rr. case rr of RR_NS _ ns \<Rightarrow> Some ns | _ \<Rightarrow> None) rrs"

text \<open>The glue of a referral: an A record always wins, an AAAA record only where there is none.\<close>

fun referral_glue_loop :: "rr list \<Rightarrow> (string \<rightharpoonup> string) \<Rightarrow> (string \<rightharpoonup> string)" where
  "referral_glue_loop [] m = m"
| "referral_glue_loop (rr # rrs) m =
     referral_glue_loop rrs
       (case rr of
          RR_A name ip \<Rightarrow> m(name \<mapsto> IP_String ip)
        | RR_AAAA name ip \<Rightarrow> if m name = None then m(name \<mapsto> IP_String ip) else m
        | _ \<Rightarrow> m)"

definition referral_glue :: "rr list \<Rightarrow> (string \<rightharpoonup> string)" where
  "referral_glue extra = referral_glue_loop extra Map.empty"

text \<open>The address of the first NS with glue, as a server to query; empty when none has.\<close>

fun glued_server :: "penv \<Rightarrow> (string \<rightharpoonup> string) \<Rightarrow> string list \<Rightarrow> string" where
  "glued_server e glue [] = []"
| "glued_server e glue (ns # nss) =
     (case glue ns of Some ip \<Rightarrow> ResolveAddress e ip | None \<Rightarrow> glued_server e glue nss)"

text \<open>The addresses of the queried family in an answer.\<close>

definition family_addr :: "qtype \<Rightarrow> rr \<Rightarrow> string option" where
  "family_addr qt rr =
     (case rr of
        RR_A _ ip \<Rightarrow> if qt = TypeA then Some (IP_String ip) else None
      | RR_AAAA _ ip \<Rightarrow> if qt = TypeAAAA then Some (IP_String ip) else None
      | _ \<Rightarrow> None)"

definition family_addrs :: "qtype \<Rightarrow> rr list \<Rightarrow> string list" where
  "family_addrs qt rrs = List.map_filter (family_addr qt) rrs"

section \<open>The parent's delegation\<close>

fun glue_map_loop :: "rr list \<Rightarrow> (string \<Rightarrow> string list) \<Rightarrow> (string \<Rightarrow> string list)" where
  "glue_map_loop [] m = m"
| "glue_map_loop (rr # rrs) m =
     glue_map_loop rrs
       (case rr of
          RR_A name ip \<Rightarrow> if IP_String ip \<in> set (m name) then m else m(name := m name @ [IP_String ip])
        | RR_AAAA name ip \<Rightarrow> if IP_String ip \<in> set (m name) then m else m(name := m name @ [IP_String ip])
        | _ \<Rightarrow> m)"

fun extract_loop :: "(string \<Rightarrow> string list) \<Rightarrow> rr list \<Rightarrow> DelegationResult \<Rightarrow> DelegationResult" where
  "extract_loop glueMap [] result = result"
| "extract_loop glueMap (rr # rrs) result =
     (case rr of
        RR_NS _ ns \<Rightarrow>
          (let ips = glueMap ns in
           if ips = []
           then extract_loop glueMap rrs
                  (result\<lparr>NSRecords := NSRecords result @ [\<lparr>Hostname = ns, NS_IP = []\<rparr>]\<rparr>)
           else let entries = map (\<lambda>ip. \<lparr>Hostname = ns, NS_IP = ip\<rparr>) ips in
             extract_loop glueMap rrs
               (result\<lparr>NSRecords := NSRecords result @ entries, Glue := Glue result @ entries\<rparr>))
      | _ \<Rightarrow> extract_loop glueMap rrs result)"

definition extractDelegation :: "string \<Rightarrow> rr list \<Rightarrow> rr list \<Rightarrow> string \<Rightarrow> DelegationResult" where
  "extractDelegation parentServer nsSection extraSection zone =
     extract_loop (glue_map_loop extraSection (\<lambda>_. [])) nsSection
       \<lparr>ParentServer = parentServer, NSRecords = [], Glue = []\<rparr>"

section \<open>The delegation walk\<close>

text \<open>Without usable glue: ask the referring server for the first NS, A before AAAA.\<close>

fun fallback_pick :: "penv \<Rightarrow> qtype \<Rightarrow> rr list \<Rightarrow> string" where
  "fallback_pick e qt [] = []"
| "fallback_pick e qt (rr # rrs) =
     (let next = (case family_addr qt rr of Some ip \<Rightarrow> ResolveAddress e ip | None \<Rightarrow> []) in
      if next \<noteq> [] then next else fallback_pick e qt rrs)"

fun walk_fallback :: "penv \<Rightarrow> string \<Rightarrow> string \<Rightarrow> qtype list \<Rightarrow> history \<Rightarrow> string \<times> history" where
  "walk_fallback e server ns [] h = ([], h)"
| "walk_fallback e server ns (qt # qts) h =
     (case ExchangeContext e (client_Timeout e) (SetQuestion ns qt) server h of
        (Inl qerr, h1) \<Rightarrow> walk_fallback e server ns qts h1
      | (Inr aResp, h1) \<Rightarrow>
          (let next = fallback_pick e qt (rsp_Answer aResp) in
           if next \<noteq> [] then (next, h1) else walk_fallback e server ns qts h1))"

definition walk_next ::
  "penv \<Rightarrow> string \<Rightarrow> string list \<Rightarrow> (string \<rightharpoonup> string) \<Rightarrow> history \<Rightarrow> string \<times> history" where
  "walk_next e server referralNS glue h =
     (let next = glued_server e glue referralNS in
      if next = [] then walk_fallback e server (hd referralNS) [TypeA, TypeAAAA] h else (next, h))"

fun WalkDelegation_loop ::
  "penv \<Rightarrow> string \<Rightarrow> nat \<Rightarrow> string \<Rightarrow> history \<Rightarrow> (goerror + DelegationResult) \<times> history" where
  "WalkDelegation_loop e zone 0 server h =
     (Inl (PlainError (''delegation walk exceeded max depth for '' @ zone)), h)"
| "WalkDelegation_loop e zone (Suc left) server h =
     (case ExchangeContext e (client_Timeout e) (NonRecursive zone TypeNS) server h of
        (Inl err, h1) \<Rightarrow> (Inl (Wrapped (''querying '' @ server) err), h1)
      | (Inr resp, h1) \<Rightarrow>
          if rsp_Authoritative resp \<and> rsp_Answer resp \<noteq> []
          then (Inr (extractDelegation server (rsp_Answer resp) (rsp_Extra resp) zone), h1)
          else if rsp_Ns resp \<noteq> []
          then (let referralNS = ns_targets (rsp_Ns resp);
                    referralGlue = referral_glue (rsp_Extra resp) in
            if referralNS = [] then (Inl (PlainError (''empty referral from '' @ server)), h1)
            else if EqualFold (rr_name (hd (rsp_Ns resp))) zone
            then (Inr (extractDelegation server (rsp_Ns resp) (rsp_Extra resp) zone), h1)
            else (case walk_next e server referralNS referralGlue h1 of
                    (next, h2) \<Rightarrow>
                      if next = []
                      then (Inl (PlainError (''could not resolve any referral NS from '' @ server)), h2)
                      else WalkDelegation_loop e zone left next h2))
          else (Inl (PlainError (''unexpected response from '' @ server)), h1))"

definition WalkDelegation ::
  "penv \<Rightarrow> string \<Rightarrow> history \<Rightarrow> ((goerror + DelegationResult) \<times> history) option" where
  "WalkDelegation e zone h =
     (case RootServers e of
        [] \<Rightarrow> None
      | server # _ \<Rightarrow> Some (WalkDelegation_loop e (dns_Fqdn e zone) 10 server h))"

section \<open>Resolving a hostname\<close>

definition defaultReferralBudget :: nat where
  "defaultReferralBudget = 3"

text \<open>
  The glueless-referral fallback: resolve the referral's NS names out of band, one after
  the other, until one has an address. \<open>lookup\<close> is the recursive call with the budget
  reduced.
\<close>

fun glueless_server ::
  "penv \<Rightarrow> (string \<Rightarrow> history \<Rightarrow> (goerror + string list) \<times> history) \<Rightarrow> string list \<Rightarrow>
   history \<Rightarrow> string \<times> history" where
  "glueless_server e lookup [] h = ([], h)"
| "glueless_server e lookup (ns # nss) h =
     (case lookup ns h of
        (Inr (ip # _), h1) \<Rightarrow> (ResolveAddress e ip, h1)
      | (_, h1) \<Rightarrow> glueless_server e lookup nss h1)"

text \<open>The depth loop of \<open>resolveOneFamilyWithBudget\<close>; \<open>oob\<close> is \<open>None\<close> when the budget is 0.\<close>

fun resolve_loop ::
  "penv \<Rightarrow> (string \<Rightarrow> history \<Rightarrow> (goerror + string list) \<times> history) option \<Rightarrow> string \<Rightarrow>
   qtype \<Rightarrow> nat \<Rightarrow> string \<Rightarrow> history \<Rightarrow> (goerror + string list) \<times> history" where
  "resolve_loop e oob hostname qt 0 server h =
     (Inl (PlainError (''resolution exceeded max depth for '' @ hostname)), h)"
| "resolve_loop e oob hostname qt (Suc left) server h =
     (case ExchangeContext e (client_Timeout e) (NonRecursive hostname qt) server h of
        (Inl err, h1) \<Rightarrow> (Inl (Wrapped (''querying '' @ server @ '' for '' @ hostname) err), h1)
      | (Inr resp, h1) \<Rightarrow>
          (let found = family_addrs qt (rsp_Answer resp) in
           if found \<noteq> [] then (Inr found, h1)
           else
             let next0 = glued_server e (referral_glue (rsp_Extra resp)) (ns_targets (rsp_Ns resp));
                 (next, h2) = (case oob of
                     Some lookup \<Rightarrow> if next0 = [] then glueless_server e lookup (ns_targets (rsp_Ns resp)) h1
                                    else (next0, h1)
                   | None \<Rightarrow> (next0, h1)) in
             if next = [] then (Inr [], h2)
             else resolve_loop e oob hostname qt left next h2))"

fun resolveOneFamilyWithBudget ::
  "penv \<Rightarrow> string \<Rightarrow> string \<Rightarrow> qtype \<Rightarrow> nat \<Rightarrow> history \<Rightarrow> (goerror + string list) \<times> history" where
  "resolveOneFamilyWithBudget e root hostname qt 0 h =
     resolve_loop e None hostname qt 10 root h"
| "resolveOneFamilyWithBudget e root hostname qt (Suc budget) h =
     resolve_loop e (Some (\<lambda>ns. resolveOneFamilyWithBudget e root ns TypeA budget))
       hostname qt 10 root h"

definition resolveOneFamily ::
  "penv \<Rightarrow> string \<Rightarrow> string \<Rightarrow> qtype \<Rightarrow> history \<Rightarrow> (goerror + string list) \<times> history" where
  "resolveOneFamily e root hostname qt h =
     resolveOneFamilyWithBudget e root hostname qt defaultReferralBudget h"

text \<open>
  \<open>RootServers[0]\<close> is read at the start of each family's walk; the part after that read is a
  definition of its own, for the caller that has checked the list before. The message of the error when both
  families fail goes on with the texts of the two errors, which are left out.
\<close>

definition ResolveHostnames_from ::
  "penv \<Rightarrow> string \<Rightarrow> string \<Rightarrow> history \<Rightarrow> (goerror + string list) \<times> history" where
  "ResolveHostnames_from e root hostname h =
     (let host = dns_Fqdn e hostname;
          (v4, h1) = resolveOneFamily e root host TypeA h;
          (v6, h2) = resolveOneFamily e root host TypeAAAA h1 in
      case (v4, v6) of
        (Inl _, Inl _) \<Rightarrow>
          (Inl (PlainError (''both A and AAAA resolution failed for '' @ host)), h2)
      | _ \<Rightarrow>
          (Inr (case_sum (\<lambda>_. []) id v4 @ case_sum (\<lambda>_. []) id v6), h2))"

definition ResolveHostnames ::
  "penv \<Rightarrow> string \<Rightarrow> history \<Rightarrow> ((goerror + string list) \<times> history) option" where
  "ResolveHostnames e hostname h =
     (case RootServers e of
        [] \<Rightarrow> None
      | root # _ \<Rightarrow> Some (ResolveHostnames_from e root hostname h))"

text \<open>
  "Has an address", cached per name: the idiom of the SOA and MX probers. A cached verdict
  is used as it is; otherwise the check runs and its verdict is stored.
\<close>

definition hostname_resolves :: "penv \<Rightarrow> string \<Rightarrow> history \<Rightarrow> (bool \<times> history) option" where
  "hostname_resolves e name h =
     (case ResolveHostnames e name h of
        None \<Rightarrow> None
      | Some (Inl _, h1) \<Rightarrow> Some (False, h1)
      | Some (Inr ips, h1) \<Rightarrow> Some (ips \<noteq> [], h1))"

definition cached_check ::
  "(string \<rightharpoonup> bool) \<Rightarrow> string \<Rightarrow> (history \<Rightarrow> (bool \<times> history) option) \<Rightarrow> history \<Rightarrow>
   (bool \<times> (string \<rightharpoonup> bool) \<times> history) option" where
  "cached_check cache key check h =
     (case cache key of
        Some v \<Rightarrow> Some (v, cache, h)
      | None \<Rightarrow>
          (case check h of
             None \<Rightarrow> None
           | Some (v, h1) \<Rightarrow> Some (v, cache(key \<mapsto> v), h1)))"

section \<open>What a delegation holds\<close>

text \<open>The addresses the Additional section gives a name, each once, in order.\<close>

definition glue_addrs :: "rr list \<Rightarrow> string \<Rightarrow> string list" where
  "glue_addrs extra name = rev (remdups (rev (List.map_filter (\<lambda>rr. case rr of
       RR_A n ip \<Rightarrow> if n = name then Some (IP_String ip) else None
     | RR_AAAA n ip \<Rightarrow> if n = name then Some (IP_String ip) else None
     | _ \<Rightarrow> None) extra)))"

lemma glue_map_snoc:
  "glue_map_loop (rrs @ [rr]) m = glue_map_loop [rr] (glue_map_loop rrs m)"
  by (induction rrs arbitrary: m) (auto split: rr.splits)

lemma glue_map_loop_addrs: "glue_map_loop rrs (\<lambda>_. []) = glue_addrs rrs"
proof (induction rrs rule: rev_induct)
  case (snoc rr rrs)
  show ?case
    unfolding glue_map_snoc snoc
    by (cases rr) (auto simp: glue_addrs_def fun_eq_iff List.map_filter_simps List.map_filter_def)
qed (simp add: glue_addrs_def List.map_filter_simps fun_eq_iff)

definition delegation_entries :: "(string \<Rightarrow> string list) \<Rightarrow> string \<Rightarrow> nameserver list" where
  "delegation_entries glueMap ns =
     (if glueMap ns = [] then [\<lparr>Hostname = ns, NS_IP = []\<rparr>]
      else map (\<lambda>ip. \<lparr>Hostname = ns, NS_IP = ip\<rparr>) (glueMap ns))"

lemma extract_loop_entries:
  "NSRecords (extract_loop g rrs d) = NSRecords d @ concat (map (delegation_entries g) (ns_targets rrs))"
  by (induction g rrs d rule: extract_loop.induct)
    (auto simp: ns_targets_def List.map_filter_simps delegation_entries_def Let_def split: rr.splits)

lemma extract_loop_Glue:
  assumes "\<And>ns. [] \<notin> set (g ns)"
  shows "Glue (extract_loop g rrs d) = Glue d @
    filter (\<lambda>n. NS_IP n \<noteq> []) (concat (map (delegation_entries g) (ns_targets rrs)))"
proof (induction rrs arbitrary: d)
  case (Cons rr rrs)
  have "filter (\<lambda>n. NS_IP n \<noteq> []) (map (\<lambda>ip. \<lparr>Hostname = ns, NS_IP = ip\<rparr>) (g ns)) =
      map (\<lambda>ip. \<lparr>Hostname = ns, NS_IP = ip\<rparr>) (g ns)" for ns
    using assms [of ns] by (auto simp: filter_id_conv)
  then show ?case
    by (cases rr) (simp_all add: Cons ns_targets_def map_filter_simps delegation_entries_def Let_def)
qed (simp add: ns_targets_def map_filter_simps)

lemma extract_loop_Parent: "ParentServer (extract_loop g rrs d) = ParentServer d"
  by (induction g rrs d rule: extract_loop.induct) (auto simp: Let_def split: rr.splits)

lemma glue_addrs_nonempty: "[] \<notin> set (glue_addrs extra name)"
  by (auto simp: glue_addrs_def set_map_filter split: rr.splits if_splits)

lemma extractDelegation_NSRecords:
  "NSRecords (extractDelegation p ns extra zone) =
     concat (map (delegation_entries (glue_addrs extra)) (ns_targets ns))"
  by (simp add: extractDelegation_def extract_loop_entries glue_map_loop_addrs)

lemma extractDelegation_Glue:
  "Glue (extractDelegation p ns extra zone) =
     filter (\<lambda>n. NS_IP n \<noteq> []) (NSRecords (extractDelegation p ns extra zone))"
  by (simp add: extractDelegation_def extract_loop_entries extract_loop_Glue glue_map_loop_addrs
      glue_addrs_nonempty)

lemma distinct_delegation_entries: "distinct (delegation_entries (glue_addrs extra) ns)"
  by (simp add: delegation_entries_def distinct_map inj_on_def glue_addrs_def)

lemma extractDelegation_distinct:
  assumes "distinct (ns_targets ns)"
  shows "distinct (NSRecords (extractDelegation p ns extra zone))"
proof -
  have "Hostname n = x" if "n \<in> set (delegation_entries g x)" for n g x
    using that by (auto simp: delegation_entries_def split: if_splits)
  then show ?thesis
    unfolding extractDelegation_NSRecords
    by (intro distinct_concat_map assms distinct_delegation_entries) blast
qed

section \<open>Query bounds\<close>

lemma walk_fallback_extends:
  "walk_fallback e server ns qts h = (r, h') \<Longrightarrow> extends (length qts) h h'"
proof (induction qts arbitrary: h)
  case (Cons qt qts)
  obtain r1 h1 where x: "ExchangeContext e (client_Timeout e) (SetQuestion ns qt) server h = (r1, h1)"
    by fastforce
  have "h' = h1 \<or> walk_fallback e server ns qts h1 = (r, h')"
    using Cons.prems x by (auto simp: Let_def split: sum.splits if_splits)
  then have "extends (length qts) h1 h'" using Cons.IH by auto
  with x show ?case by (simp add: exchange_then)
qed simp

lemma walk_next_extends:
  "walk_next e server ns glue h = (r, h') \<Longrightarrow> extends 2 h h'"
  using walk_fallback_extends [of e server "hd ns" "[TypeA, TypeAAAA]" h]
  by (auto simp: walk_next_def Let_def numeral_2_eq_2 split: if_splits)

lemma WalkDelegation_loop_extends:
  "WalkDelegation_loop e zone left server h = (r, h') \<Longrightarrow> extends (3 * left) h h'"
proof (induction left arbitrary: server h)
  case (Suc left)
  obtain r1 h1 where x: "ExchangeContext e (client_Timeout e) (NonRecursive zone TypeNS) server h = (r1, h1)"
    by fastforce
  have "h' = h1 \<or> (\<exists>ns glue next h2. walk_next e server ns glue h1 = (next, h2) \<and>
      (h' = h2 \<or> WalkDelegation_loop e zone left next h2 = (r, h')))"
    using Suc.prems x
    by (auto simp: Let_def split: sum.splits if_splits prod.splits)
  then have "extends (2 + 3 * left) h1 h'"
  proof (elim disjE exE conjE)
    fix ns glue "next" h2
    assume n: "walk_next e server ns glue h1 = (next, h2)"
    { assume "h' = h2"
      with walk_next_extends [OF n] show ?thesis by (simp add: extends_mono) }
    { assume "WalkDelegation_loop e zone left next h2 = (r, h')"
      then show ?thesis by (rule extends_trans [OF walk_next_extends [OF n] Suc.IH]) }
  qed simp
  with x have "extends (Suc (2 + 3 * left)) h h'" by (rule exchange_then)
  then show ?case by (simp add: numeral_3_eq_3)
qed simp

lemma WalkDelegation_extends [query_bound]:
  "WalkDelegation e zone h = Some (r, h') \<Longrightarrow> extends 30 h h'"
  using WalkDelegation_loop_extends [of e "dns_Fqdn e zone" 10 "hd (RootServers e)" h r h']
  by (auto simp: WalkDelegation_def split: list.splits)

text \<open>The resolver's bound depends on how many NS records a response may hold.\<close>

definition ns_bounded :: "nat \<Rightarrow> penv \<Rightarrow> bool" where
  "ns_bounded N e \<longleftrightarrow> (\<forall>h t msg addr resp. net_exchange e h t msg addr = Inr resp \<longrightarrow>
     length (ns_targets (rsp_Ns resp)) \<le> N)"

fun resolve_bound :: "nat \<Rightarrow> nat \<Rightarrow> nat" where
  "resolve_bound N 0 = 10"
| "resolve_bound N (Suc budget) = 10 * (1 + N * resolve_bound N budget)"

lemma glueless_server_extends:
  assumes "\<And>ns h r h'. lookup ns h = (r, h') \<Longrightarrow> extends B h h'"
  shows "glueless_server e lookup nss h = (r, h') \<Longrightarrow> extends (length nss * B) h h'"
proof (induction nss arbitrary: h)
  case (Cons ns nss)
  obtain r1 h1 where l: "lookup ns h = (r1, h1)" by fastforce
  have "h' = h1 \<or> glueless_server e lookup nss h1 = (r, h')"
    using Cons.prems l by (auto split: sum.splits list.splits)
  then show ?case
    using assms [OF l] Cons.IH [of h1] by (auto intro: extends_mono extends_trans)
qed simp

text \<open>What happens between two levels of the walk.\<close>

definition resolve_next ::
  "penv \<Rightarrow> (string \<Rightarrow> history \<Rightarrow> (goerror + string list) \<times> history) option \<Rightarrow> response \<Rightarrow>
   history \<Rightarrow> string \<times> history" where
  "resolve_next e oob resp h =
     (let next0 = glued_server e (referral_glue (rsp_Extra resp)) (ns_targets (rsp_Ns resp)) in
      case oob of
        Some lookup \<Rightarrow> if next0 = [] then glueless_server e lookup (ns_targets (rsp_Ns resp)) h
                       else (next0, h)
      | None \<Rightarrow> (next0, h))"

lemma resolve_loop_cases:
  assumes "resolve_loop e oob hostname qt (Suc left) server h = (r, h')"
  obtains (error) err h1 where
      "ExchangeContext e (client_Timeout e) (NonRecursive hostname qt) server h = (Inl err, h1)"
      "h' = h1" "isl r"
  | (found) resp h1 where
      "ExchangeContext e (client_Timeout e) (NonRecursive hostname qt) server h = (Inr resp, h1)"
      "h' = h1" "r = Inr (family_addrs qt (rsp_Answer resp))" "family_addrs qt (rsp_Answer resp) \<noteq> []"
  | (stop) resp h1 where
      "ExchangeContext e (client_Timeout e) (NonRecursive hostname qt) server h = (Inr resp, h1)"
      "resolve_next e oob resp h1 = ([], h')" "r = Inr []"
  | (down) resp h1 "next" h2 where
      "ExchangeContext e (client_Timeout e) (NonRecursive hostname qt) server h = (Inr resp, h1)"
      "resolve_next e oob resp h1 = (next, h2)" "next \<noteq> []"
      "resolve_loop e oob hostname qt left next h2 = (r, h')"
proof -
  obtain r1 h1 where x: "ExchangeContext e (client_Timeout e) (NonRecursive hostname qt) server h = (r1, h1)"
    by fastforce
  show ?thesis
  proof (cases r1)
    case (Inl err)
    with assms x show ?thesis by (intro error) auto
  next
    case (Inr resp)
    obtain "next" h2 where n: "resolve_next e oob resp h1 = (next, h2)" by fastforce
    show ?thesis
    proof (cases "family_addrs qt (rsp_Answer resp) = []")
      case False
      with assms x Inr show ?thesis by (intro found) auto
    next
      case True
      with assms x Inr n have "(if next = [] then (Inr [], h2) else resolve_loop e oob hostname qt left next h2) = (r, h')"
        by (auto simp: resolve_next_def Let_def split: option.splits prod.splits if_splits)
      with x Inr n show ?thesis
        by (cases "next = []") (auto intro: stop down)
    qed
  qed
qed

lemma resolve_next_extends:
  assumes "\<And>lookup ns h r h'. oob = Some lookup \<Longrightarrow> lookup ns h = (r, h') \<Longrightarrow> extends B h h'"
    and "oob = None \<Longrightarrow> B = 0" and "length (ns_targets (rsp_Ns resp)) \<le> N"
    and "resolve_next e oob resp h = (r, h')"
  shows "extends (N * B) h h'"
proof (cases oob)
  case None
  with assms show ?thesis by (simp add: resolve_next_def Let_def)
next
  case (Some lookup)
  have "h' = h \<or> glueless_server e lookup (ns_targets (rsp_Ns resp)) h = (r, h')"
    using assms(4) Some by (auto simp: resolve_next_def Let_def split: if_splits)
  then have "h' = h \<or> extends (length (ns_targets (rsp_Ns resp)) * B) h h'"
    using glueless_server_extends [of lookup B] assms(1) [OF Some] by blast
  then show ?thesis using assms(3) by (auto intro: extends_mono)
qed

lemma resolve_loop_extends:
  assumes "\<And>lookup ns h r h'. oob = Some lookup \<Longrightarrow> lookup ns h = (r, h') \<Longrightarrow> extends B h h'"
    and "oob = None \<Longrightarrow> B = 0" and "ns_bounded N e"
  shows "resolve_loop e oob hostname qt left server h = (r, h') \<Longrightarrow> extends (left * (1 + N * B)) h h'"
proof (induction left arbitrary: server h)
  case (Suc left)
  have N: "length (ns_targets (rsp_Ns resp)) \<le> N"
    if "ExchangeContext e t msg addr h = (Inr resp, h1)" for t msg addr h resp h1
    using that assms(3) unfolding ExchangeContext_def ns_bounded_def by blast
  have nx: "extends (N * B) h1 h2"
    if "ExchangeContext e t msg addr h = (Inr resp, h1)" "resolve_next e oob resp h1 = (r, h2)"
    for t msg addr h resp h1 r h2
    by (rule resolve_next_extends [OF _ _ N [OF that(1)] that(2)]) (use assms(1,2) in blast)+
  from Suc.prems show ?case
  proof (cases rule: resolve_loop_cases)
    case (error err h1)
    then show ?thesis using extends_mono [OF ExchangeContext_extends [OF error(1)]] by simp
  next
    case (found resp h1)
    then show ?thesis using extends_mono [OF ExchangeContext_extends [OF found(1)]] by simp
  next
    case (stop resp h1)
    from exchange_then [OF stop(1) nx [OF stop(1,2)]]
    show ?thesis by (rule extends_mono) auto
  next
    case (down resp h1 "next" h2)
    from exchange_then [OF down(1) extends_trans [OF nx [OF down(1,2)] Suc.IH [OF down(4)]]]
    show ?thesis by (rule extends_mono) auto
  qed
qed simp

lemma resolveOneFamilyWithBudget_extends:
  assumes "ns_bounded N e"
  shows "resolveOneFamilyWithBudget e root hostname qt budget h = (r, h') \<Longrightarrow>
    extends (resolve_bound N budget) h h'"
proof (induction budget arbitrary: hostname qt h r h')
  case 0
  then have "extends (10 * (1 + N * 0)) h h'"
    by (intro resolve_loop_extends [OF _ _ assms]) auto
  then show ?case by simp
next
  case (Suc budget)
  then have "extends (10 * (1 + N * resolve_bound N budget)) h h'"
    by (intro resolve_loop_extends [OF _ _ assms]) auto
  then show ?case by simp
qed

section \<open>Where the results come from\<close>

lemma glueless_server_prefix:
  assumes "\<And>ns h r h'. lookup ns h = (r, h') \<Longrightarrow> prefix h h'"
  shows "glueless_server e lookup nss h = (r, h') \<Longrightarrow> prefix h h'"
proof (induction nss arbitrary: h)
  case (Cons ns nss)
  obtain r1 h1 where l: "lookup ns h = (r1, h1)" by fastforce
  have "h' = h1 \<or> glueless_server e lookup nss h1 = (r, h')"
    using Cons.prems l by (auto split: sum.splits list.splits)
  then show ?case
    using assms [OF l] Cons.IH [of h1] by (auto intro: prefix_order.trans)
qed simp

text \<open>The out-of-band lookup only appends to the history.\<close>

definition oob_grows ::
  "(string \<Rightarrow> history \<Rightarrow> (goerror + string list) \<times> history) option \<Rightarrow> bool" where
  "oob_grows oob \<longleftrightarrow> (\<forall>lookup ns h r h'. oob = Some lookup \<longrightarrow> lookup ns h = (r, h') \<longrightarrow> prefix h h')"

lemma resolve_next_prefix:
  assumes "oob_grows oob" and "resolve_next e oob resp h = (r, h')"
  shows "prefix h h'"
proof (cases oob)
  case None
  with assms show ?thesis by (simp add: resolve_next_def Let_def)
next
  case (Some lookup)
  have "h' = h \<or> glueless_server e lookup (ns_targets (rsp_Ns resp)) h = (r, h')"
    using assms(2) Some by (auto simp: resolve_next_def Let_def split: if_splits)
  moreover have "lookup ns h = (r, h') \<Longrightarrow> prefix h h'" for ns h r h'
    using assms(1) Some unfolding oob_grows_def by blast
  ultimately show ?thesis using glueless_server_prefix [of lookup] by blast
qed

lemma resolve_down_prefix:
  assumes "oob_grows oob" and "ExchangeContext e t msg addr h = (Inr resp, h1)"
    and "resolve_next e oob resp h1 = (r, h2)"
  shows "prefix h h2"
  using ExchangeContext_prefix [OF assms(2)] resolve_next_prefix [OF assms(1,3)]
  by (rule prefix_order.trans)

lemma resolve_loop_prefix:
  assumes "oob_grows oob"
  shows "resolve_loop e oob hostname qt left server h = (r, h') \<Longrightarrow> prefix h h'"
proof (induction left arbitrary: server h)
  case (Suc left)
  from Suc.prems show ?case
  proof (cases rule: resolve_loop_cases)
    case (down resp h1 "next" h2)
    show ?thesis
      using resolve_down_prefix [OF assms down(1,2)] Suc.IH [OF down(4)] by (rule prefix_order.trans)
  next
    case (stop resp h1)
    show ?thesis by (rule resolve_down_prefix [OF assms stop(1,2)])
  qed (auto dest: ExchangeContext_prefix)
qed simp

lemma resolveOneFamilyWithBudget_prefix:
  "resolveOneFamilyWithBudget e root hostname qt budget h = (r, h') \<Longrightarrow> prefix h h'"
proof (induction budget arbitrary: hostname qt h r h')
  case 0
  have "oob_grows None" by (simp add: oob_grows_def)
  from resolve_loop_prefix [OF this] 0 show ?case by simp
next
  case (Suc budget)
  have "oob_grows (Some (\<lambda>ns. resolveOneFamilyWithBudget e root ns TypeA budget))"
    using Suc.IH by (auto simp: oob_grows_def)
  from resolve_loop_prefix [OF this] Suc.prems show ?case by simp
qed

text \<open>A non-empty result of a family's walk is the answer section of one response.\<close>

definition family_answer :: "penv \<Rightarrow> history \<Rightarrow> history \<Rightarrow> string \<Rightarrow> qtype \<Rightarrow> string list \<Rightarrow> bool" where
  "family_answer e h h' hostname qt ips \<longleftrightarrow> ips = [] \<or>
     (\<exists>server resp. answered e h h' (NonRecursive hostname qt) server resp \<and>
        ips = family_addrs qt (rsp_Answer resp))"

lemma family_answer_before:
  "prefix h0 h \<Longrightarrow> family_answer e h h' hostname qt ips \<Longrightarrow> family_answer e h0 h' hostname qt ips"
  unfolding family_answer_def using answered_before by blast

lemma family_answer_after:
  "prefix h1 h' \<Longrightarrow> family_answer e h h1 hostname qt ips \<Longrightarrow> family_answer e h h' hostname qt ips"
  unfolding family_answer_def using answered_after by blast

lemma resolve_loop_answer:
  assumes "oob_grows oob"
  shows "resolve_loop e oob hostname qt left server h = (Inr ips, h') \<Longrightarrow>
    family_answer e h h' hostname qt ips"
proof (induction left arbitrary: server h)
  case (Suc left)
  from Suc.prems show ?case
  proof (cases rule: resolve_loop_cases)
    case (found resp h1)
    then show ?thesis using answered_exchange [OF found(1)] unfolding family_answer_def by auto
  next
    case (down resp h1 "next" h2)
    show ?thesis
      by (rule family_answer_before [OF resolve_down_prefix [OF assms down(1,2)] Suc.IH [OF down(4)]])
  qed (auto simp: family_answer_def)
qed simp

lemma resolveOneFamily_answer:
  assumes "resolveOneFamily e root hostname qt h = (Inr ips, h')"
  shows "family_answer e h h' hostname qt ips"
proof -
  have "oob_grows (Some (\<lambda>ns. resolveOneFamilyWithBudget e root ns TypeA 2))"
    using resolveOneFamilyWithBudget_prefix by (auto simp: oob_grows_def)
  then show ?thesis
    using assms by (auto simp: resolveOneFamily_def defaultReferralBudget_def numeral_3_eq_3
        numeral_2_eq_2 simp del: resolve_loop.simps intro: resolve_loop_answer)
qed

lemma resolveOneFamily_prefix: "resolveOneFamily e root hostname qt h = (r, h') \<Longrightarrow> prefix h h'"
  unfolding resolveOneFamily_def by (rule resolveOneFamilyWithBudget_prefix)

lemma ResolveHostnames_eq:
  assumes "resolveOneFamily e root (dns_Fqdn e hostname) TypeA h = (v4, h1)"
    and "resolveOneFamily e root (dns_Fqdn e hostname) TypeAAAA h1 = (v6, h2)"
    and "RootServers e = root # rs"
  shows "ResolveHostnames e hostname h = Some
     (if isl v4 \<and> isl v6 then Inl (PlainError (''both A and AAAA resolution failed for '' @ dns_Fqdn e hostname))
      else Inr (case_sum (\<lambda>_. []) id v4 @ case_sum (\<lambda>_. []) id v6), h2)"
  using assms by (cases v4; cases v6) (simp_all add: ResolveHostnames_def ResolveHostnames_from_def)

lemma ResolveHostnames_cases:
  assumes "ResolveHostnames e hostname h = Some (r, h')"
  obtains root v4 h1 v6 where "RootServers e \<noteq> []" "root = hd (RootServers e)"
    "resolveOneFamily e root (dns_Fqdn e hostname) TypeA h = (v4, h1)"
    "resolveOneFamily e root (dns_Fqdn e hostname) TypeAAAA h1 = (v6, h')"
    "isl r \<longleftrightarrow> isl v4 \<and> isl v6"
    "\<not> isl r \<Longrightarrow> r = Inr (case_sum (\<lambda>_. []) id v4 @ case_sum (\<lambda>_. []) id v6)"
proof -
  obtain root rs where R: "RootServers e = root # rs"
    using assms by (cases "RootServers e") (simp_all add: ResolveHostnames_def)
  obtain v4 h1 where v4: "resolveOneFamily e root (dns_Fqdn e hostname) TypeA h = (v4, h1)"
    by (meson surj_pair)
  obtain v6 h2 where v6: "resolveOneFamily e root (dns_Fqdn e hostname) TypeAAAA h1 = (v6, h2)"
    by (meson surj_pair)
  note eq = ResolveHostnames_eq [OF v4 v6 R]
  have h2: "h' = h2" and r: "r = (if isl v4 \<and> isl v6
      then Inl (PlainError (''both A and AAAA resolution failed for '' @ dns_Fqdn e hostname))
      else Inr (case_sum (\<lambda>_. []) id v4 @ case_sum (\<lambda>_. []) id v6))"
    using assms unfolding eq by simp_all
  have e: "isl r \<longleftrightarrow> isl v4 \<and> isl v6"
    "\<not> isl r \<Longrightarrow> r = Inr (case_sum (\<lambda>_. []) id v4 @ case_sum (\<lambda>_. []) id v6)"
    unfolding r by (cases "isl v4 \<and> isl v6"; simp)+
  have n: "RootServers e \<noteq> []" "root = hd (RootServers e)" by (simp_all add: R)
  from n v4 v6 [folded h2] e show ?thesis by (rule that)
qed

lemma ResolveHostnames_prefix [hist_grow]:
  assumes "ResolveHostnames e hostname h = Some (r, h')"
  shows "prefix h h'"
  using assms by (rule ResolveHostnames_cases) (meson prefix_order.trans resolveOneFamily_prefix)

lemma ResolveHostnames_None: "ResolveHostnames e hostname h = None \<longleftrightarrow> RootServers e = []"
  by (simp add: ResolveHostnames_def Let_def split: list.splits prod.splits sum.splits)

lemma ResolveHostnames_answers:
  assumes "ResolveHostnames e hostname h = Some (Inr ips, h')"
  shows "\<exists>v4 v6. ips = v4 @ v6 \<and> family_answer e h h' (dns_Fqdn e hostname) TypeA v4 \<and>
     family_answer e h h' (dns_Fqdn e hostname) TypeAAAA v6"
  using assms
proof (cases rule: ResolveHostnames_cases)
  case (1 root v4 h1 v6)
  let ?a = "case_sum (\<lambda>_. []) id v4" and ?b = "case_sum (\<lambda>_. []) id v6"
  have "family_answer e h h' (dns_Fqdn e hostname) TypeA ?a"
    using 1(3) family_answer_after [OF resolveOneFamily_prefix [OF 1(4)] resolveOneFamily_answer]
    by (cases v4) (simp add: family_answer_def, simp)
  moreover have "family_answer e h h' (dns_Fqdn e hostname) TypeAAAA ?b"
    using 1(4) family_answer_before [OF resolveOneFamily_prefix [OF 1(3)] resolveOneFamily_answer]
    by (cases v6) (simp add: family_answer_def, simp)
  ultimately show ?thesis using 1(6) by auto
qed

text \<open>The parent's delegation is what one server said about this zone.\<close>

definition delegation_of :: "penv \<Rightarrow> history \<Rightarrow> history \<Rightarrow> string \<Rightarrow> DelegationResult \<Rightarrow> bool" where
  "delegation_of e h h' zone d \<longleftrightarrow>
     (\<exists>resp. answered e h h' (NonRecursive zone TypeNS) (ParentServer d) resp \<and>
       (rsp_Authoritative resp \<and> rsp_Answer resp \<noteq> [] \<and>
          d = extractDelegation (ParentServer d) (rsp_Answer resp) (rsp_Extra resp) zone
        \<or> ns_targets (rsp_Ns resp) \<noteq> [] \<and> EqualFold (rr_name (hd (rsp_Ns resp))) zone \<and>
          d = extractDelegation (ParentServer d) (rsp_Ns resp) (rsp_Extra resp) zone))"

lemma extractDelegation_Parent [simp]: "ParentServer (extractDelegation p ns extra zone) = p"
  by (simp add: extractDelegation_def extract_loop_Parent)

lemma WalkDelegation_loop_sound:
  "WalkDelegation_loop e zone left server h = (Inr d, h') \<Longrightarrow> delegation_of e h h' zone d"
proof (induction left arbitrary: server h)
  case (Suc left)
  obtain r1 h1 where x: "ExchangeContext e (client_Timeout e) (NonRecursive zone TypeNS) server h = (r1, h1)"
    by fastforce
  with Suc.prems obtain resp where r1: "r1 = Inr resp" by (cases r1) auto
  note a = answered_exchange [OF x [unfolded r1]]
  consider "rsp_Authoritative resp" "rsp_Answer resp \<noteq> []" "h' = h1"
      "d = extractDelegation server (rsp_Answer resp) (rsp_Extra resp) zone"
    | "ns_targets (rsp_Ns resp) \<noteq> []" "EqualFold (rr_name (hd (rsp_Ns resp))) zone" "h' = h1"
      "d = extractDelegation server (rsp_Ns resp) (rsp_Extra resp) zone"
    | ns glue "next" h2 where "walk_next e server ns glue h1 = (next, h2)"
      "WalkDelegation_loop e zone left next h2 = (Inr d, h')"
    using Suc.prems x r1 by (auto simp: Let_def split: if_splits prod.splits)
  then show ?case
  proof cases
    case 3
    then have "prefix h h2"
      using ExchangeContext_prefix [OF x] extends_prefix [OF walk_next_extends]
      by (meson prefix_order.trans)
    with Suc.IH [OF 3(2)] show ?thesis unfolding delegation_of_def using answered_before by blast
  qed (use a in \<open>auto simp: delegation_of_def\<close>)
qed simp

lemma hostname_resolves_prefix [hist_grow]:
  "hostname_resolves e name h = Some (b, h') \<Longrightarrow> prefix h h'"
  by (auto simp: hostname_resolves_def split: option.splits sum.splits dest: ResolveHostnames_prefix)

lemma hostname_resolves_None: "hostname_resolves e name h = None \<longleftrightarrow> RootServers e = []"
  using ResolveHostnames_None [of e name h]
  by (auto simp: hostname_resolves_def split: option.splits sum.splits)

lemma ResolveHostnames_from_steps:
  assumes "ResolveHostnames_from e root hostname h = (r, h')"
  obtains v4 h1 v6 where "resolveOneFamily e root (dns_Fqdn e hostname) TypeA h = (v4, h1)"
    "resolveOneFamily e root (dns_Fqdn e hostname) TypeAAAA h1 = (v6, h')"
proof -
  obtain v4 h1 where v4: "resolveOneFamily e root (dns_Fqdn e hostname) TypeA h = (v4, h1)"
    by (meson surj_pair)
  obtain v6 h2 where v6: "resolveOneFamily e root (dns_Fqdn e hostname) TypeAAAA h1 = (v6, h2)"
    by (meson surj_pair)
  have "h' = h2"
    using assms v4 v6 by (cases v4; cases v6) (simp_all add: ResolveHostnames_from_def)
  then show ?thesis using that v4 v6 by blast
qed

lemma ResolveHostnames_from_prefix [hist_grow]:
  "ResolveHostnames_from e root hostname h = (r, h') \<Longrightarrow> prefix h h'"
  by (erule ResolveHostnames_from_steps) (meson prefix_order.trans resolveOneFamily_prefix)

lemma ResolveHostnames_from_extends:
  assumes "ns_bounded N e" and "ResolveHostnames_from e root hostname h = (r, h')"
  shows "extends (2 * resolve_bound N 3) h h'"
  using assms(2)
proof (rule ResolveHostnames_from_steps)
  fix v4 h1 v6
  assume "resolveOneFamily e root (dns_Fqdn e hostname) TypeA h = (v4, h1)"
    and "resolveOneFamily e root (dns_Fqdn e hostname) TypeAAAA h1 = (v6, h')"
  then show ?thesis unfolding resolveOneFamily_def defaultReferralBudget_def mult_2
    by (intro extends_trans resolveOneFamilyWithBudget_extends [OF assms(1)])
qed

lemma ResolveHostnames_extends:
  assumes "ns_bounded N e" and "ResolveHostnames e hostname h = Some (r, h')"
  shows "extends (2 * resolve_bound N 3) h h'"
  using assms ResolveHostnames_from_extends [OF assms(1)]
  by (auto simp: ResolveHostnames_def split: list.splits)

lemma WalkDelegation_prefix [hist_grow]: "WalkDelegation e zone h = Some (r, h') \<Longrightarrow> prefix h h'"
  using WalkDelegation_extends extends_prefix by blast

lemma WalkDelegation_None: "WalkDelegation e zone h = None \<longleftrightarrow> RootServers e = []"
  by (simp add: WalkDelegation_def split: list.splits)

section \<open>Cached verdicts\<close>

text \<open>\<open>v\<close> is the verdict of a resolution, made between \<open>h\<close> and \<open>h'\<close>, of a name with key \<open>k\<close>.\<close>

definition resolved_verdict :: "penv \<Rightarrow> history \<Rightarrow> history \<Rightarrow> string \<Rightarrow> bool \<Rightarrow> bool" where
  "resolved_verdict e h h' k v \<longleftrightarrow> (\<exists>name h1 h2. ToLower name = k \<and>
     hostname_resolves e name h1 = Some (v, h2) \<and> prefix h h1 \<and> prefix h2 h')"

definition resolved_verdicts :: "penv \<Rightarrow> history \<Rightarrow> history \<Rightarrow> (string \<rightharpoonup> bool) \<Rightarrow> bool" where
  "resolved_verdicts e h h' cache \<longleftrightarrow> (\<forall>k v. cache k = Some v \<longrightarrow> resolved_verdict e h h' k v)"

lemma resolved_verdict_after: "resolved_verdict e h h1 k v \<Longrightarrow> prefix h1 h' \<Longrightarrow> resolved_verdict e h h' k v"
  unfolding resolved_verdict_def using prefix_order.trans [of _ h1 h'] by blast

lemma resolved_verdicts_after: "resolved_verdicts e h h1 c \<Longrightarrow> prefix h1 h' \<Longrightarrow> resolved_verdicts e h h' c"
  unfolding resolved_verdicts_def by (blast intro: resolved_verdict_after)

lemma resolved_verdicts_empty [simp]: "resolved_verdicts e h h' Map.empty"
  by (simp add: resolved_verdicts_def)

lemma cached_check_prefix [hist_grow]:
  "cached_check cache key (hostname_resolves e name) h = Some (v, cache', h') \<Longrightarrow> prefix h h'"
  by (auto simp: cached_check_def dest: hostname_resolves_prefix split: option.splits)

lemma cached_check_None:
  "cached_check cache key (hostname_resolves e name) h = None \<Longrightarrow> RootServers e = []"
  by (auto simp: cached_check_def hostname_resolves_None split: option.splits)

lemma cached_check_verdict:
  assumes "cached_check cache (ToLower name) (hostname_resolves e name) h1 = Some (v, cache', h2)"
  shows "cache \<subseteq>\<^sub>m cache'" and "cache' (ToLower name) = Some v"
    and "prefix h h1 \<Longrightarrow> resolved_verdicts e h h1 cache \<Longrightarrow> resolved_verdicts e h h2 cache'"
proof -
  have pre: "prefix h1 h2" using assms by (rule cached_check_prefix)
  have "cache' = cache \<or>
      (hostname_resolves e name h1 = Some (v, h2) \<and> cache' = cache(ToLower name \<mapsto> v))"
    using assms by (auto simp: cached_check_def split: option.splits)
  moreover assume "prefix h h1" "resolved_verdicts e h h1 cache"
  moreover then have "resolved_verdicts e h h2 cache" using pre resolved_verdicts_after by blast
  moreover have "resolved_verdict e h h2 (ToLower name) v" if "hostname_resolves e name h1 = Some (v, h2)"
    using that \<open>prefix h h1\<close> unfolding resolved_verdict_def by blast
  ultimately show "resolved_verdicts e h h2 cache'"
    by (auto simp: resolved_verdicts_def split: if_splits)
qed (use assms in \<open>auto simp: cached_check_def map_le_def split: option.splits\<close>)

section \<open>Properties\<close>

text \<open>
  An environment for the examples: a network that answers every question the same way each
  time, a context that never ends, a stopped clock.
\<close>

definition static_env :: "(dns_msg \<Rightarrow> string \<Rightarrow> goerror + response) \<Rightarrow> penv" where
  "static_env ans = \<lparr>net_exchange = (\<lambda>h t msg addr. ans msg addr), ctx_Err = (\<lambda>_. False),
     clock = (\<lambda>_. 0), dns_Fqdn = (\<lambda>s. if s \<noteq> [] \<and> last s = CHR ''.'' then s else s @ ''.''),
     client_Timeout = 5000000000, RootServers = [''r''], ResolveAddress = (\<lambda>ip. ip)\<rparr>"

definition rsp :: "bool \<Rightarrow> rr list \<Rightarrow> rr list \<Rightarrow> rr list \<Rightarrow> response" where
  "rsp aa answer ns extra = \<lparr>rsp_Authoritative = aa, rsp_RecursionAvailable = False,
     rsp_Rcode = RcodeSuccess, rsp_Answer = answer, rsp_Ns = ns, rsp_Extra = extra\<rparr>"

text \<open>A root that delegates \<^verbatim>\<open>z.\<close> to \<^verbatim>\<open>n.z.\<close> with glue, and the server behind the glue.\<close>

definition example_net :: "dns_msg \<Rightarrow> string \<Rightarrow> goerror + response" where
  "example_net msg addr =
     (if addr = ''r''
      then Inr (rsp False [] [RR_NS ''z.'' ''n.z.''] [RR_A ''n.z.'' [7, 0, 0, 1]])
      else if msg_name msg = ''n.z.'' \<and> msg_type msg = TypeA
      then Inr (rsp True [RR_A ''n.z.'' [7, 0, 0, 1]] [] [])
      else Inr (rsp True [] [] []))"

text \<open>C8: the parent's delegation, from one response: every NS record becomes one entry per
  distinct glue address of its host, in the order of the Additional section, or a single
  entry with the empty address when there is none, and the glue list is exactly the entries
  that have an address.\<close>

theorem delegation_fanout:
  "NSRecords (extractDelegation p ns extra zone) = concat (map (\<lambda>host.
       if glue_addrs extra host = [] then [\<lparr>Hostname = host, NS_IP = []\<rparr>]
       else map (\<lambda>ip. \<lparr>Hostname = host, NS_IP = ip\<rparr>) (glue_addrs extra host)) (ns_targets ns)) \<and>
   Glue (extractDelegation p ns extra zone) =
     filter (\<lambda>n. NS_IP n \<noteq> []) (NSRecords (extractDelegation p ns extra zone))"
  using extractDelegation_NSRecords extractDelegation_Glue
  by (simp add: delegation_entries_def [abs_def])

text \<open>A glue record published twice does not double the entry: with distinct NS hosts, no
  (host, address) pair occurs twice in the delegation.\<close>

lemma delegation_distinct:
  assumes "distinct (ns_targets ns)"
  shows "distinct (NSRecords (extractDelegation p ns extra zone))"
  using assms by (rule extractDelegation_distinct)

text \<open>The delegation walk stops after at most thirty exchanges, ten referrals with up to two
  fallback queries each, whatever the network answers; the only panic is an empty list of
  root servers.\<close>

lemma walk_bounded:
  "(case WalkDelegation e zone h of
      None \<Rightarrow> RootServers e = []
    | Some (r, h') \<Rightarrow> RootServers e \<noteq> [] \<and> exchanges h' \<le> exchanges h + 30)"
  using WalkDelegation_extends [THEN extends_exchanges, of e zone h] WalkDelegation_None [of e zone h]
  by (cases "WalkDelegation e zone h") auto

text \<open>C15: a delegation the walk returns was read from one response of the server it names as
  parent, to a non-recursive NS question for this zone: from the answer of an authoritative
  response, or from a referral whose owner is the zone itself.\<close>

theorem walk_sound:
  assumes "WalkDelegation e zone h = Some (Inr d, h')"
  shows "delegation_of e h h' (dns_Fqdn e zone) d"
  using assms by (auto simp: WalkDelegation_def split: list.splits intro: WalkDelegation_loop_sound)

theorem walk_sound_witness:
  "\<exists>h'. delegation_of (static_env example_net) [] h' (dns_Fqdn (static_env example_net) ''z'')
     \<lparr>ParentServer = ''r'', NSRecords = [\<lparr>Hostname = ''n.z.'', NS_IP = ''7.0.0.1''\<rparr>],
      Glue = [\<lparr>Hostname = ''n.z.'', NS_IP = ''7.0.0.1''\<rparr>]\<rparr>"
proof -
  have "WalkDelegation (static_env example_net) ''z'' [] = Some (Inr
      \<lparr>ParentServer = ''r'', NSRecords = [\<lparr>Hostname = ''n.z.'', NS_IP = ''7.0.0.1''\<rparr>],
       Glue = [\<lparr>Hostname = ''n.z.'', NS_IP = ''7.0.0.1''\<rparr>]\<rparr>,
      [EvExchange 5000000000 (NonRecursive ''z.'' TypeNS) ''r''])"
    by code_simp
  from walk_sound [OF this] show ?thesis by blast
qed

text \<open>C16: resolving a hostname invents nothing: a successful result is the A addresses followed
  by the AAAA addresses, each family either empty or the whole answer of one response to a
  question for that name and type put during this call.\<close>

theorem resolve_sound:
  assumes "ResolveHostnames e hostname h = Some (Inr ips, h')"
  shows "\<exists>v4 v6. ips = v4 @ v6 \<and> family_answer e h h' (dns_Fqdn e hostname) TypeA v4 \<and>
     family_answer e h h' (dns_Fqdn e hostname) TypeAAAA v6"
  using assms by (rule ResolveHostnames_answers)

theorem resolve_sound_witness:
  "\<exists>h' v4 v6. [''7.0.0.1''] = v4 @ v6 \<and>
     family_answer (static_env example_net) [] h' (dns_Fqdn (static_env example_net) ''n.z'') TypeA v4 \<and>
     family_answer (static_env example_net) [] h' (dns_Fqdn (static_env example_net) ''n.z'') TypeAAAA v6"
proof -
  have "map_option fst (ResolveHostnames (static_env example_net) ''n.z'' []) = Some (Inr [''7.0.0.1''])"
    by code_simp
  then obtain h' where "ResolveHostnames (static_env example_net) ''n.z'' [] = Some (Inr [''7.0.0.1''], h')"
    by auto
  from resolve_sound [OF this] show ?thesis by blast
qed

text \<open>C33: the glueless-referral fallback cannot run away: when no response lists more than \<open>N\<close>
  NS records, resolving a hostname costs at most \<open>2 * resolve_bound N 3\<close> exchanges, the bound
  the referral budget of 3 and the depth of 10 give.\<close>

theorem resolve_bounded:
  assumes "ns_bounded N e" and "ResolveHostnames e hostname h = Some (r, h')"
  shows "exchanges h' \<le> exchanges h + 2 * resolve_bound N 3"
  by (rule extends_exchanges [OF ResolveHostnames_extends [OF assms]])

theorem resolve_bounded_witness:
  "\<exists>r h'. ResolveHostnames (static_env example_net) ''n.z'' [] = Some (r, h') \<and>
     exchanges h' \<le> exchanges [] + 2 * resolve_bound 1 3"
proof -
  have "ns_bounded 1 (static_env example_net)"
    by (auto simp: ns_bounded_def static_env_def example_net_def rsp_def ns_targets_def split: if_splits)
  moreover obtain r h' where "ResolveHostnames (static_env example_net) ''n.z'' [] = Some (r, h')"
    using ResolveHostnames_None [of "static_env example_net" "''n.z''" "[]"]
    by (auto simp: static_env_def)
  ultimately show ?thesis using resolve_bounded by blast
qed

text \<open>
  Hosts of NS records are matched with glue by their exact bytes, although DNS names compare
  case-insensitively (and \<open>canonName\<close> says it is used wherever NS hostnames are compared):
  glue whose owner differs in case only is not seen.
\<close>

lemma glue_match_is_case_sensitive:
  "NSRecords (extractDelegation ''p'' [RR_NS ''z.'' ''NS.z.''] [RR_A ''ns.z.'' [7, 0, 0, 1]] ''z.'') =
     [\<lparr>Hostname = ''NS.z.'', NS_IP = []\<rparr>]"
  by code_simp

end
