(* ===== verification/Ns_Hostname.thy ===== *)
theory Ns_Hostname
  imports Delegation
begin

text \<open>
  The hostname checks, \<^verbatim>\<open>prober/ns_hostname.go\<close>: the LDH syntax of a host name, whether a
  name is a CNAME (an iterative walk), and the prober that runs both for every nameserver,
  with one CNAME walk per distinct name.
\<close>

section \<open>Host name syntax\<close>

definition is_ldh :: "char \<Rightarrow> bool" where
  "is_ldh c \<longleftrightarrow> ((97::nat) \<le> of_char c \<and> of_char c \<le> (122::nat)) \<or>
     ((65::nat) \<le> of_char c \<and> of_char c \<le> (90::nat)) \<or>
     ((48::nat) \<le> of_char c \<and> of_char c \<le> (57::nat)) \<or> c = CHR ''-''"

definition isValidHostnameLabel :: "string \<Rightarrow> bool" where
  "isValidHostnameLabel label =
     (if length label = 0 \<or> length label > 63 then False
      else if hd label = CHR ''-'' \<or> last label = CHR ''-'' then False
      else list_all is_ldh label)"

definition isValidNSHostname :: "string \<Rightarrow> bool" where
  "isValidNSHostname name0 =
     (let name = TrimSuffixDot name0 in
      if name = [] \<or> length name > 253 then False
      else list_all isValidHostnameLabel (Split name CHR ''.''))"

section \<open>The CNAME walk\<close>

definition is_CNAME :: "rr \<Rightarrow> bool" where
  "is_CNAME rr = (case rr of RR_CNAME _ _ \<Rightarrow> True | _ \<Rightarrow> False)"

fun lookupCNAME_loop ::
  "penv \<Rightarrow> string \<Rightarrow> nat \<Rightarrow> string \<Rightarrow> history \<Rightarrow> (goerror + bool) \<times> history" where
  "lookupCNAME_loop e hostname 0 server h =
     (Inl (PlainError (''CNAME lookup exceeded max depth for '' @ hostname)), h)"
| "lookupCNAME_loop e hostname (Suc left) server h =
     (case ExchangeContext e (client_Timeout e) (NonRecursive hostname TypeCNAME) server h of
        (Inl err, h1) \<Rightarrow> (Inl (Wrapped (''querying '' @ server @ '' for CNAME '' @ hostname) err), h1)
      | (Inr resp, h1) \<Rightarrow>
          if list_ex is_CNAME (rsp_Answer resp) then (Inr True, h1)
          else (let next = glued_server e (referral_glue (rsp_Extra resp)) (ns_targets (rsp_Ns resp)) in
            if next = [] then (Inr False, h1) else lookupCNAME_loop e hostname left next h1))"

definition lookupCNAME :: "penv \<Rightarrow> string \<Rightarrow> history \<Rightarrow> ((goerror + bool) \<times> history) option" where
  "lookupCNAME e hostname h =
     (case RootServers e of
        [] \<Rightarrow> None
      | server # _ \<Rightarrow> Some (lookupCNAME_loop e (dns_Fqdn e hostname) 10 server h))"

text \<open>A failed walk counts as "not a CNAME".\<close>

definition name_is_cname :: "penv \<Rightarrow> string \<Rightarrow> history \<Rightarrow> (bool \<times> history) option" where
  "name_is_cname e name h =
     (case lookupCNAME e name h of
        None \<Rightarrow> None
      | Some (Inl _, h1) \<Rightarrow> Some (False, h1)
      | Some (Inr flag, h1) \<Rightarrow> Some (flag, h1))"

section \<open>The prober\<close>

record cnameResult =
  cr_isCNAME :: bool
  cr_duration :: int

definition hostKey :: "penv \<Rightarrow> string \<Rightarrow> string" where
  "hostKey e name = ToLower (dns_Fqdn e name)"

definition cname_lookup_timed :: "penv \<Rightarrow> string \<Rightarrow> history \<Rightarrow> (cnameResult \<times> history) option" where
  "cname_lookup_timed e name h =
     (case timeNow e h of
        (start, h1) \<Rightarrow>
          (case name_is_cname e name h1 of
             None \<Rightarrow> None
           | Some (flag, h2) \<Rightarrow>
               (case timeNow e h2 of
                  (stop, h3) \<Rightarrow> Some (\<lparr>cr_isCNAME = flag, cr_duration = stop - start\<rparr>, h3))))"

definition probeOneNSHostname ::
  "penv \<Rightarrow> string \<Rightarrow> nameserver \<Rightarrow> (string \<rightharpoonup> cnameResult) \<Rightarrow> history \<Rightarrow>
   (ProbeResult \<times> (string \<rightharpoonup> cnameResult) \<times> history) option" where
  "probeOneNSHostname e zone ns cnameCache h =
     (let key = hostKey e (Hostname ns) in
      case (case cnameCache key of
              Some cached \<Rightarrow> Some (cached, cnameCache, h)
            | None \<Rightarrow>
                (case cname_lookup_timed e (Hostname ns) h of
                   None \<Rightarrow> None
                 | Some (cached, h1) \<Rightarrow> Some (cached, cnameCache(key \<mapsto> cached), h1))) of
        None \<Rightarrow> None
      | Some (cached, cnameCache', h') \<Rightarrow>
          Some ((zeroResult zone ''ns_hostname'')
                  \<lparr>Nameserver := Hostname ns, IP := NS_IP ns, Success := True,
                   Duration := cr_duration cached,
                   Metrics := [(''ns_hostname_syntax_valid'', boolToFloat (isValidNSHostname (Hostname ns))),
                               (''ns_hostname_is_cname'', boolToFloat (cr_isCNAME cached))]\<rparr>,
                cnameCache', h'))"

fun ProbeNSHostname_loop ::
  "penv \<Rightarrow> string \<Rightarrow> nameserver list \<Rightarrow> (string \<rightharpoonup> cnameResult) \<Rightarrow> history \<Rightarrow>
   (ProbeResult list \<times> (string \<rightharpoonup> cnameResult) \<times> history) option" where
  "ProbeNSHostname_loop e zone [] cnameCache h = Some ([], cnameCache, h)"
| "ProbeNSHostname_loop e zone (ns # nss) cnameCache h =
     (case probeOneNSHostname e zone ns cnameCache h of
        None \<Rightarrow> None
      | Some (result, cnameCache1, h1) \<Rightarrow>
          (case ProbeNSHostname_loop e zone nss cnameCache1 h1 of
             None \<Rightarrow> None
           | Some (results, cnameCache2, h2) \<Rightarrow> Some (result # results, cnameCache2, h2)))"

definition ProbeNSHostname :: probe_fn where
  "ProbeNSHostname e zone nameservers delegation h =
     map_option (\<lambda>(results, _, h'). (Inr results, h'))
       (ProbeNSHostname_loop e zone nameservers Map.empty h)"

section \<open>The walk is bounded\<close>

lemma lookupCNAME_loop_extends:
  "lookupCNAME_loop e hostname left server h = (r, h') \<Longrightarrow> extends left h h'"
proof (induction e hostname left server h arbitrary: r h' rule: lookupCNAME_loop.induct)
  case (2 e hostname left server h)
  obtain x h1 where x: "ExchangeContext e (client_Timeout e) (NonRecursive hostname TypeCNAME) server h = (x, h1)"
    by fastforce
  then have "extends left h1 h'"
    using "2.prems" "2.IH" by (auto simp: Let_def split: sum.splits if_splits)
  with x show ?case by (rule exchange_then)
qed auto

lemma name_is_cname_extends:
  assumes "name_is_cname e name h = Some (flag, h')"
  shows "extends 10 h h'"
  using assms
  by (auto simp: name_is_cname_def lookupCNAME_def dest: lookupCNAME_loop_extends
      split: list.splits option.splits prod.splits sum.splits)

lemma name_is_cname_None: "name_is_cname e name h = None \<longleftrightarrow> RootServers e = []"
  by (auto simp: name_is_cname_def lookupCNAME_def split: list.splits option.splits prod.splits sum.splits)

lemma cname_lookup_timed_extends:
  assumes "cname_lookup_timed e name h = Some (c, h')"
  shows "extends 10 h h'"
proof -
  obtain h1 flag h2 where "timeNow e h = (clock e h, h1)" "name_is_cname e name h1 = Some (flag, h2)"
      "timeNow e h2 = (clock e h2, h')"
    using assms by (auto simp: cname_lookup_timed_def timeNow_def split: option.splits prod.splits)
  then show ?thesis
    using timeNow_extends name_is_cname_extends extends_trans by (metis add.commute add_0)
qed

lemma cname_lookup_timed_None: "cname_lookup_timed e name h = None \<longleftrightarrow> RootServers e = []"
  by (auto simp: cname_lookup_timed_def split: option.splits prod.splits)
    (use name_is_cname_None in \<open>metis option.distinct(1)\<close>)+

section \<open>One walk per distinct name\<close>

definition hostname_result :: "string \<Rightarrow> nameserver \<Rightarrow> cnameResult \<Rightarrow> ProbeResult" where
  "hostname_result zone ns c = \<lparr>Zone = zone, Check = ''ns_hostname'', Nameserver = Hostname ns,
     IP = NS_IP ns, Success = True, TimedOut = False, Duration = cr_duration c,
     Metrics = [(''ns_hostname_syntax_valid'', boolToFloat (isValidNSHostname (Hostname ns))),
                (''ns_hostname_is_cname'', boolToFloat (cr_isCNAME c))], Labels = []\<rparr>"

abbreviation ns_key :: "penv \<Rightarrow> nameserver \<Rightarrow> string" where
  "ns_key e ns \<equiv> hostKey e (Hostname ns)"

lemma probeOneNSHostname_step:
  assumes "probeOneNSHostname e zone ns cache h = Some (r, cache', h')"
  shows "cache \<subseteq>\<^sub>m cache'" and "dom cache' = insert (ns_key e ns) (dom cache)"
    and "r = hostname_result zone ns (the (cache' (ns_key e ns)))"
    and "extends (if ns_key e ns \<in> dom cache then 0 else 10) h h'"
  using assms cname_lookup_timed_extends
  by (auto simp: probeOneNSHostname_def hostname_result_def zeroResult_def Let_def map_le_def
      split: option.splits)

lemma probeOneNSHostname_None: "probeOneNSHostname e zone ns cache h = None \<Longrightarrow> RootServers e = []"
  by (auto simp: probeOneNSHostname_def cname_lookup_timed_None Let_def split: option.splits)

lemma ProbeNSHostname_loop_None: "ProbeNSHostname_loop e zone nss cache h = None \<Longrightarrow> RootServers e = []"
  by (induction e zone nss cache h rule: ProbeNSHostname_loop.induct)
    (auto dest: probeOneNSHostname_None split: option.splits)

lemma ProbeNSHostname_loop_spec:
  assumes "ProbeNSHostname_loop e zone nss cache h = Some (rs, cache', h')"
  shows "cache \<subseteq>\<^sub>m cache' \<and> dom cache' = dom cache \<union> ns_key e ` set nss \<and>
     rs = map (\<lambda>ns. hostname_result zone ns (the (cache' (ns_key e ns)))) nss \<and>
     extends (10 * card (ns_key e ` set nss - dom cache)) h h'"
  using assms
proof (induction e zone nss cache h arbitrary: rs cache' h' rule: ProbeNSHostname_loop.induct)
  case (2 e zone ns nss cache h)
  obtain r1 cache1 h1 rs1 where
    one: "probeOneNSHostname e zone ns cache h = Some (r1, cache1, h1)" and
    loop: "ProbeNSHostname_loop e zone nss cache1 h1 = Some (rs1, cache', h')" and rs: "rs = r1 # rs1"
    using "2.prems" by (auto split: option.splits)
  let ?K = "ns_key e ` set nss"
  note step = probeOneNSHostname_step [OF one]
  note IH = "2.IH" [OF one refl refl loop]
  have le: "cache1 \<subseteq>\<^sub>m cache'" and dom: "dom cache' = dom cache1 \<union> ?K" using IH by blast+
  have "cache' (ns_key e ns) = cache1 (ns_key e ns)"
    using le step(2) by (auto simp: map_le_def)
  then have "rs = map (\<lambda>ns. hostname_result zone ns (the (cache' (ns_key e ns)))) (ns # nss)"
    using IH step(3) rs by simp
  moreover have "extends (10 * card (insert (ns_key e ns) ?K - dom cache)) h h'"
  proof (rule extends_step [OF step(4)])
    show "extends (10 * card (?K - dom cache1)) h1 h'" using IH by blast
    show "(if ns_key e ns \<in> dom cache then 0 else 10) + 10 * card (?K - dom cache1) \<le>
        10 * card (insert (ns_key e ns) ?K - dom cache)"
      unfolding step(2) using card_new_key [of ?K "ns_key e ns" "dom cache" 10] by simp
  qed
  ultimately show ?case
    using map_le_trans [OF step(1) le] dom step(2) by auto
qed simp

lemma ProbeNSHostname_results:
  assumes "ProbeNSHostname e zone nss dlg h = Some (out, h')"
  obtains c where "out = Inr (map (\<lambda>ns. hostname_result zone ns (c (ns_key e ns))) nss)"
    and "extends (10 * card (ns_key e ` set nss)) h h'"
proof -
  obtain rs cache' where loop: "ProbeNSHostname_loop e zone nss Map.empty h = Some (rs, cache', h')"
    and out: "out = Inr rs"
    using assms by (auto simp: ProbeNSHostname_def)
  from ProbeNSHostname_loop_spec [OF loop] out that [of "\<lambda>k. the (cache' k)"] show ?thesis by auto
qed

interpretation ns_hostname: prober "''ns_hostname''" ProbeNSHostname
proof
  fix e zone nss dlg h out h' assume run: "ProbeNSHostname e zone nss dlg h = Some (out, h')"
  show "\<exists>rs. out = Inr rs" by (rule ProbeNSHostname_results [OF run]) blast
  show "prefix h h'" by (rule ProbeNSHostname_results [OF run]) (rule extends_prefix)
next
  fix e zone nss dlg h rs h' r
  assume run: "ProbeNSHostname e zone nss dlg h = Some (Inr rs, h')" and r: "r \<in> set rs"
  show "Zone r = zone \<and> Check r = ''ns_hostname''"
    by (rule ProbeNSHostname_results [OF run]) (use r in \<open>auto simp: hostname_result_def\<close>)
next
  fix e zone nss dlg h assume "RootServers (e :: penv) \<noteq> []"
  then show "ProbeNSHostname e zone nss dlg h \<noteq> None"
    using ProbeNSHostname_loop_None by (fastforce simp: ProbeNSHostname_def)
qed


section \<open>The syntax check against the grammar\<close>

text \<open>
  RFC 1123, section 2.1: a label is a letter or digit, or starts and ends with one and has
  letters, digits and hyphens between.
\<close>

definition let_dig :: "char \<Rightarrow> bool" where
  "let_dig c \<longleftrightarrow> (of_char c :: nat) \<in> {48..57} \<union> {65..90} \<union> {97..122}"

inductive ldh_label :: "string \<Rightarrow> bool" where
  single: "let_dig c \<Longrightarrow> ldh_label [c]"
| longer: "let_dig a \<Longrightarrow> list_all (\<lambda>c. let_dig c \<or> c = CHR ''-'') mid \<Longrightarrow> let_dig b \<Longrightarrow>
    ldh_label (a # mid @ [b])"

lemma is_ldh_iff: "is_ldh c \<longleftrightarrow> let_dig c \<or> c = CHR ''-''"
  by (auto simp: is_ldh_def let_dig_def)

lemma hyphen_not_let_dig: "\<not> let_dig CHR ''-''"
  by (simp add: let_dig_def)

lemma ldh_label_iff:
  "ldh_label l \<longleftrightarrow> l \<noteq> [] \<and> hd l \<noteq> CHR ''-'' \<and> last l \<noteq> CHR ''-'' \<and> list_all is_ldh l"
proof
  assume "ldh_label l"
  then show "l \<noteq> [] \<and> hd l \<noteq> CHR ''-'' \<and> last l \<noteq> CHR ''-'' \<and> list_all is_ldh l"
    using hyphen_not_let_dig by cases (auto simp: is_ldh_iff list_all_iff)
next
  assume l: "l \<noteq> [] \<and> hd l \<noteq> CHR ''-'' \<and> last l \<noteq> CHR ''-'' \<and> list_all is_ldh l"
  then obtain a t where at: "l = a # t" by (cases l) auto
  show "ldh_label l"
  proof (cases t rule: rev_cases)
    case Nil
    with l at show ?thesis by (auto simp: is_ldh_iff intro: ldh_label.single)
  next
    case (snoc mid b)
    with l at show ?thesis
      by (auto simp: is_ldh_iff list_all_iff intro!: ldh_label.longer)
  qed
qed

lemma isValidHostnameLabel_iff: "isValidHostnameLabel l \<longleftrightarrow> ldh_label l \<and> length l \<le> 63"
  by (auto simp: isValidHostnameLabel_def ldh_label_iff)

lemma ldh_label_no_dot: "ldh_label l \<Longrightarrow> CHR ''.'' \<notin> set l"
  by (auto simp: ldh_label_iff list_all_iff is_ldh_def)

text \<open>C25: the syntax check decides the grammar: a name is accepted exactly when, less one
  trailing dot, it is at most 253 bytes long and a dot-separated non-empty sequence of labels of
  at most 63 bytes in the LDH form of RFC 1123.\<close>

theorem hostname_syntax_decides_grammar:
  "isValidNSHostname name \<longleftrightarrow>
     (\<exists>labels. labels \<noteq> [] \<and> TrimSuffixDot name = Join labels ''.'' \<and> length (TrimSuffixDot name) \<le> 253 \<and>
        set labels \<subseteq> {l. ldh_label l \<and> length l \<le> 63})"
proof
  assume "isValidNSHostname name"
  then show "\<exists>labels. labels \<noteq> [] \<and> TrimSuffixDot name = Join labels ''.'' \<and>
      length (TrimSuffixDot name) \<le> 253 \<and> set labels \<subseteq> {l. ldh_label l \<and> length l \<le> 63}"
    by (intro exI [of _ "Split (TrimSuffixDot name) CHR ''.''"])
      (auto simp: isValidNSHostname_def Let_def Split_Join isValidHostnameLabel_iff list_all_iff
        split: if_splits)
next
  assume "\<exists>labels. labels \<noteq> [] \<and> TrimSuffixDot name = Join labels ''.'' \<and>
      length (TrimSuffixDot name) \<le> 253 \<and> set labels \<subseteq> {l. ldh_label l \<and> length l \<le> 63}"
  then obtain labels where ls: "labels \<noteq> []" "TrimSuffixDot name = Join labels ''.''"
      "length (TrimSuffixDot name) \<le> 253" and ok: "set labels \<subseteq> {l. ldh_label l \<and> length l \<le> 63}"
    by blast
  have "Split (TrimSuffixDot name) CHR ''.'' = labels"
    unfolding ls(2) by (rule Split_of_Join [OF ls(1)]) (use ok ldh_label_no_dot in blast)
  moreover have "TrimSuffixDot name \<noteq> []"
  proof
    assume "TrimSuffixDot name = []"
    then have "labels = [[]]" using \<open>Split (TrimSuffixDot name) CHR ''.'' = labels\<close> by (simp add: Split_def)
    with ok show False by (auto simp: ldh_label_iff)
  qed
  ultimately show "isValidNSHostname name"
    using ls(3) ok by (auto simp: isValidNSHostname_def Let_def isValidHostnameLabel_iff list_all_iff)
qed

text \<open>C34: one result per nameserver, in order, with its host name and address; the CNAME verdict
  and the duration depend on the canonical name only, and each distinct name costs at most ten
  exchanges. A run fails only for lack of root servers.\<close>

theorem ns_hostname_per_name:
  "case ProbeNSHostname e zone nss dlg h of
     None \<Rightarrow> RootServers e = []
   | Some (out, h') \<Rightarrow>
       (\<exists>c. out = Inr (map (\<lambda>ns. hostname_result zone ns (c (hostKey e (Hostname ns)))) nss)) \<and>
       extends (10 * card ((\<lambda>ns. hostKey e (Hostname ns)) ` set nss)) h h'"
proof (cases "ProbeNSHostname e zone nss dlg h")
  case None
  then show ?thesis using ns_hostname.no_panic [of e zone nss dlg h] by auto
next
  case (Some y)
  then show ?thesis by (cases y) (auto elim: ProbeNSHostname_results)
qed

end
