(* ===== verification/Soa.thy ===== *)
theory Soa
  imports Ns_Hostname
begin

text \<open>
  The SOA prober (\<^verbatim>\<open>prober/soa.go\<close>) and the recursion prober (\<^verbatim>\<open>prober/recursion.go\<close>): one SOA
  question per nameserver.
\<close>

section \<open>SOA\<close>

fun first_SOA :: "rr list \<Rightarrow> soa_rdata option" where
  "first_SOA [] = None"
| "first_SOA (rr # rrs) = (case rr of RR_SOA _ soa \<Rightarrow> Some soa | _ \<Rightarrow> first_SOA rrs)"

definition soa_metrics :: "soa_rdata \<Rightarrow> bool \<Rightarrow> bool \<Rightarrow> (string \<times> int) list" where
  "soa_metrics soa inNSSet resolves =
     [(''soa_serial'', uint (soa_Serial soa)),
      (''soa_refresh_seconds'', uint (soa_Refresh soa)),
      (''soa_retry_seconds'', uint (soa_Retry soa)),
      (''soa_expire_seconds'', uint (soa_Expire soa)),
      (''soa_minimum_seconds'', uint (soa_Minttl soa)),
      (''soa_mname'', 1),
      (''soa_mname_in_ns_set'', boolToFloat inNSSet),
      (''soa_mname_resolves'', boolToFloat resolves)]"

definition probeSOAForNS ::
  "penv \<Rightarrow> string \<Rightarrow> nameserver \<Rightarrow> string list \<Rightarrow> (string \<rightharpoonup> bool) \<Rightarrow> history \<Rightarrow>
   (ProbeResult \<times> (string \<rightharpoonup> bool) \<times> history) option" where
  "probeSOAForNS e zone ns nsSet mnameResolves h =
     (let (start, h1) = timeNow e h;
          (r, h2) = ExchangeWithRetry e (SetQuestion (dns_Fqdn e zone) TypeSOA)
                      (ResolveAddress e (NS_IP ns)) h1;
          (stop, h3) = timeNow e h2;
          result = (zeroResult zone ''soa'')
            \<lparr>Nameserver := Hostname ns, IP := NS_IP ns, Duration := stop - start\<rparr> in
      case r of
        Inl err \<Rightarrow> Some (result\<lparr>TimedOut := IsTimeout (Some err)\<rparr>, mnameResolves, h3)
      | Inr resp \<Rightarrow>
          (case first_SOA (rsp_Answer resp) of
             None \<Rightarrow> Some (result, mnameResolves, h3)
           | Some soa \<Rightarrow>
               (let mname = dns_Fqdn e (soa_Ns soa); mnameKey = ToLower mname in
                case cached_check mnameResolves mnameKey (hostname_resolves e mname) h3 of
                  None \<Rightarrow> None
                | Some (resolves, mnameResolves', h4) \<Rightarrow>
                    Some (result\<lparr>Success := True, Labels := [(''mname'', mname)],
                            Metrics := soa_metrics soa (mnameKey \<in> set nsSet) resolves\<rparr>,
                          mnameResolves', h4))))"

fun ProbeSOA_loop ::
  "penv \<Rightarrow> string \<Rightarrow> string list \<Rightarrow> nameserver list \<Rightarrow> (string \<rightharpoonup> bool) \<Rightarrow> history \<Rightarrow>
   (ProbeResult list \<times> history) option" where
  "ProbeSOA_loop e zone nsSet [] cache h = Some ([], h)"
| "ProbeSOA_loop e zone nsSet (ns # nss) cache h =
     (case probeSOAForNS e zone ns nsSet cache h of
        None \<Rightarrow> None
      | Some (result, cache1, h1) \<Rightarrow>
          (case ProbeSOA_loop e zone nsSet nss cache1 h1 of
             None \<Rightarrow> None
           | Some (results, h2) \<Rightarrow> Some (result # results, h2)))"

definition ProbeSOA :: probe_fn where
  "ProbeSOA e zone nameservers delegation h =
     map_option (\<lambda>(results, h'). (Inr results, h'))
       (ProbeSOA_loop e zone (map (\<lambda>ns. hostKey e (Hostname ns)) (NSRecords delegation))
          nameservers Map.empty h)"

section \<open>Recursion\<close>

definition probeRecursionForNS ::
  "penv \<Rightarrow> string \<Rightarrow> nameserver \<Rightarrow> history \<Rightarrow> ProbeResult \<times> history" where
  "probeRecursionForNS e zone ns h =
     (let (start, h1) = timeNow e h;
          (r, h2) = ExchangeWithRetry e (SetQuestion (dns_Fqdn e zone) TypeSOA)
                      (ResolveAddress e (NS_IP ns)) h1;
          (stop, h3) = timeNow e h2;
          result = (zeroResult zone ''recursion'')
            \<lparr>Nameserver := Hostname ns, IP := NS_IP ns, Duration := stop - start\<rparr> in
      case r of
        Inl err \<Rightarrow> (result\<lparr>TimedOut := IsTimeout (Some err)\<rparr>, h3)
      | Inr resp \<Rightarrow>
          (result\<lparr>Success := True,
             Metrics := [(''ns_recursion_available'', boolToFloat (rsp_RecursionAvailable resp))]\<rparr>, h3))"

fun ProbeRecursion_loop ::
  "penv \<Rightarrow> string \<Rightarrow> nameserver list \<Rightarrow> history \<Rightarrow> ProbeResult list \<times> history" where
  "ProbeRecursion_loop e zone [] h = ([], h)"
| "ProbeRecursion_loop e zone (ns # nss) h =
     (let (result, h1) = probeRecursionForNS e zone ns h;
          (results, h2) = ProbeRecursion_loop e zone nss h1 in
      (result # results, h2))"

definition ProbeRecursion :: probe_fn where
  "ProbeRecursion e zone nameservers delegation h =
     (let (results, h') = ProbeRecursion_loop e zone nameservers h in Some (Inr results, h'))"

section \<open>What the SOA prober reports\<close>

text \<open>The result for the outcome \<open>x\<close> of the SOA exchange, given the verdict on each MNAME.\<close>

definition soa_result ::
  "penv \<Rightarrow> string \<Rightarrow> nameserver \<Rightarrow> string list \<Rightarrow> (string \<Rightarrow> bool) \<Rightarrow> int \<Rightarrow> goerror + response \<Rightarrow> ProbeResult" where
  "soa_result e zone ns nsSet verdict dur x =
     (let failed = \<lparr>Zone = zone, Check = ''soa'', Nameserver = Hostname ns, IP = NS_IP ns, Success = False,
            TimedOut = False, Duration = dur, Metrics = [], Labels = []\<rparr> in
      case x of
        Inl err \<Rightarrow> failed\<lparr>TimedOut := IsTimeout (Some err)\<rparr>
      | Inr resp \<Rightarrow>
          (case first_SOA (rsp_Answer resp) of
             None \<Rightarrow> failed
           | Some soa \<Rightarrow> (let mname = dns_Fqdn e (soa_Ns soa) in
               failed\<lparr>Success := True, Labels := [(''mname'', mname)],
                 Metrics := soa_metrics soa (ToLower mname \<in> set nsSet) (verdict (ToLower mname))\<rparr>)))"

text \<open>The verdict the result needs is in the cache.\<close>

definition mname_known :: "penv \<Rightarrow> (string \<rightharpoonup> bool) \<Rightarrow> goerror + response \<Rightarrow> bool" where
  "mname_known e cache x = (case x of
     Inl _ \<Rightarrow> True
   | Inr resp \<Rightarrow> (case first_SOA (rsp_Answer resp) of
       None \<Rightarrow> True | Some soa \<Rightarrow> ToLower (dns_Fqdn e (soa_Ns soa)) \<in> dom cache))"

definition soa_reported ::
  "penv \<Rightarrow> string \<Rightarrow> string list \<Rightarrow> (string \<rightharpoonup> bool) \<Rightarrow> history \<Rightarrow> history \<Rightarrow> nameserver \<Rightarrow> ProbeResult \<Rightarrow> bool" where
  "soa_reported e zone nsSet cache h h' ns r \<longleftrightarrow> (\<exists>h1 x h2 dur.
     ExchangeWithRetry e (SetQuestion (dns_Fqdn e zone) TypeSOA) (ResolveAddress e (NS_IP ns)) h1 = (x, h2) \<and>
     prefix h h1 \<and> prefix h2 h' \<and> r = soa_result e zone ns nsSet (\<lambda>k. cache k = Some True) dur x \<and>
     mname_known e cache x)"

lemma soa_reported_after:
  assumes "soa_reported e zone nsSet c h1 h2 ns r" and "prefix h h1" "prefix h2 h'" "c \<subseteq>\<^sub>m c'"
  shows "soa_reported e zone nsSet c' h h' ns r"
proof -
  from assms(1) obtain k x k' dur where
    ex: "ExchangeWithRetry e (SetQuestion (dns_Fqdn e zone) TypeSOA) (ResolveAddress e (NS_IP ns)) k = (x, k')"
    "prefix h1 k" "prefix k' h2" and r: "r = soa_result e zone ns nsSet (\<lambda>k. c k = Some True) dur x"
    and key: "mname_known e c x"
    by (auto simp: soa_reported_def)
  have le: "k \<in> dom c \<Longrightarrow> c' k = c k" for k using assms(4) by (auto simp: map_le_def)
  have "r = soa_result e zone ns nsSet (\<lambda>k. c' k = Some True) dur x"
    using key le unfolding r soa_result_def mname_known_def
    by (auto simp: Let_def split: sum.splits option.splits)
  moreover have "mname_known e c' x"
    using key map_le_implies_dom_le [OF assms(4)]
    by (auto simp: mname_known_def split: sum.splits option.splits)
  ultimately show ?thesis
    using ex prefix_order.trans [OF assms(2) ex(2)] prefix_order.trans [OF ex(3) assms(3)]
    unfolding soa_reported_def by blast
qed

lemma probeSOAForNS_None: "probeSOAForNS e zone ns nsSet c h = None \<Longrightarrow> RootServers e = []"
  by (auto simp: probeSOAForNS_def Let_def dest: cached_check_None split: prod.splits sum.splits option.splits)

lemma probeSOAForNS_step:
  assumes "probeSOAForNS e zone ns nsSet c h = Some (r, c', h')"
  shows "prefix h h'" and "c \<subseteq>\<^sub>m c'" and "soa_reported e zone nsSet c' h h' ns r"
    and "prefix h0 h \<Longrightarrow> resolved_verdicts e h0 h c \<Longrightarrow> resolved_verdicts e h0 h' c'"
proof -
  let ?msg = "SetQuestion (dns_Fqdn e zone) TypeSOA" and ?addr = "ResolveAddress e (NS_IP ns)"
  obtain h1 x h2 h3 where t: "timeNow e h = (clock e h, h1)" "ExchangeWithRetry e ?msg ?addr h1 = (x, h2)"
      "timeNow e h2 = (clock e h2, h3)"
    by (auto simp: timeNow_def) fastforce
  have p: "prefix h h1" "prefix h1 h2" "prefix h2 h3"
    using t hist_grow by blast+
  have p3: "prefix h h3" using p by (meson prefix_order.trans)
  let ?key = "\<lambda>soa. ToLower (dns_Fqdn e (soa_Ns soa))"
  have steps: "prefix h h' \<and> c \<subseteq>\<^sub>m c' \<and> soa_reported e zone nsSet c' h h' ns r \<and>
      (prefix h0 h \<longrightarrow> resolved_verdicts e h0 h c \<longrightarrow> resolved_verdicts e h0 h' c')"
  proof (cases "\<exists>resp soa. x = Inr resp \<and> first_SOA (rsp_Answer resp) = Some soa")
    case False
    then have "c' = c" "h' = h3" "r = soa_result e zone ns nsSet (\<lambda>k. c k = Some True) (clock e h2 - clock e h) x"
      using assms t by (auto simp: probeSOAForNS_def soa_result_def zeroResult_def Let_def
          split: sum.splits option.splits)
    moreover have "mname_known e c x"
      using False by (auto simp: mname_known_def split: sum.splits option.splits)
    ultimately have "soa_reported e zone nsSet c' h h' ns r"
      unfolding soa_reported_def using t(2) p by blast
    then show ?thesis
      using p3 \<open>c' = c\<close> \<open>h' = h3\<close> resolved_verdicts_after [OF _ p3] by auto
  next
    case True
    then obtain resp soa where x: "x = Inr resp" and soa: "first_SOA (rsp_Answer resp) = Some soa" by blast
    then obtain v where cc: "cached_check c (?key soa) (hostname_resolves e (dns_Fqdn e (soa_Ns soa))) h3 = Some (v, c', h')"
      and r: "r = soa_result e zone ns nsSet (\<lambda>k. v) (clock e h2 - clock e h) x"
      using assms t by (auto simp: probeSOAForNS_def soa_result_def zeroResult_def Let_def
          split: option.splits)
    note cv = cached_check_verdict [OF cc]
    have "r = soa_result e zone ns nsSet (\<lambda>k. c' k = Some True) (clock e h2 - clock e h) x"
      using cv(2) x soa unfolding r soa_result_def by (simp add: Let_def)
    moreover have p4: "prefix h3 h'" using cc by (rule cached_check_prefix)
    moreover have "mname_known e c' x"
      using x soa cv(2) by (auto simp: mname_known_def)
    ultimately have "soa_reported e zone nsSet c' h h' ns r"
      unfolding soa_reported_def using t(2) p(1) prefix_order.trans [OF p(3) p4] by blast
    moreover have "prefix h0 h \<longrightarrow> resolved_verdicts e h0 h c \<longrightarrow> resolved_verdicts e h0 h' c'"
      using cv(3) [of h0] resolved_verdicts_after [OF _ p3] prefix_order.trans [OF _ p3] by blast
    ultimately show ?thesis using cv(1) prefix_order.trans [OF p3 p4] by blast
  qed
  then show "prefix h h'" and "c \<subseteq>\<^sub>m c'" and "soa_reported e zone nsSet c' h h' ns r"
    and "prefix h0 h \<Longrightarrow> resolved_verdicts e h0 h c \<Longrightarrow> resolved_verdicts e h0 h' c'"
    by auto
qed

lemma ProbeSOA_loop_None: "ProbeSOA_loop e zone nsSet nss c h = None \<Longrightarrow> RootServers e = []"
  by (induction e zone nsSet nss c h rule: ProbeSOA_loop.induct)
    (auto dest: probeSOAForNS_None split: option.splits)

lemma ProbeSOA_loop_spec:
  assumes "ProbeSOA_loop e zone nsSet nss c h = Some (rs, h')"
  shows "prefix h h' \<and> (\<exists>c'. c \<subseteq>\<^sub>m c' \<and> list_all2 (soa_reported e zone nsSet c' h h') nss rs \<and>
    (\<forall>h0. prefix h0 h \<longrightarrow> resolved_verdicts e h0 h c \<longrightarrow> resolved_verdicts e h0 h' c'))"
  using assms
proof (induction e zone nsSet nss c h arbitrary: rs h' rule: ProbeSOA_loop.induct)
  case (2 e zone nsSet ns nss c h)
  obtain r1 c1 h1 rs1 where
    one: "probeSOAForNS e zone ns nsSet c h = Some (r1, c1, h1)" and
    loop: "ProbeSOA_loop e zone nsSet nss c1 h1 = Some (rs1, h')" and rs: "rs = r1 # rs1"
    using "2.prems" by (auto split: option.splits)
  note step = probeSOAForNS_step [OF one]
  from "2.IH" [OF one refl refl loop] obtain c' where p: "prefix h1 h'" and c': "c1 \<subseteq>\<^sub>m c'"
    and all: "list_all2 (soa_reported e zone nsSet c' h1 h') nss rs1"
    and ver: "\<And>h0. prefix h0 h1 \<Longrightarrow> resolved_verdicts e h0 h1 c1 \<Longrightarrow> resolved_verdicts e h0 h' c'"
    by blast
  have "list_all2 (soa_reported e zone nsSet c' h h') nss rs1"
    by (rule list_all2_mono [OF all]) (rule soa_reported_after, use step(1) in auto)
  moreover have "soa_reported e zone nsSet c' h h' ns r1"
    by (rule soa_reported_after [OF step(3)]) (use p c' in auto)
  moreover have "resolved_verdicts e h0 h' c'" if "prefix h0 h" "resolved_verdicts e h0 h c" for h0
    using step(4) [OF that] ver [OF prefix_order.trans [OF that(1) step(1)]] by blast
  ultimately show ?case
    using rs map_le_trans [OF step(2) c'] prefix_order.trans [OF step(1) p] by auto
qed (auto intro: map_le_refl)

lemma ProbeSOA_reports:
  assumes "ProbeSOA e zone nss dlg h = Some (out, h')"
  obtains rs c where "out = Inr rs" and "prefix h h'" and "resolved_verdicts e h h' c"
    and "list_all2 (soa_reported e zone (map (\<lambda>ns. hostKey e (Hostname ns)) (NSRecords dlg)) c h h') nss rs"
proof -
  obtain rs where "ProbeSOA_loop e zone (map (\<lambda>ns. hostKey e (Hostname ns)) (NSRecords dlg)) nss Map.empty h =
      Some (rs, h')" "out = Inr rs"
    using assms by (auto simp: ProbeSOA_def)
  with ProbeSOA_loop_spec [OF this(1)] that show ?thesis by auto
qed

lemma soa_result_labels [simp]:
  "Zone (soa_result e zone ns nsSet v dur x) = zone" "Check (soa_result e zone ns nsSet v dur x) = ''soa''"
  by (auto simp: soa_result_def Let_def split: sum.split option.split)

lemma soa_reported_labels: "soa_reported e zone nsSet c h h' ns r \<Longrightarrow> Zone r = zone \<and> Check r = ''soa''"
  by (auto simp: soa_reported_def)

interpretation soa: prober "''soa''" ProbeSOA
proof
  fix e zone nss dlg h out h' assume run: "ProbeSOA e zone nss dlg h = Some (out, h')"
  show "\<exists>rs. out = Inr rs" by (rule ProbeSOA_reports [OF run]) blast
  show "prefix h h'" by (rule ProbeSOA_reports [OF run])
next
  fix e zone nss dlg h rs h' r
  assume run: "ProbeSOA e zone nss dlg h = Some (Inr rs, h')" and r: "r \<in> set rs"
  show "Zone r = zone \<and> Check r = ''soa''"
    by (rule ProbeSOA_reports [OF run])
      (use r soa_reported_labels in \<open>fastforce simp: list_all2_conv_all_nth in_set_conv_nth\<close>)
next
  fix e zone nss dlg h assume "RootServers (e :: penv) \<noteq> []"
  then show "ProbeSOA e zone nss dlg h \<noteq> None"
    using ProbeSOA_loop_None by (fastforce simp: ProbeSOA_def)
qed

section \<open>What the recursion prober reports\<close>

definition recursion_result :: "string \<Rightarrow> nameserver \<Rightarrow> int \<Rightarrow> goerror + response \<Rightarrow> ProbeResult" where
  "recursion_result zone ns dur x =
     (let failed = \<lparr>Zone = zone, Check = ''recursion'', Nameserver = Hostname ns, IP = NS_IP ns,
            Success = False, TimedOut = False, Duration = dur, Metrics = [], Labels = []\<rparr> in
      case x of
        Inl err \<Rightarrow> failed\<lparr>TimedOut := IsTimeout (Some err)\<rparr>
      | Inr resp \<Rightarrow> failed\<lparr>Success := True,
          Metrics := [(''ns_recursion_available'', if rsp_RecursionAvailable resp then 1 else 0)]\<rparr>)"

definition recursion_reported ::
  "penv \<Rightarrow> string \<Rightarrow> history \<Rightarrow> history \<Rightarrow> nameserver \<Rightarrow> ProbeResult \<Rightarrow> bool" where
  "recursion_reported e zone h h' ns r \<longleftrightarrow> (\<exists>h1 x h2 dur.
     ExchangeWithRetry e (SetQuestion (dns_Fqdn e zone) TypeSOA) (ResolveAddress e (NS_IP ns)) h1 = (x, h2) \<and>
     prefix h h1 \<and> prefix h2 h' \<and> r = recursion_result zone ns dur x)"

lemma recursion_reported_after:
  "recursion_reported e zone h1 h2 ns r \<Longrightarrow> prefix h h1 \<Longrightarrow> prefix h2 h' \<Longrightarrow> recursion_reported e zone h h' ns r"
  unfolding recursion_reported_def using prefix_order.trans by metis

lemma probeRecursionForNS_step:
  assumes "probeRecursionForNS e zone ns h = (r, h')"
  shows "extends 2 h h'" and "recursion_reported e zone h h' ns r"
proof -
  obtain h1 x h2 where t: "timeNow e h = (clock e h, h1)"
      "ExchangeWithRetry e (SetQuestion (dns_Fqdn e zone) TypeSOA) (ResolveAddress e (NS_IP ns)) h1 = (x, h2)"
      "timeNow e h2 = (clock e h2, h')" "r = recursion_result zone ns (clock e h2 - clock e h) x"
    using assms by (auto simp: probeRecursionForNS_def recursion_result_def zeroResult_def boolToFloat_def
        timeNow_def Let_def split: prod.splits sum.splits)
  show "extends 2 h h'"
    using extends_step [OF timeNow_extends [OF t(1)] ExchangeWithRetry_extends [OF t(2)]]
      extends_step [OF _ timeNow_extends [OF t(3)]] by fastforce
  show "recursion_reported e zone h h' ns r"
    unfolding recursion_reported_def using t timeNow_prefix by blast
qed

lemma ProbeRecursion_loop_spec:
  assumes "ProbeRecursion_loop e zone nss h = (rs, h')"
  shows "extends (2 * length nss) h h' \<and> list_all2 (recursion_reported e zone h h') nss rs"
  using assms
proof (induction nss arbitrary: h rs)
  case (Cons ns nss)
  obtain r1 h1 rs1 where one: "probeRecursionForNS e zone ns h = (r1, h1)"
    and loop: "ProbeRecursion_loop e zone nss h1 = (rs1, h')" and rs: "rs = r1 # rs1"
    using Cons.prems by (auto split: prod.splits)
  note step = probeRecursionForNS_step [OF one] and IH = Cons.IH [OF loop]
  have "list_all2 (recursion_reported e zone h h') nss rs1"
    by (rule list_all2_mono [OF IH [THEN conjunct2]]) (rule recursion_reported_after, use extends_prefix step(1) in auto)
  with rs step IH show ?case
    by (auto intro: extends_step recursion_reported_after extends_prefix)
qed auto

lemma ProbeRecursion_reports:
  assumes "ProbeRecursion e zone nss dlg h = Some (out, h')"
  obtains rs where "out = Inr rs" and "extends (2 * length nss) h h'"
    and "list_all2 (recursion_reported e zone h h') nss rs"
  using assms ProbeRecursion_loop_spec by (auto simp: ProbeRecursion_def split: prod.splits)

lemma recursion_result_labels [simp]:
  "Zone (recursion_result zone ns dur x) = zone" "Check (recursion_result zone ns dur x) = ''recursion''"
  by (auto simp: recursion_result_def Let_def split: sum.split)

lemma recursion_reported_labels:
  "recursion_reported e zone h h' ns r \<Longrightarrow> Zone r = zone \<and> Check r = ''recursion''"
  by (auto simp: recursion_reported_def)

interpretation recursion: prober "''recursion''" ProbeRecursion
proof
  fix e zone nss dlg h out h' assume run: "ProbeRecursion e zone nss dlg h = Some (out, h')"
  show "\<exists>rs. out = Inr rs" by (rule ProbeRecursion_reports [OF run]) blast
  show "prefix h h'" by (rule ProbeRecursion_reports [OF run]) (rule extends_prefix)
next
  fix e zone nss dlg h rs h' r
  assume run: "ProbeRecursion e zone nss dlg h = Some (Inr rs, h')" and r: "r \<in> set rs"
  show "Zone r = zone \<and> Check r = ''recursion''"
    by (rule ProbeRecursion_reports [OF run])
      (use r recursion_reported_labels in \<open>fastforce simp: list_all2_conv_all_nth in_set_conv_nth\<close>)
qed (simp add: ProbeRecursion_def split: prod.splits)

section \<open>Properties\<close>

text \<open>C17: the SOA prober reports, for every nameserver in order, the outcome of a SOA exchange with
  that nameserver: success exactly with a SOA record, whose fields, MNAME membership in the parent's
  NS set and resolution verdict are the metrics. All verdicts come from one map, so two nameservers
  naming the same MNAME get the same one, and each was obtained by a resolution during the run.\<close>

theorem soa_reports_outcomes:
  "case ProbeSOA e zone nss dlg h of
     None \<Rightarrow> RootServers e = []
   | Some (out, h') \<Rightarrow>
       (\<exists>rs verdicts. out = Inr rs \<and> resolved_verdicts e h h' verdicts \<and>
          list_all2 (soa_reported e zone (map (\<lambda>ns. hostKey e (Hostname ns)) (NSRecords dlg)) verdicts h h') nss rs)"
proof (cases "ProbeSOA e zone nss dlg h")
  case None
  then show ?thesis using soa.no_panic [of e zone nss dlg h] by auto
next
  case (Some y)
  then show ?thesis by (cases y) (auto elim!: ProbeSOA_reports)
qed

text \<open>The recursion prober makes at most two exchanges per nameserver, never panics, and reports
  for each, in order, whether it answered and the RA bit of that answer.\<close>

lemma recursion_reports_outcomes:
  "\<exists>rs h'. ProbeRecursion e zone nss dlg h = Some (Inr rs, h') \<and> extends (2 * length nss) h h' \<and>
     list_all2 (recursion_reported e zone h h') nss rs"
proof -
  obtain out h' where run: "ProbeRecursion e zone nss dlg h = Some (out, h')"
    by (cases "ProbeRecursion_loop e zone nss h") (auto simp: ProbeRecursion_def)
  then show ?thesis by (auto elim: ProbeRecursion_reports)
qed

end
