(* ===== verification/Glue_Probe.thy ===== *)
theory Glue_Probe
  imports Delegation
begin

text \<open>
  The glue prober, \<^verbatim>\<open>prober/glue.go\<close>: the parent's NS records and glue as they are in the
  delegation, then what every nameserver says of itself. The map \<open>registered\<close> is the list of
  the keys stored so far; the prober emits a record per (metric, host name, address) once.
\<close>

section \<open>Asking a nameserver about itself\<close>

fun query_families ::
  "penv \<Rightarrow> string \<Rightarrow> string \<Rightarrow> qtype list \<Rightarrow> history \<Rightarrow> nameserver list \<times> history" where
  "query_families e addr ns [] h = ([], h)"
| "query_families e addr ns (qt # qts) h =
     (case ExchangeWithRetry e (SetQuestion ns qt) addr h of
        (Inl err, h1) \<Rightarrow> query_families e addr ns qts h1
      | (Inr aResp, h1) \<Rightarrow>
          (let (rest, h2) = query_families e addr ns qts h1 in
           (map (\<lambda>ip. \<lparr>Hostname = ns, NS_IP = ip\<rparr>) (family_addrs qt (rsp_Answer aResp)) @ rest, h2)))"

fun query_self_loop :: "penv \<Rightarrow> string \<Rightarrow> string list \<Rightarrow> history \<Rightarrow> nameserver list \<times> history" where
  "query_self_loop e addr [] h = ([], h)"
| "query_self_loop e addr (ns # nss) h =
     (let (records, h1) = query_families e addr ns [TypeA, TypeAAAA] h;
          (rest, h2) = query_self_loop e addr nss h1 in
      (records @ rest, h2))"

text \<open>Every address is appended to both result lists, so they are the same list.\<close>

definition querySelfForNSAndA ::
  "penv \<Rightarrow> string \<Rightarrow> nameserver \<Rightarrow> history \<Rightarrow>
   (goerror + nameserver list \<times> nameserver list) \<times> history" where
  "querySelfForNSAndA e zone ns h =
     (let addr = ResolveAddress e (NS_IP ns) in
      case ExchangeWithRetry e (SetQuestion (dns_Fqdn e zone) TypeNS) addr h of
        (Inl err, h1) \<Rightarrow> (Inl (Wrapped (''querying NS at '' @ NS_IP ns) err), h1)
      | (Inr resp, h1) \<Rightarrow>
          (let (records, h2) = query_self_loop e addr (ns_targets (rsp_Answer resp)) h1 in
           (Inr (records, records), h2)))"

section \<open>The prober\<close>

definition glue_result :: "string \<Rightarrow> string \<Rightarrow> string \<Rightarrow> nameserver \<Rightarrow> ProbeResult" where
  "glue_result zone source metric ns =
     (zeroResult zone ''glue'')\<lparr>Nameserver := Hostname ns, IP := NS_IP ns, Success := True,
        Metrics := [(metric, 1)], Labels := [(''source'', source)]\<rparr>"

definition self_key :: "string \<Rightarrow> nameserver \<Rightarrow> string" where
  "self_key metric ns = metric @ '':'' @ Hostname ns @ '':'' @ NS_IP ns @ '':self''"

fun register_self ::
  "string \<Rightarrow> string \<Rightarrow> nameserver list \<Rightarrow> string list \<Rightarrow> ProbeResult list \<times> string list" where
  "register_self zone metric [] registered = ([], registered)"
| "register_self zone metric (sn # sns) registered =
     (let key = self_key metric sn in
      if key \<in> set registered then register_self zone metric sns registered
      else (let (results, registered') = register_self zone metric sns (key # registered) in
            (glue_result zone ''self'' metric sn # results, registered')))"

fun ProbeGlue_loop ::
  "penv \<Rightarrow> string \<Rightarrow> nameserver list \<Rightarrow> string list \<Rightarrow> history \<Rightarrow> ProbeResult list \<times> history" where
  "ProbeGlue_loop e zone [] registered h = ([], h)"
| "ProbeGlue_loop e zone (ns # nss) registered h =
     (case querySelfForNSAndA e zone ns h of
        (Inl err, h1) \<Rightarrow>
          (let (results, h2) = ProbeGlue_loop e zone nss registered h1 in
           ((zeroResult zone ''glue'')\<lparr>Nameserver := Hostname ns, IP := NS_IP ns,
               TimedOut := IsTimeout (Some err)\<rparr> # results, h2))
      | (Inr (selfNS, selfGlue), h1) \<Rightarrow>
          (let (results1, registered1) = register_self zone ''ns_record'' selfNS registered;
               (results2, registered2) = register_self zone ''ns_glue'' selfGlue registered1;
               (results3, h2) = ProbeGlue_loop e zone nss registered2 h1 in
           (results1 @ results2 @ results3, h2)))"

definition ProbeGlue :: probe_fn where
  "ProbeGlue e zone nameservers delegation h =
     (let (self, h') = ProbeGlue_loop e zone nameservers [] h in
      Some (Inr (map (glue_result zone ''parent'' ''ns_record'') (NSRecords delegation) @
                 map (glue_result zone ''parent'' ''ns_glue'') (Glue delegation) @ self), h'))"

section \<open>What a nameserver says of itself\<close>

text \<open>
  \<open>n\<close> was reported by the server at \<open>addr\<close>: it listed the name among the zone's NS records
  and gave the address for it.
\<close>

definition self_reported ::
  "penv \<Rightarrow> string \<Rightarrow> history \<Rightarrow> history \<Rightarrow> string \<Rightarrow> nameserver \<Rightarrow> bool" where
  "self_reported e zone h h' addr n \<longleftrightarrow> (\<exists>resp.
     answered e h h' (SetQuestion (dns_Fqdn e zone) TypeNS) addr resp \<and>
     Hostname n \<in> set (ns_targets (rsp_Answer resp))) \<and>
   (\<exists>qt aResp. qt \<in> {TypeA, TypeAAAA} \<and> answered e h h' (SetQuestion (Hostname n) qt) addr aResp \<and>
     NS_IP n \<in> set (family_addrs qt (rsp_Answer aResp)))"

lemma self_reported_mono:
  assumes "self_reported e zone h1 h2 addr n" and "prefix h h1" and "prefix h2 h'"
  shows "self_reported e zone h h' addr n"
  using assms answered_before [OF assms(2)] answered_after [OF assms(3)]
  unfolding self_reported_def by metis

definition address_reported :: "penv \<Rightarrow> history \<Rightarrow> history \<Rightarrow> string \<Rightarrow> qtype set \<Rightarrow> nameserver \<Rightarrow> bool" where
  "address_reported e h h' addr qts n \<longleftrightarrow> (\<exists>qt aResp. qt \<in> qts \<and>
     answered e h h' (SetQuestion (Hostname n) qt) addr aResp \<and>
     NS_IP n \<in> set (family_addrs qt (rsp_Answer aResp)))"

lemma address_reported_mono:
  assumes "address_reported e h1 h2 addr Q n" and "prefix h h1" and "prefix h2 h'" and "Q \<subseteq> Q'"
  shows "address_reported e h h' addr Q' n"
  using assms answered_before [OF assms(2)] answered_after [OF assms(3)]
  unfolding address_reported_def by (metis subsetD)

lemma query_families_spec:
  assumes "query_families e addr ns qts h = (rs, h')"
  shows "prefix h h' \<and> Hostname ` set rs \<subseteq> {ns} \<and> set rs \<subseteq> Collect (address_reported e h h' addr (set qts))"
  using assms
proof (induction qts arbitrary: h rs)
  case (Cons qt qts)
  obtain x h1 where x: "ExchangeWithRetry e (SetQuestion ns qt) addr h = (x, h1)" by fastforce
  obtain rest where rest: "query_families e addr ns qts h1 = (rest, h')"
    using Cons.prems x by (auto split: sum.splits prod.splits)
  note p = ExchangeWithRetry_prefix [OF x] and IH = Cons.IH [OF rest]
  have "set rest \<subseteq> Collect (address_reported e h h' addr (set (qt # qts)))"
    using IH by (auto intro: address_reported_mono [OF _ p])
  moreover have "set (map (\<lambda>ip. \<lparr>Hostname = ns, NS_IP = ip\<rparr>) (family_addrs qt (rsp_Answer aResp))) \<subseteq>
      Collect (address_reported e h h' addr (set (qt # qts)))" if "x = Inr aResp" for aResp
    using answered_after [OF IH [THEN conjunct1] answered_retry [OF x [unfolded that]]]
    by (fastforce simp: address_reported_def)
  ultimately show ?case
    using Cons.prems x rest p IH prefix_order.trans [OF p, of h']
    by (cases x) (auto simp: subset_iff image_subset_iff)
qed auto

lemma query_self_loop_spec:
  assumes "query_self_loop e addr nss h = (rs, h')"
  shows "prefix h h' \<and> Hostname ` set rs \<subseteq> set nss \<and>
    set rs \<subseteq> Collect (address_reported e h h' addr {TypeA, TypeAAAA})"
  using assms
proof (induction nss arbitrary: h rs)
  case (Cons ns nss)
  obtain r1 h1 rest where one: "query_families e addr ns [TypeA, TypeAAAA] h = (r1, h1)"
    and rest: "query_self_loop e addr nss h1 = (rest, h')" and rs: "rs = r1 @ rest"
    using Cons.prems by (auto split: prod.splits simp del: query_families.simps)
  note O = query_families_spec [OF one] and IH = Cons.IH [OF rest]
  have "set r1 \<subseteq> Collect (address_reported e h h' addr {TypeA, TypeAAAA})"
    using O IH by (auto intro: address_reported_mono)
  moreover have "set rest \<subseteq> Collect (address_reported e h h' addr {TypeA, TypeAAAA})"
    using O IH by (auto intro: address_reported_mono)
  ultimately show ?case using O IH prefix_order.trans [of h h1 h'] unfolding rs by auto
qed auto

lemma querySelfForNSAndA_prefix [hist_grow]: "querySelfForNSAndA e zone ns h = (x, h') \<Longrightarrow> prefix h h'"
  by (auto simp: querySelfForNSAndA_def Let_def dest!: ExchangeWithRetry_prefix query_self_loop_spec
      split: prod.splits sum.splits intro: prefix_order.trans)

lemma querySelfForNSAndA_reported:
  assumes "querySelfForNSAndA e zone ns h = (Inr (recs, glue), h')"
  shows "glue = recs" and "set recs \<subseteq> Collect (self_reported e zone h h' (ResolveAddress e (NS_IP ns)))"
proof -
  obtain resp h1 where
    ns: "ExchangeWithRetry e (SetQuestion (dns_Fqdn e zone) TypeNS) (ResolveAddress e (NS_IP ns)) h = (Inr resp, h1)"
    and loop: "query_self_loop e (ResolveAddress e (NS_IP ns)) (ns_targets (rsp_Answer resp)) h1 = (recs, h')"
    and "glue = recs"
    using assms by (auto simp: querySelfForNSAndA_def Let_def split: prod.splits sum.splits)
  then show "glue = recs" by simp
  note L = query_self_loop_spec [OF loop]
  show "set recs \<subseteq> Collect (self_reported e zone h h' (ResolveAddress e (NS_IP ns)))"
  proof (intro subsetI CollectI)
    fix n assume n: "n \<in> set recs"
    have "address_reported e h h' (ResolveAddress e (NS_IP ns)) {TypeA, TypeAAAA} n"
      using L n ExchangeWithRetry_prefix [OF ns] by (auto intro: address_reported_mono)
    moreover have "answered e h h' (SetQuestion (dns_Fqdn e zone) TypeNS) (ResolveAddress e (NS_IP ns)) resp"
      using answered_after [OF L [THEN conjunct1] answered_retry [OF ns]] .
    ultimately show "self_reported e zone h h' (ResolveAddress e (NS_IP ns)) n"
      using L n unfolding self_reported_def address_reported_def by blast
  qed
qed

section \<open>The self records of a run\<close>

text \<open>What the nameservers of a list answer about themselves, asked in turn.\<close>

fun self_views ::
  "penv \<Rightarrow> string \<Rightarrow> nameserver list \<Rightarrow> history \<Rightarrow> (goerror + nameserver list) list \<times> history" where
  "self_views e zone [] h = ([], h)"
| "self_views e zone (ns # nss) h =
     (let (x, h1) = querySelfForNSAndA e zone ns h; (xs, h2) = self_views e zone nss h1 in
      (map_sum id fst x # xs, h2))"

definition reported :: "(goerror + nameserver list) list \<Rightarrow> nameserver set" where
  "reported views = {n. \<exists>ns. Inr ns \<in> set views \<and> n \<in> set ns}"

definition failed_queries :: "nameserver list \<Rightarrow> (goerror + nameserver list) list \<Rightarrow> (nameserver \<times> bool) list" where
  "failed_queries nss views =
     List.map_filter (\<lambda>(ns, x). case x of Inl err \<Rightarrow> Some (ns, IsTimeout (Some err)) | Inr _ \<Rightarrow> None) (zip nss views)"

lemma failed_queries_simps [simp]:
  "failed_queries [] views = []"
  "failed_queries (ns # nss) (Inl err # views) = (ns, IsTimeout (Some err)) # failed_queries nss views"
  "failed_queries (ns # nss) (Inr recs # views) = failed_queries nss views"
  by (simp_all add: failed_queries_def List.map_filter_simps del: IsTimeout.simps)

text \<open>The nameserver and the key of a result.\<close>

definition result_ns :: "ProbeResult \<Rightarrow> nameserver" where
  "result_ns r = \<lparr>Hostname = Nameserver r, NS_IP = IP r\<rparr>"

definition result_key :: "ProbeResult \<Rightarrow> string" where
  "result_key r = self_key (case Metrics r of (m, _) # _ \<Rightarrow> m | [] \<Rightarrow> []) (result_ns r)"

definition glue_keys :: "nameserver set \<Rightarrow> string set" where
  "glue_keys ns = self_key ''ns_record'' ` ns \<union> self_key ''ns_glue'' ` ns"

lemma glue_result_sel [simp]:
  "Zone (glue_result zone src m n) = zone" "Check (glue_result zone src m n) = ''glue''"
  "Success (glue_result zone src m n)" "result_ns (glue_result zone src m n) = n"
  "result_key (glue_result zone src m n) = self_key m n"
  by (auto simp: glue_result_def zeroResult_def result_ns_def result_key_def self_key_def)

lemma register_self_spec:
  assumes "register_self zone m sns reg = (rs, reg')"
  shows "rs \<in> lists (glue_result zone ''self'' m ` set sns) \<and> distinct (map result_key rs) \<and>
    result_key ` set rs \<inter> set reg = {} \<and> set reg' = set reg \<union> result_key ` set rs \<and>
    set reg' = set reg \<union> self_key m ` set sns"
  using assms
proof (induction zone m sns reg arbitrary: rs reg' rule: register_self.induct)
  case (2 zone m sn sns reg)
  show ?case
  proof (cases "self_key m sn \<in> set reg")
    case True
    with "2.prems" have "register_self zone m sns reg = (rs, reg')" by (simp add: Let_def)
    from "2.IH"(1) [OF refl True this] True show ?thesis by auto
  next
    case False
    obtain rs1 where loop: "register_self zone m sns (self_key m sn # reg) = (rs1, reg')"
      and rs: "rs = glue_result zone ''self'' m sn # rs1"
      using "2.prems" False by (auto simp: Let_def split: prod.splits)
    note I = "2.IH"(2) [OF refl False loop, unfolded list.set]
    have IH: "rs1 \<in> lists (glue_result zone ''self'' m ` set sns)"
      "distinct (map result_key rs1)" "result_key ` set rs1 \<inter> insert (self_key m sn) (set reg) = {}"
      "set reg' = insert (self_key m sn) (set reg) \<union> result_key ` set rs1"
      "set reg' = insert (self_key m sn) (set reg) \<union> self_key m ` set sns"
      using I by blast+
    have "rs \<in> lists (glue_result zone ''self'' m ` set (sn # sns))"
      using IH(1) by (auto simp: rs in_lists_conv_set)
    moreover have "distinct (map result_key rs)" using IH(2,3) by (auto simp: rs)
    moreover have "result_key ` set rs \<inter> set reg = {}" using IH(3) False by (auto simp: rs)
    moreover have "set reg' = set reg \<union> result_key ` set rs" using IH(4) by (simp add: rs)
    moreover have "set reg' = set reg \<union> self_key m ` set (sn # sns)" using IH(5) by simp
    ultimately show ?thesis by blast
  qed
qed auto

definition glue_success :: "string \<Rightarrow> nameserver set \<Rightarrow> ProbeResult set" where
  "glue_success zone ns = glue_result zone ''self'' ''ns_record'' ` ns \<union> glue_result zone ''self'' ''ns_glue'' ` ns"

lemma glue_success_Success: "r \<in> glue_success zone ns \<Longrightarrow> Success r"
  by (auto simp: glue_success_def)

lemma ProbeGlue_loop_spec:
  assumes "ProbeGlue_loop e zone nss reg h = (rs, h')" and "self_views e zone nss h = (views, h2)"
  shows "h2 = h' \<and> prefix h h' \<and> (let ok = filter Success rs in
     set ok \<subseteq> glue_success zone (reported views) \<and> distinct (map result_key ok) \<and>
     result_key ` set ok \<inter> set reg = {} \<and> set reg \<union> result_key ` set ok = set reg \<union> glue_keys (reported views)) \<and>
     map (\<lambda>r. (result_ns r, TimedOut r)) (filter (\<lambda>r. \<not> Success r) rs) = failed_queries nss views \<and>
     (\<forall>r \<in> set rs. Zone r = zone \<and> Check r = ''glue'' \<and> (Success r \<or> Labels r = [] \<and> Metrics r = []))"
  using assms
proof (induction nss arbitrary: reg h rs views h2)
  case Nil
  then show ?case by (auto simp: reported_def glue_keys_def)
next
  case (Cons ns nss)
  obtain x h1 where x: "querySelfForNSAndA e zone ns h = (x, h1)" by fastforce
  obtain vs where vs: "self_views e zone nss h1 = (vs, h2)" and views: "views = map_sum id fst x # vs"
    using Cons.prems(2) x by (auto split: prod.splits)
  note p = querySelfForNSAndA_prefix [OF x]
  show ?case
  proof (cases x)
    case (Inl err)
    obtain rs1 where loop: "ProbeGlue_loop e zone nss reg h1 = (rs1, h')"
      and rs: "rs = (zeroResult zone ''glue'')\<lparr>Nameserver := Hostname ns, IP := NS_IP ns,
               TimedOut := IsTimeout (Some err)\<rparr> # rs1"
      using Cons.prems(1) x Inl by (auto simp del: IsTimeout.simps split: prod.splits)
    have "reported views = reported vs" by (auto simp: views Inl reported_def)
    with Cons.IH [OF loop vs] show ?thesis
      using prefix_order.trans [OF p, of h']
      by (auto simp: rs views Inl zeroResult_def result_ns_def Let_def simp del: IsTimeout.simps)
  next
    case (Inr y)
    then obtain recs where y: "y = (recs, recs)" using querySelfForNSAndA_reported(1) x by (cases y) blast
    obtain rs1 reg1 rs2 reg2 rs3 where
      one: "register_self zone ''ns_record'' recs reg = (rs1, reg1)" and
      two: "register_self zone ''ns_glue'' recs reg1 = (rs2, reg2)" and
      loop: "ProbeGlue_loop e zone nss reg2 h1 = (rs3, h')" and rs: "rs = rs1 @ rs2 @ rs3"
      using Cons.prems(1) x Inr y by (auto split: prod.splits)
    have rep: "reported views = set recs \<union> reported vs" by (auto simp: views Inr y reported_def)
    note S1 = register_self_spec [OF one] and S2 = register_self_spec [OF two] and IH = Cons.IH [OF loop vs]
    have ok: "filter Success rs1 = rs1" "filter Success rs2 = rs2" "filter (\<lambda>r. \<not> Success r) rs1 = []"
        "filter (\<lambda>r. \<not> Success r) rs2 = []"
      using S1 S2 by (auto simp: filter_id_conv filter_empty_conv in_lists_conv_set)
    have fail: "failed_queries (ns # nss) views = failed_queries nss vs"
      by (simp add: views Inr)
    have labels: "\<forall>r \<in> set (rs1 @ rs2). Zone r = zone \<and> Check r = ''glue'' \<and> Success r"
      using S1 S2 by (auto simp: in_lists_conv_set)
    have I: "set (filter Success rs3) \<subseteq> glue_success zone (reported vs)" "distinct (map result_key (filter Success rs3))"
      "result_key ` set (filter Success rs3) \<inter> set reg2 = {}"
      using IH by (simp_all add: Let_def)
    have D: "distinct (map result_key rs1)" "distinct (map result_key rs2)"
      "result_key ` set rs1 \<inter> set reg = {}" "result_key ` set rs2 \<inter> set reg1 = {}"
      "set reg1 = set reg \<union> result_key ` set rs1" "set reg2 = set reg1 \<union> result_key ` set rs2"
      using S1 S2 by simp_all
    have "set rs1 \<subseteq> glue_success zone (set recs)" "set rs2 \<subseteq> glue_success zone (set recs)"
      using S1 S2 by (auto simp: glue_success_def in_lists_conv_set)
    then have "set (filter Success rs) \<subseteq> glue_success zone (reported views)"
      using I(1) by (auto simp: rs ok rep glue_success_def)
    moreover have "distinct (map result_key (filter Success rs))"
      using D I(2,3) by (simp add: rs ok Int_Un_distrib Int_Un_distrib2 Int_commute)
    moreover have "result_key ` set (filter Success rs) \<inter> set reg = {}"
      using D I(3) by (simp add: rs ok image_Un Int_Un_distrib Int_Un_distrib2)
    moreover have "set reg \<union> result_key ` set (filter Success rs) = set reg \<union> glue_keys (reported views)"
    proof -
      have "set reg2 = set reg \<union> glue_keys (set recs)" using S1 S2 by (auto simp: glue_keys_def)
      moreover have "set reg \<union> result_key ` set (filter Success rs) = set reg2 \<union> result_key ` set (filter Success rs3)"
        using S1 S2 unfolding rs filter_append ok by auto
      moreover have "set reg2 \<union> result_key ` set (filter Success rs3) = set reg2 \<union> glue_keys (reported vs)"
        using IH by (simp add: Let_def)
      ultimately show ?thesis by (auto simp: rep glue_keys_def)
    qed
    moreover have "h2 = h' \<and> prefix h h'" using IH prefix_order.trans [OF p, of h'] by blast
    moreover have "map (\<lambda>r. (result_ns r, TimedOut r)) (filter (\<lambda>r. \<not> Success r) rs) = failed_queries (ns # nss) views"
      using IH by (simp add: rs ok fail)
    moreover have "\<forall>r \<in> set rs. Zone r = zone \<and> Check r = ''glue'' \<and> (Success r \<or> Labels r = [] \<and> Metrics r = [])"
      using IH labels by (simp add: rs ball_Un)
    ultimately show ?thesis unfolding Let_def by blast
  qed
qed

lemma ProbeGlue_run:
  obtains self views h' where "self_views e zone nss h = (views, h')"
    and "ProbeGlue e zone nss dlg h = Some (Inr (map (glue_result zone ''parent'' ''ns_record'') (NSRecords dlg) @
           map (glue_result zone ''parent'' ''ns_glue'') (Glue dlg) @ self), h')"
    and "ProbeGlue_loop e zone nss [] h = (self, h')"
proof -
  obtain self h' where loop: "ProbeGlue_loop e zone nss [] h = (self, h')" by fastforce
  obtain views h2 where views: "self_views e zone nss h = (views, h2)" by fastforce
  have "h2 = h'" using ProbeGlue_loop_spec [OF loop views] by blast
  with loop views that show ?thesis by (auto simp: ProbeGlue_def)
qed

interpretation glue: prober "''glue''" ProbeGlue
proof
  fix e zone nss dlg h out h' assume run: "ProbeGlue e zone nss dlg h = Some (out, h')"
  obtain self views k where views: "self_views e zone nss h = (views, k)"
    and eq: "ProbeGlue e zone nss dlg h = Some (Inr (map (glue_result zone ''parent'' ''ns_record'') (NSRecords dlg) @
           map (glue_result zone ''parent'' ''ns_glue'') (Glue dlg) @ self), k)"
    and loop: "ProbeGlue_loop e zone nss [] h = (self, k)" by (rule ProbeGlue_run)
  show "\<exists>rs. out = Inr rs" and "prefix h h'"
    using run eq ProbeGlue_loop_spec [OF loop views] by auto
next
  fix e zone nss dlg h rs h' r assume run: "ProbeGlue e zone nss dlg h = Some (Inr rs, h')" and r: "r \<in> set rs"
  obtain self views k where views: "self_views e zone nss h = (views, k)"
    and eq: "ProbeGlue e zone nss dlg h = Some (Inr (map (glue_result zone ''parent'' ''ns_record'') (NSRecords dlg) @
           map (glue_result zone ''parent'' ''ns_glue'') (Glue dlg) @ self), k)"
    and loop: "ProbeGlue_loop e zone nss [] h = (self, k)" by (rule ProbeGlue_run)
  show "Zone r = zone \<and> Check r = ''glue''"
    using run eq r ProbeGlue_loop_spec [OF loop views] by auto
qed (auto simp: ProbeGlue_def split: prod.splits)

section \<open>Soundness of the self records\<close>

lemma self_views_reported:
  assumes "self_views e zone nss h = (views, h')"
  shows "prefix h h' \<and> reported views \<subseteq>
    {n. \<exists>ns. ns \<in> set nss \<and> self_reported e zone h h' (ResolveAddress e (NS_IP ns)) n}"
  using assms
proof (induction nss arbitrary: h views)
  case (Cons ns nss)
  obtain x h1 vs where x: "querySelfForNSAndA e zone ns h = (x, h1)"
    and vs: "self_views e zone nss h1 = (vs, h')" and views: "views = map_sum id fst x # vs"
    using Cons.prems by (auto split: prod.splits)
  note p = querySelfForNSAndA_prefix [OF x] and IH = Cons.IH [OF vs]
  have later: "self_reported e zone h h' a n" if "self_reported e zone h1 h' a n" for a n
    using self_reported_mono [OF that p] by simp
  have now: "self_reported e zone h h' (ResolveAddress e (NS_IP ns)) n" if "x = Inr (recs, g)" "n \<in> set recs" for recs g n
    using querySelfForNSAndA_reported(2) [OF x [unfolded that(1)]] that(2) IH self_reported_mono by blast
  have sub: "reported views \<subseteq> reported vs \<union> {n. \<exists>recs g. x = Inr (recs, g) \<and> n \<in> set recs}"
    by (cases x) (auto simp: views reported_def)
  have "\<exists>m. m \<in> set (ns # nss) \<and> self_reported e zone h h' (ResolveAddress e (NS_IP m)) n" if "n \<in> reported views" for n
  proof -
    from sub that consider "n \<in> reported vs" | recs g where "x = Inr (recs, g)" "n \<in> set recs" by blast
    then show ?thesis
    proof cases
      case 1
      with IH obtain m where "m \<in> set nss" "self_reported e zone h1 h' (ResolveAddress e (NS_IP m)) n" by blast
      with later show ?thesis by auto
    next
      case 2
      with now show ?thesis by auto
    qed
  qed
  then show ?case using IH prefix_order.trans [OF p, of h'] by blast
qed (simp add: reported_def)

section \<open>What the exchanges say\<close>

text \<open>The host names and addresses in the answers to A and AAAA questions of a run of exchanges.\<close>

definition addresses_given :: "(dns_msg \<times> string \<times> (goerror + response)) list \<Rightarrow> nameserver set" where
  "addresses_given run =
     {n. \<exists>addr resp owner a. (SetQuestion (Hostname n) TypeA, addr, Inr resp) \<in> set run \<and>
           RR_A owner a \<in> set (rsp_Answer resp) \<and> NS_IP n = IP_String a} \<union>
     {n. \<exists>addr resp owner a. (SetQuestion (Hostname n) TypeAAAA, addr, Inr resp) \<in> set run \<and>
           RR_AAAA owner a \<in> set (rsp_Answer resp) \<and> NS_IP n = IP_String a}"



lemma SetQuestion_eq [simp]: "SetQuestion n t = SetQuestion n' t' \<longleftrightarrow> n = n' \<and> t = t'"
  by (auto simp: SetQuestion_def)


lemma addresses_given_Nil [simp]: "addresses_given [] = {}"
  by (simp add: addresses_given_def)








section \<open>The results, field by field\<close>





section \<open>Properties\<close>


text \<open>No self record is made up: each successful result labelled \<open>self\<close> carries a host name that
  some probed nameserver listed among the zone's NS records and an address it gave for that name.\<close>

lemma glue_self_sound:
  "case ProbeGlue e zone nss dlg h of
     Some (Inr rs, h') \<Rightarrow> set (filter (\<lambda>r. Labels r = [(''source'', ''self'')]) rs) \<subseteq>
       {r. \<exists>ns. ns \<in> set nss \<and> self_reported e zone h h' (ResolveAddress e (NS_IP ns)) (result_ns r)}
   | _ \<Rightarrow> False"
proof -
  obtain self views h' where views: "self_views e zone nss h = (views, h')"
    and run: "ProbeGlue e zone nss dlg h = Some (Inr (map (glue_result zone ''parent'' ''ns_record'') (NSRecords dlg) @
           map (glue_result zone ''parent'' ''ns_glue'') (Glue dlg) @ self), h')"
    and loop: "ProbeGlue_loop e zone nss [] h = (self, h')" by (rule ProbeGlue_run)
  have parent: "Labels (glue_result zone src m n) = [(''source'', src)]" for src m n
    by (simp add: glue_result_def)
  have spec: "set (filter Success self) \<subseteq> glue_success zone (reported views)"
      "\<forall>r \<in> set self. Success r \<or> Labels r = []"
    using ProbeGlue_loop_spec [OF loop views] by (auto simp: Let_def)
  have "result_ns r \<in> reported views" if "r \<in> set self" "Labels r = [(''source'', ''self'')]" for r
  proof -
    have "r \<in> glue_success zone (reported views)" using spec that by auto
    then show ?thesis by (auto simp: glue_success_def)
  qed
  then have "set (filter (\<lambda>r. Labels r = [(''source'', ''self'')]) self) \<subseteq>
       {r. \<exists>ns. ns \<in> set nss \<and> self_reported e zone h h' (ResolveAddress e (NS_IP ns)) (result_ns r)}"
    using self_views_reported [OF views] by auto
  then show ?thesis using run parent by auto
qed

end
