(* ===== verification/Ns_Classification.thy ===== *)
theory Ns_Classification
  imports Delegation
begin

text \<open>
  The NS classification prober, \<^verbatim>\<open>prober/ns_classification.go\<close>: the parent's NS set against the
  union of the sets the nameservers report, and for a name only the nameservers know, whether
  it is reachable. A Go set \<open>map[string]bool\<close> is the list of its keys; \<open>unionSorted\<close> sorts
  them byte by byte, which is the order of \<^theory_text>\<open>List_Lexorder\<close> on strings.
\<close>

section \<open>Names and sets\<close>

definition canonName :: "penv \<Rightarrow> string \<Rightarrow> string" where
  "canonName e name = ToLower (dns_Fqdn e name)"

definition classifyHost :: "string \<Rightarrow> string list \<Rightarrow> string list \<Rightarrow> string" where
  "classifyHost host parentSet selfSet =
     (if host \<in> set parentSet \<and> host \<in> set selfSet then ''both''
      else if host \<in> set parentSet then ''parent-only''
      else ''self-only'')"

definition unionSorted :: "string list \<Rightarrow> string list \<Rightarrow> string list" where
  "unionSorted a b = sort (remdups (a @ b))"

section \<open>Collecting the two sets\<close>

text \<open>The parent's names, and for each the first non-empty address.\<close>

fun parent_loop ::
  "penv \<Rightarrow> nameserver list \<Rightarrow> string list \<Rightarrow> (string \<rightharpoonup> string) \<Rightarrow> string list \<times> (string \<rightharpoonup> string)" where
  "parent_loop e [] parentSet ipByHost = (parentSet, ipByHost)"
| "parent_loop e (ns # nss) parentSet ipByHost =
     (let key = canonName e (Hostname ns) in
      parent_loop e nss (List.insert key parentSet)
        (if NS_IP ns \<noteq> [] \<and> ipByHost key = None then ipByHost(key \<mapsto> NS_IP ns) else ipByHost))"

definition querySelfNSSet :: "penv \<Rightarrow> string \<Rightarrow> string \<Rightarrow> history \<Rightarrow> string list \<times> history" where
  "querySelfNSSet e zone ip h =
     (case ExchangeWithRetry e (SetQuestion (dns_Fqdn e zone) TypeNS) (ResolveAddress e ip) h of
        (Inl err, h1) \<Rightarrow> ([], h1)
      | (Inr resp, h1) \<Rightarrow> (ns_targets (rsp_Answer resp), h1))"

fun self_loop ::
  "penv \<Rightarrow> string \<Rightarrow> nameserver list \<Rightarrow> string list \<Rightarrow> string list \<Rightarrow> history \<Rightarrow> string list \<times> history" where
  "self_loop e zone [] queriedIPs selfSet h = (selfSet, h)"
| "self_loop e zone (ns # nss) queriedIPs selfSet h =
     (if NS_IP ns = [] \<or> NS_IP ns \<in> set queriedIPs then self_loop e zone nss queriedIPs selfSet h
      else (case querySelfNSSet e zone (NS_IP ns) h of
        (hostnames, h1) \<Rightarrow>
          self_loop e zone nss (NS_IP ns # queriedIPs)
            (fold List.insert (map (canonName e) hostnames) selfSet) h1))"

section \<open>Stealth nameservers\<close>

definition is_SOA :: "rr \<Rightarrow> bool" where
  "is_SOA rr = (case rr of RR_SOA _ _ \<Rightarrow> True | _ \<Rightarrow> False)"

fun stealth_loop :: "penv \<Rightarrow> string \<Rightarrow> string list \<Rightarrow> history \<Rightarrow> bool \<times> history" where
  "stealth_loop e zone [] h = (False, h)"
| "stealth_loop e zone (ip # ips) h =
     (case ExchangeWithRetry e (SetQuestion (dns_Fqdn e zone) TypeSOA) (ResolveAddress e ip) h of
        (Inl err, h1) \<Rightarrow> stealth_loop e zone ips h1
      | (Inr resp, h1) \<Rightarrow>
          if \<not> rsp_Authoritative resp then stealth_loop e zone ips h1
          else if list_ex is_SOA (rsp_Answer resp) then (True, h1)
          else stealth_loop e zone ips h1)"

definition probeStealthReachable ::
  "penv \<Rightarrow> string \<Rightarrow> string \<Rightarrow> history \<Rightarrow> (bool \<times> history) option" where
  "probeStealthReachable e zone hostname h =
     (case ResolveHostnames e hostname h of
        None \<Rightarrow> None
      | Some (Inl _, h1) \<Rightarrow> Some (False, h1)
      | Some (Inr ips, h1) \<Rightarrow> if ips = [] then Some (False, h1) else Some (stealth_loop e zone ips h1))"

section \<open>The prober\<close>

definition classification_result ::
  "string \<Rightarrow> string \<Rightarrow> string \<Rightarrow> string \<Rightarrow> bool option \<Rightarrow> ProbeResult" where
  "classification_result zone host ip classification reachable =
     (zeroResult zone ''ns_classification'')
       \<lparr>Nameserver := host, IP := ip, Success := True,
        Metrics := (''ns_classification'', 1) #
          (case reachable of Some b \<Rightarrow> [(''ns_stealth_reachable'', boolToFloat b)] | None \<Rightarrow> []),
        Labels := [(''classification'', classification)]\<rparr>"

fun classify_loop ::
  "penv \<Rightarrow> string \<Rightarrow> string list \<Rightarrow> string list \<Rightarrow> (string \<rightharpoonup> string) \<Rightarrow> string list \<Rightarrow> string list \<Rightarrow>
   history \<Rightarrow> (ProbeResult list \<times> history) option" where
  "classify_loop e zone parentSet selfSet ipByHost reachabilityChecked [] h = Some ([], h)"
| "classify_loop e zone parentSet selfSet ipByHost reachabilityChecked (host # hosts) h =
     (let classification = classifyHost host parentSet selfSet;
          ip = (case ipByHost host of Some ip \<Rightarrow> ip | None \<Rightarrow> []) in
      case (if classification = ''self-only'' \<and> host \<notin> set reachabilityChecked
            then (case probeStealthReachable e zone host h of
                    None \<Rightarrow> None
                  | Some (reachable, h1) \<Rightarrow> Some (Some reachable, host # reachabilityChecked, h1))
            else Some (None, reachabilityChecked, h)) of
        None \<Rightarrow> None
      | Some (reachable, checked, h1) \<Rightarrow>
          (case classify_loop e zone parentSet selfSet ipByHost checked hosts h1 of
             None \<Rightarrow> None
           | Some (results, h2) \<Rightarrow>
               Some (classification_result zone host ip classification reachable # results, h2)))"

definition ProbeNSClassification :: probe_fn where
  "ProbeNSClassification e zone nameservers delegation h =
     (let (parentSet, ipByHost) = parent_loop e (NSRecords delegation) [] Map.empty;
          (selfSet, h1) = self_loop e zone nameservers [] [] h in
      map_option (\<lambda>(results, h2). (Inr results, h2))
        (classify_loop e zone parentSet selfSet ipByHost [] (unionSorted parentSet selfSet) h1))"

section \<open>The two sets\<close>

text \<open>The address remembered for a host is the first one listed for it.\<close>

definition first_addr :: "penv \<Rightarrow> nameserver list \<Rightarrow> (string \<rightharpoonup> string)" where
  "first_addr e nss = map_of (map (\<lambda>n. (canonName e (Hostname n), NS_IP n)) (filter (\<lambda>n. NS_IP n \<noteq> []) nss))"

lemma first_addr_Cons:
  "first_addr e (ns # nss) = (if NS_IP ns \<noteq> [] then (first_addr e nss)(canonName e (Hostname ns) \<mapsto> NS_IP ns)
     else first_addr e nss)"
  by (simp add: first_addr_def)

lemma parent_loop_spec:
  assumes "parent_loop e nss ps m = (ps', m')"
  shows "set ps' = set ps \<union> (\<lambda>n. canonName e (Hostname n)) ` set nss \<and> m' = first_addr e nss ++ m"
  using assms
proof (induction nss arbitrary: ps m)
  case Nil
  then show ?case by (simp add: first_addr_def)
next
  case (Cons ns nss)
  let ?key = "canonName e (Hostname ns)"
  let ?m = "if NS_IP ns \<noteq> [] \<and> m ?key = None then m(?key \<mapsto> NS_IP ns) else m"
  have step: "parent_loop e nss (List.insert ?key ps) ?m = (ps', m')"
    using Cons.prems by (simp only: parent_loop.simps Let_def)
  have "first_addr e nss ++ ?m = first_addr e (ns # nss) ++ m"
    by (auto simp: first_addr_Cons fun_eq_iff map_add_def split: option.splits)
  then show ?case using Cons.IH [OF step] by simp
qed

lemma unionSorted_eq: "unionSorted a b = sorted_list_of_set (set a \<union> set b)"
  by (simp add: unionSorted_def sorted_list_of_set_sort_remdups [symmetric] del: remdups_append2)

text \<open>The names reported by the addresses asked, in canonical form: the targets of the NS records of every answer.\<close>

definition names_in :: "penv \<Rightarrow> (string \<times> (goerror + response)) list \<Rightarrow> string set" where
  "names_in e asked = {canonName e t | t. \<exists>ip resp. (ip, Inr resp) \<in> set asked \<and> t \<in> set (ns_targets (rsp_Answer resp))}"

lemma names_in_simps [simp]:
  "names_in e [] = {}"
  "names_in e ((ip, x) # asked) =
     canonName e ` set (case x of Inl _ \<Rightarrow> [] | Inr resp \<Rightarrow> ns_targets (rsp_Answer resp)) \<union> names_in e asked"
  by (auto simp: names_in_def split: sum.splits)

text \<open>The same question put to one address after the other.\<close>

definition ask_each :: "penv \<Rightarrow> dns_msg \<Rightarrow> history \<Rightarrow> (string \<times> (goerror + response)) list \<Rightarrow> history \<Rightarrow> bool" where
  "ask_each e msg h asked h' \<longleftrightarrow> ask_run e h (map (\<lambda>(ip, x). (msg, ResolveAddress e ip, x)) asked) h'"

lemma ask_each_simps [simp]:
  "ask_each e msg h [] h' \<longleftrightarrow> h' = h"
  "ask_each e msg h ((ip, x) # asked) h' \<longleftrightarrow>
     (\<exists>h1. ExchangeWithRetry e msg (ResolveAddress e ip) h = (x, h1) \<and> ask_each e msg h1 asked h')"
  unfolding ask_each_def by (auto simp: ask_run_Cons)

lemma ask_each_extends: "ask_each e msg h asked h' \<Longrightarrow> extends (2 * length asked) h h'"
  unfolding ask_each_def by (auto dest: ask_run_extends)

lemma set_fold_insert: "set (fold List.insert xs ys) = set xs \<union> set ys"
  by (induction xs arbitrary: ys) auto

lemma self_loop_spec:
  assumes "self_loop e zone nss ips set0 h = (self, h')"
  shows "\<exists>asked. ask_each e (SetQuestion (dns_Fqdn e zone) TypeNS) h asked h' \<and> distinct (map fst asked) \<and>
    fst ` set asked = NS_IP ` set nss - insert [] (set ips) \<and> set self = set set0 \<union> names_in e asked"
  using assms
proof (induction nss arbitrary: ips set0 h)
  case Nil
  then show ?case by (auto intro!: exI [of _ "[]"])
next
  case (Cons ns nss)
  show ?case
  proof (cases "NS_IP ns = [] \<or> NS_IP ns \<in> set ips")
    case True
    then have "NS_IP ` set (ns # nss) - insert [] (set ips) = NS_IP ` set nss - insert [] (set ips)" by auto
    then show ?thesis using Cons.IH [of ips set0 h] Cons.prems True by simp
  next
    case False
    let ?q = "SetQuestion (dns_Fqdn e zone) TypeNS"
    obtain x h1 where x: "ExchangeWithRetry e ?q (ResolveAddress e (NS_IP ns)) h = (x, h1)" by fastforce
    define names where "names = (case x of Inl _ \<Rightarrow> [] | Inr resp \<Rightarrow> ns_targets (rsp_Answer resp))"
    have "querySelfNSSet e zone (NS_IP ns) h = (names, h1)"
      using x by (simp add: querySelfNSSet_def names_def split: sum.splits)
    then have loop: "self_loop e zone nss (NS_IP ns # ips) (fold List.insert (map (canonName e) names) set0) h1 = (self, h')"
      using Cons.prems False by simp
    from Cons.IH [OF this] obtain asked where A: "ask_each e ?q h1 asked h'" "distinct (map fst asked)"
      "fst ` set asked = NS_IP ` set nss - insert [] (set (NS_IP ns # ips))"
      "set self = set (fold List.insert (map (canonName e) names) set0) \<union> names_in e asked"
      by (elim exE conjE) (rule that; assumption)
    have "NS_IP ns \<notin> fst ` set asked" unfolding A(3) by simp
    moreover have "set self = set set0 \<union> names_in e ((NS_IP ns, x) # asked)"
      unfolding A(4) set_fold_insert names_in_simps names_def by auto
    moreover have "fst ` set ((NS_IP ns, x) # asked) = NS_IP ` set (ns # nss) - insert [] (set ips)"
      using A(3) False by auto
    moreover have "ask_each e ?q h ((NS_IP ns, x) # asked) h'" using x A(1) by auto
    ultimately show ?thesis using A(2) by (intro exI [of _ "(NS_IP ns, x) # asked"]) simp
  qed
qed

section \<open>The reachability verdict\<close>

definition authoritative_soa :: "response \<Rightarrow> bool" where
  "authoritative_soa resp \<longleftrightarrow> rsp_Authoritative resp \<and> list_ex is_SOA (rsp_Answer resp)"

definition gives_soa :: "string \<times> (goerror + response) \<Rightarrow> bool" where
  "gives_soa a \<longleftrightarrow> (\<exists>resp. snd a = Inr resp \<and> authoritative_soa resp)"

text \<open>The addresses are asked for the SOA one after the other until one answers with it: the verdict is whether one
  did, none before the last one asked did, and a negative verdict comes only after all were asked.\<close>

definition soa_search :: "penv \<Rightarrow> string \<Rightarrow> history \<Rightarrow> string list \<Rightarrow> bool \<Rightarrow> history \<Rightarrow> bool" where
  "soa_search e zone h ips v h' \<longleftrightarrow>
     (\<exists>asked. ask_each e (SetQuestion (dns_Fqdn e zone) TypeSOA) h asked h' \<and> prefix (map fst asked) ips \<and>
        (v \<longleftrightarrow> list_ex gives_soa asked) \<and> \<not> list_ex gives_soa (butlast asked) \<and> (v \<or> map fst asked = ips))"

lemma soa_search_prefix: "soa_search e zone h ips v h' \<Longrightarrow> prefix h h'"
  unfolding soa_search_def by (blast intro: extends_prefix ask_each_extends)

lemma stealth_loop_spec:
  assumes "stealth_loop e zone ips h = (v, h')"
  shows "soa_search e zone h ips v h'"
  using assms
proof (induction ips arbitrary: h)
  case Nil
  then show ?case unfolding soa_search_def by (auto intro!: exI [of _ "[]"])
next
  case (Cons ip ips)
  let ?q = "SetQuestion (dns_Fqdn e zone) TypeSOA"
  obtain x h1 where x: "ExchangeWithRetry e ?q (ResolveAddress e ip) h = (x, h1)" by fastforce
  show ?case
  proof (cases "gives_soa (ip, x)")
    case True
    then have "v" "h' = h1" using Cons.prems x by (auto simp: authoritative_soa_def gives_soa_def)
    with True x show ?thesis unfolding soa_search_def by (auto intro!: exI [of _ "[(ip, x)]"])
  next
    case False
    then have "stealth_loop e zone ips h1 = (v, h')"
      using Cons.prems x by (auto simp: authoritative_soa_def gives_soa_def split: sum.splits if_splits)
    from Cons.IH [OF this] obtain asked where A: "ask_each e ?q h1 asked h'" "prefix (map fst asked) ips"
      "v \<longleftrightarrow> list_ex gives_soa asked" "\<not> list_ex gives_soa (butlast asked)" "v \<or> map fst asked = ips"
      unfolding soa_search_def by (elim exE conjE) (rule that; assumption)
    with False x show ?thesis unfolding soa_search_def
      by (intro exI [of _ "(ip, x) # asked"]) auto
  qed
qed

lemma probeStealthReachable_None: "probeStealthReachable e zone host h = None \<longleftrightarrow> RootServers e = []"
  using ResolveHostnames_None [of e host h]
  by (auto simp: probeStealthReachable_def split: option.splits prod.splits sum.splits if_splits)

lemma probeStealthReachable_steps:
  assumes "probeStealthReachable e zone host h = Some (v, h')"
  shows "\<exists>x h1. ResolveHostnames e host h = Some (x, h1) \<and> soa_search e zone h1 (case_sum (\<lambda>_. []) id x) v h'"
proof -
  obtain x h1 where r: "ResolveHostnames e host h = Some (x, h1)"
    using assms by (auto simp: probeStealthReachable_def split: option.splits)
  have "stealth_loop e zone (case_sum (\<lambda>_. []) id x) h1 = (v, h')"
    using assms r by (auto simp: probeStealthReachable_def split: sum.splits if_splits)
  from r stealth_loop_spec [OF this] show ?thesis by blast
qed

lemma probeStealthReachable_prefix [hist_grow]:
  assumes "probeStealthReachable e zone host h = Some (v, h')"
  shows "prefix h h'"
  using probeStealthReachable_steps [OF assms] ResolveHostnames_prefix soa_search_prefix
  by (meson prefix_order.trans)

section \<open>The results\<close>

text \<open>\<open>v\<close> is the verdict of a reachability check of \<open>host\<close> made between \<open>h\<close> and \<open>h'\<close>: the name was resolved and
  its addresses, none when that failed, were asked for the zone's SOA.\<close>

definition stealth_verdict :: "penv \<Rightarrow> string \<Rightarrow> history \<Rightarrow> history \<Rightarrow> string \<Rightarrow> bool \<Rightarrow> bool" where
  "stealth_verdict e zone h h' host v \<longleftrightarrow>
     (\<exists>k x k1 k'. prefix h k \<and> ResolveHostnames e host k = Some (x, k1) \<and>
        soa_search e zone k1 (case_sum (\<lambda>_. []) id x) v k' \<and> prefix k' h')"

lemma stealth_verdict_made:
  assumes "probeStealthReachable e zone host h = Some (v, h')"
  shows "stealth_verdict e zone h h' host v"
  using probeStealthReachable_steps [OF assms] unfolding stealth_verdict_def by blast

lemma stealth_verdict_mono:
  assumes "stealth_verdict e zone h1 h2 host v" and "prefix h h1" and "prefix h2 h'"
  shows "stealth_verdict e zone h h' host v"
  using assms(1) prefix_order.trans [OF assms(2)] prefix_order.trans [OF _ assms(3)]
  unfolding stealth_verdict_def by blast

text \<open>The result of a host, for given sets, addresses and verdict.\<close>

definition expected_result ::
  "string \<Rightarrow> string list \<Rightarrow> string list \<Rightarrow> (string \<rightharpoonup> string) \<Rightarrow> string \<Rightarrow> bool \<Rightarrow> ProbeResult" where
  "expected_result zone parent self ipByHost host v =
     classification_result zone host (case ipByHost host of Some ip \<Rightarrow> ip | None \<Rightarrow> [])
       (classifyHost host parent self) (if host \<in> set parent then None else Some v)"

definition result_for ::
  "penv \<Rightarrow> string \<Rightarrow> string list \<Rightarrow> string list \<Rightarrow> (string \<rightharpoonup> string) \<Rightarrow> history \<Rightarrow> history \<Rightarrow> string \<Rightarrow> ProbeResult \<Rightarrow> bool" where
  "result_for e zone parent self ipByHost h h' host r \<longleftrightarrow>
     (\<exists>v. r = expected_result zone parent self ipByHost host v \<and>
        (host \<in> set parent \<or> stealth_verdict e zone h h' host v))"

lemma result_for_mono:
  "result_for e zone parent self ips h1 h2 host r \<Longrightarrow> prefix h h1 \<Longrightarrow> prefix h2 h' \<Longrightarrow>
   result_for e zone parent self ips h h' host r"
  unfolding result_for_def using stealth_verdict_mono by blast

lemma classifyHost_self_only: "classifyHost host parent self = ''self-only'' \<longleftrightarrow> host \<notin> set parent"
  by (simp add: classifyHost_def)

lemma classify_loop_spec:
  assumes "classify_loop e zone parent self ips checked hosts h = Some (rs, h')"
    and "distinct hosts" and "set hosts \<inter> set checked = {}"
  shows "prefix h h' \<and> list_all2 (result_for e zone parent self ips h h') hosts rs"
  using assms
proof (induction hosts arbitrary: checked h rs)
  case (Cons host hosts)
  have fresh: "host \<notin> set checked" using Cons.prems by simp
  obtain reach checked1 h1 rs1 where
    loop: "classify_loop e zone parent self ips checked1 hosts h1 = Some (rs1, h')" and
    rs: "rs = classification_result zone host (case ips host of Some ip \<Rightarrow> ip | None \<Rightarrow> [])
      (classifyHost host parent self) reach # rs1" and
    sub: "set checked1 \<subseteq> insert host (set checked)" and p: "prefix h h1" and
    reach: "if host \<in> set parent then reach = None
      else \<exists>v. reach = Some v \<and> stealth_verdict e zone h h1 host v"
  proof (cases "host \<in> set parent")
    case True
    then show thesis
      using Cons.prems(1) that [of checked h]
      by (auto simp: classifyHost_self_only Let_def split: option.splits)
  next
    case False
    then obtain v h1 where v: "probeStealthReachable e zone host h = Some (v, h1)"
      using Cons.prems(1) fresh by (auto simp: classifyHost_self_only Let_def split: option.splits)
    then have "stealth_verdict e zone h h1 host v" by (rule stealth_verdict_made)
    with v False fresh show thesis
      using Cons.prems(1) that [of "host # checked" h1] probeStealthReachable_prefix [OF v]
      by (auto simp: classifyHost_self_only Let_def split: option.splits)
  qed
  have "set hosts \<inter> set checked1 = {}" using sub Cons.prems(2,3) by auto
  with Cons.IH [OF loop] Cons.prems(2) have IH: "prefix h1 h'"
    "list_all2 (result_for e zone parent self ips h1 h') hosts rs1" by auto
  have "list_all2 (result_for e zone parent self ips h h') hosts rs1"
    by (rule list_all2_mono [OF IH(2)]) (rule result_for_mono, use p in auto)
  moreover have "\<exists>r1. rs = r1 # rs1 \<and> result_for e zone parent self ips h h1 host r1"
    using reach unfolding rs result_for_def expected_result_def by (auto split: if_splits)
  ultimately show ?case
    using result_for_mono [OF _ _ IH(1)] prefix_order.trans [OF p IH(1)] by auto
qed auto

lemma classify_loop_None:
  "classify_loop e zone parent self ips checked hosts h = None \<Longrightarrow> RootServers e = []"
  by (induction e zone parent self ips checked hosts h rule: classify_loop.induct)
    (auto simp: Let_def split: option.splits if_splits dest: probeStealthReachable_None [THEN iffD1])

text \<open>The parent's names in canonical form, and the address remembered for one.\<close>

definition parent_names :: "penv \<Rightarrow> DelegationResult \<Rightarrow> string set" where
  "parent_names e dlg = (\<lambda>n. canonName e (Hostname n)) ` set (NSRecords dlg)"

lemma ProbeNSClassification_results:
  assumes "ProbeNSClassification e zone nss dlg h = Some (out, h')"
  obtains parent self h1 rs asked where "out = Inr rs" "prefix h h1" "prefix h1 h'"
    and "set parent = parent_names e dlg" and "set self = names_in e asked"
    and "ask_each e (SetQuestion (dns_Fqdn e zone) TypeNS) h asked h1" and "distinct (map fst asked)"
    and "fst ` set asked = NS_IP ` set nss - {[]}"
    and "list_all2 (result_for e zone parent self (first_addr e (NSRecords dlg)) h1 h')
      (sorted_list_of_set (parent_names e dlg \<union> names_in e asked)) rs"
proof -
  obtain parent ips where P: "parent_loop e (NSRecords dlg) [] Map.empty = (parent, ips)" by fastforce
  obtain self h1 where S: "self_loop e zone nss [] [] h = (self, h1)" by fastforce
  obtain rs where loop: "classify_loop e zone parent self ips [] (unionSorted parent self) h1 = Some (rs, h')"
    and out: "out = Inr rs"
    using assms P S by (auto simp: ProbeNSClassification_def)
  have "distinct (unionSorted parent self)" by (simp add: unionSorted_def)
  from classify_loop_spec [OF loop this]
  have C: "prefix h1 h'" "list_all2 (result_for e zone parent self ips h1 h') (unionSorted parent self) rs"
    by simp_all
  have pi: "set parent = parent_names e dlg" "ips = first_addr e (NSRecords dlg)"
    using parent_loop_spec [OF P] by (simp_all add: parent_names_def)
  from self_loop_spec [OF S] obtain asked where
    A: "ask_each e (SetQuestion (dns_Fqdn e zone) TypeNS) h asked h1" "distinct (map fst asked)"
      "fst ` set asked = NS_IP ` set nss - {[]}" and sn: "set self = names_in e asked"
    by auto
  note p = extends_prefix [OF ask_each_extends [OF A(1)]]
  show thesis
    by (rule that [OF out p C(1) pi(1) sn A]) (use C(2) pi sn in \<open>simp add: unionSorted_eq\<close>)
qed

lemma result_for_labels:
  "result_for e zone parent self ips h h' host r \<Longrightarrow> Zone r = zone \<and> Check r = ''ns_classification''"
  by (auto simp: result_for_def expected_result_def classification_result_def zeroResult_def)

interpretation ns_classification: prober "''ns_classification''" ProbeNSClassification
proof
  fix e zone nss dlg h out h' assume run: "ProbeNSClassification e zone nss dlg h = Some (out, h')"
  show "\<exists>rs. out = Inr rs" by (rule ProbeNSClassification_results [OF run]) blast
  show "prefix h h'"
    by (rule ProbeNSClassification_results [OF run]) (rule prefix_order.trans)
next
  fix e zone nss dlg h rs h' r
  assume run: "ProbeNSClassification e zone nss dlg h = Some (Inr rs, h')" and r: "r \<in> set rs"
  show "Zone r = zone \<and> Check r = ''ns_classification''"
    by (rule ProbeNSClassification_results [OF run])
      (use r result_for_labels in \<open>fastforce simp: list_all2_conv_all_nth in_set_conv_nth\<close>)
next
  fix e zone nss dlg h assume "RootServers (e :: penv) \<noteq> []"
  then show "ProbeNSClassification e zone nss dlg h \<noteq> None"
    using classify_loop_None by (fastforce simp: ProbeNSClassification_def split: prod.splits)
qed

section \<open>Properties\<close>

text \<open>The result of a host, field by field: the class by its membership in the two sets, the address the parent gave
  for it, and for a name only the nameservers know the verdict of a reachability check.\<close>

definition classified ::
  "penv \<Rightarrow> string \<Rightarrow> string set \<Rightarrow> string set \<Rightarrow> (string \<rightharpoonup> string) \<Rightarrow> history \<Rightarrow> history \<Rightarrow> string \<Rightarrow> ProbeResult \<Rightarrow> bool" where
  "classified e zone parent self addr h h' host r \<longleftrightarrow>
     (\<exists>class metrics.
        r = \<lparr>Zone = zone, Check = ''ns_classification'', Nameserver = host,
             IP = (case addr host of Some ip \<Rightarrow> ip | None \<Rightarrow> []), Success = True, TimedOut = False, Duration = 0,
             Metrics = metrics, Labels = [(''classification'', class)]\<rparr> \<and>
        (host \<in> parent \<and> host \<in> self \<longrightarrow> class = ''both'') \<and>
        (host \<in> parent \<and> host \<notin> self \<longrightarrow> class = ''parent-only'') \<and>
        (host \<notin> parent \<longrightarrow> class = ''self-only'') \<and>
        (host \<in> parent \<longrightarrow> metrics = [(''ns_classification'', 1)]) \<and>
        (host \<notin> parent \<longrightarrow> (\<exists>v. stealth_verdict e zone h h' host v \<and>
           metrics = [(''ns_classification'', 1), (''ns_stealth_reachable'', if v then 1 else 0)])))"

lemma result_for_classified:
  assumes "result_for e zone parent self addr h h' host r"
  shows "classified e zone (set parent) (set self) addr h h' host r"
proof -
  obtain v where r: "r = expected_result zone parent self addr host v"
    and v: "host \<in> set parent \<or> stealth_verdict e zone h h' host v"
    using assms unfolding result_for_def by blast
  show ?thesis
  proof (cases "host \<in> set parent")
    case True
    then have "Metrics r = [(''ns_classification'', 1)]" "Labels r = [(''classification'', classifyHost host parent self)]"
      by (simp_all add: r expected_result_def classification_result_def)
    moreover have "classifyHost host parent self = (if host \<in> set self then ''both'' else ''parent-only'')"
      using True by (simp add: classifyHost_def)
    ultimately show ?thesis unfolding classified_def using True
      by (intro exI [of _ "classifyHost host parent self"] exI [of _ "[(''ns_classification'', 1)]"] conjI impI)
        (simp_all add: r expected_result_def classification_result_def zeroResult_def)
  next
    case False
    let ?m = "[(''ns_classification'', 1), (''ns_stealth_reachable'', if v then 1 else 0 :: int)]"
    have "\<exists>v'. stealth_verdict e zone h h' host v' \<and> ?m = [(''ns_classification'', 1), (''ns_stealth_reachable'', if v' then 1 else 0)]"
      using v False by (intro exI [of _ v]) simp
    with False show ?thesis unfolding classified_def
      by (intro exI [of _ "''self-only''"] exI [of _ ?m] conjI impI)
        (simp_all add: r expected_result_def classification_result_def zeroResult_def boolToFloat_def classifyHost_def)
  qed
qed

text \<open>C1: the classification is exact. The NS question is put to every distinct address of the nameservers, once and
  with its retry, and to nothing else; the self names are the targets of all the answers. Then there is one result per
  host of the union with the parent's names, in order and without repetition: \<open>both\<close>, \<open>parent-only\<close> or \<open>self-only\<close> as
  the host is in both sets, in the parent's or in the other only; and a self-only host, and no other, carries the verdict
  of a check in which its name was resolved and its addresses were asked for the SOA until one answered with it.\<close>

theorem classification_exact:
  "case ProbeNSClassification e zone nss dlg h of
     None \<Rightarrow> RootServers e = []
   | Some (out, h') \<Rightarrow> (\<exists>asked h1 rs. out = Inr rs \<and>
       ask_each e (SetQuestion (dns_Fqdn e zone) TypeNS) h asked h1 \<and>
       distinct (map fst asked) \<and> fst ` set asked = NS_IP ` set nss - {[]} \<and>
       extends (2 * card (NS_IP ` set nss - {[]})) h h1 \<and>
       list_all2 (classified e zone (parent_names e dlg) (names_in e asked) (first_addr e (NSRecords dlg)) h1 h')
         (sorted_list_of_set (parent_names e dlg \<union> names_in e asked)) rs)"
proof (cases "ProbeNSClassification e zone nss dlg h")
  case None
  then show ?thesis using ns_classification.no_panic [of e zone nss dlg h] by auto
next
  case (Some y)
  obtain out h' where y: "y = (out, h')" by fastforce
  obtain parent self h1 rs asked where R: "out = Inr rs"
    "set parent = parent_names e dlg" "set self = names_in e asked"
    "ask_each e (SetQuestion (dns_Fqdn e zone) TypeNS) h asked h1" "distinct (map fst asked)"
    "fst ` set asked = NS_IP ` set nss - {[]}"
    "list_all2 (result_for e zone parent self (first_addr e (NSRecords dlg)) h1 h')
      (sorted_list_of_set (parent_names e dlg \<union> names_in e asked)) rs"
    by (rule ProbeNSClassification_results [OF Some [unfolded y]]) (rule that; assumption)
  have "card (NS_IP ` set nss - {[]}) = length asked"
    using distinct_card [OF R(5)] by (simp flip: R(6))
  then have "extends (2 * card (NS_IP ` set nss - {[]})) h h1" using ask_each_extends [OF R(4)] by simp
  moreover have "list_all2 (classified e zone (parent_names e dlg) (names_in e asked) (first_addr e (NSRecords dlg)) h1 h')
      (sorted_list_of_set (parent_names e dlg \<union> names_in e asked)) rs"
    unfolding R(2,3) [symmetric]
    by (rule list_all2_mono [OF R(7) [folded R(2,3)]]) (rule result_for_classified)
  ultimately show ?thesis
    unfolding Some y option.case prod.case using R(1,4-6) by (intro exI [of _ asked] exI [of _ h1] exI [of _ rs] conjI)
qed

text \<open>The reachability check returns the verdict of the search whenever there is a root server.\<close>

lemma stealth_reachable_exact:
  "case probeStealthReachable e zone host h of
     None \<Rightarrow> RootServers e = []
   | Some (v, h') \<Rightarrow> stealth_verdict e zone h h' host v"
  using probeStealthReachable_None [of e zone host h] stealth_verdict_made
  by (cases "probeStealthReachable e zone host h") auto

end
