(* ===== verification/Mx.thy ===== *)
theory Mx
  imports Ns_Classification Ns_Hostname
begin

text \<open>
  The MX prober, \<^verbatim>\<open>prober/mx.go\<close>: one MX question with failover over the nameservers, an
  information result per MX record and one validity result per distinct target. A zone's MX
  records are the list of (preference, target) pairs of the answer.
\<close>

section \<open>The MX question\<close>

type_synonym mx_rr = "16 word \<times> string"

definition queryMX ::
  "penv \<Rightarrow> string \<Rightarrow> string \<Rightarrow> history \<Rightarrow> (goerror + mx_rr list) \<times> history" where
  "queryMX e zone server h =
     (case ExchangeWithRetry e (SetQuestion (dns_Fqdn e zone) TypeMX) server h of
        (Inl err, h1) \<Rightarrow> (Inl err, h1)
      | (Inr resp, h1) \<Rightarrow>
          (Inr (List.map_filter (\<lambda>rr. case rr of
             RR_MX _ pref mx \<Rightarrow> Some (pref, ToLower (dns_Fqdn e mx)) | _ \<Rightarrow> None) (rsp_Answer resp)), h1))"

text \<open>
  Failover: \<open>queriedIP\<close> and \<open>outcome\<close> are the address last asked and what came of it, no
  records and no error before the first question.
\<close>

fun mx_failover ::
  "penv \<Rightarrow> string \<Rightarrow> nameserver list \<Rightarrow> string \<Rightarrow> goerror + mx_rr list \<Rightarrow> history \<Rightarrow>
   string \<times> (goerror + mx_rr list) \<times> history" where
  "mx_failover e zone [] queriedIP outcome h = (queriedIP, outcome, h)"
| "mx_failover e zone (ns # nss) queriedIP outcome h =
     (if NS_IP ns = [] then mx_failover e zone nss queriedIP outcome h
      else (case queryMX e zone (ResolveAddress e (NS_IP ns)) h of
        (Inr mxs, h1) \<Rightarrow> (NS_IP ns, Inr mxs, h1)
      | (Inl err, h1) \<Rightarrow> mx_failover e zone nss (NS_IP ns) (Inl err) h1))"

section \<open>The results\<close>

definition mx_query_result :: "string \<Rightarrow> string \<Rightarrow> ProbeResult" where
  "mx_query_result zone ip = (zeroResult zone ''mx'')\<lparr>IP := ip, Success := True\<rparr>"

definition mx_failure :: "string \<Rightarrow> string \<Rightarrow> goerror \<Rightarrow> ProbeResult" where
  "mx_failure zone ip err = (zeroResult zone ''mx'')\<lparr>IP := ip, TimedOut := IsTimeout (Some err)\<rparr>"

definition mx_info :: "string \<Rightarrow> string \<Rightarrow> 16 word \<Rightarrow> ProbeResult" where
  "mx_info zone target priority =
     (zeroResult zone ''mx'')\<lparr>Success := True, Metrics := [(''mx_info'', 1)],
        Labels := [(''target'', target), (''priority'', Sprintf05d (unat priority))]\<rparr>"

definition mx_validity :: "string \<Rightarrow> string \<Rightarrow> (string \<times> int) list \<Rightarrow> ProbeResult" where
  "mx_validity zone target metrics =
     (zeroResult zone ''mx'')\<lparr>Success := True, Metrics := metrics, Labels := [(''target'', target)]\<rparr>"

definition mx_checks :: "string \<Rightarrow> bool \<Rightarrow> bool \<Rightarrow> (string \<times> int) list" where
  "mx_checks target resolves isCNAME =
     [(''mx_resolves'', boolToFloat resolves), (''mx_is_cname'', boolToFloat isCNAME),
      (''mx_syntax_valid'', boolToFloat (isValidNSHostname target))]"

text \<open>The validity checks of one target, with the two caches.\<close>

record mx_caches =
  resolvesCache :: "string \<rightharpoonup> bool"
  cnameCache :: "string \<rightharpoonup> bool"

definition mx_validate ::
  "penv \<Rightarrow> string \<Rightarrow> string \<Rightarrow> mx_caches \<Rightarrow> history \<Rightarrow> (ProbeResult \<times> mx_caches \<times> history) option" where
  "mx_validate e zone target c h =
     (if target = ''.'' then Some (mx_validity zone target [(''mx_syntax_valid'', 1)], c, h)
      else (case cached_check (resolvesCache c) target (hostname_resolves e target) h of
        None \<Rightarrow> None
      | Some (resolves, rc, h1) \<Rightarrow>
          (case cached_check (cnameCache c) target (name_is_cname e target) h1 of
             None \<Rightarrow> None
           | Some (isCNAME, cc, h2) \<Rightarrow>
               Some (mx_validity zone target (mx_checks target resolves isCNAME),
                     \<lparr>resolvesCache = rc, cnameCache = cc\<rparr>, h2))))"

fun mx_loop ::
  "penv \<Rightarrow> string \<Rightarrow> mx_rr list \<Rightarrow> mx_caches \<Rightarrow> string list \<Rightarrow> history \<Rightarrow>
   (ProbeResult list \<times> history) option" where
  "mx_loop e zone [] c emittedValidity h = Some ([], h)"
| "mx_loop e zone ((priority, mx) # mxRRs) c emittedValidity h =
     (let target = canonName e mx; info = mx_info zone target priority in
      if target \<in> set emittedValidity
      then map_option (\<lambda>(results, h1). (info # results, h1)) (mx_loop e zone mxRRs c emittedValidity h)
      else (case mx_validate e zone target c h of
        None \<Rightarrow> None
      | Some (validity, c1, h1) \<Rightarrow>
          map_option (\<lambda>(results, h2). (info # validity # results, h2))
            (mx_loop e zone mxRRs c1 (target # emittedValidity) h1)))"

definition ProbeMX :: probe_fn where
  "ProbeMX e zone nameservers delegation h =
     (if nameservers = [] then Some (Inr [], h)
      else (case mx_failover e zone nameservers [] (Inr []) h of
        (queriedIP, Inl err, h1) \<Rightarrow> Some (Inr [mx_failure zone queriedIP err], h1)
      | (queriedIP, Inr mxRRs, h1) \<Rightarrow>
          map_option (\<lambda>(results, h2). (Inr (mx_query_result zone queriedIP # results), h2))
            (mx_loop e zone mxRRs \<lparr>resolvesCache = Map.empty, cnameCache = Map.empty\<rparr> [] h1)))"

section \<open>Failover\<close>

definition mx_records :: "penv \<Rightarrow> response \<Rightarrow> mx_rr list" where
  "mx_records e resp = List.map_filter (\<lambda>rr. case rr of
     RR_MX _ pref mx \<Rightarrow> Some (pref, ToLower (dns_Fqdn e mx)) | _ \<Rightarrow> None) (rsp_Answer resp)"

text \<open>The servers that answered the zone's MX question between \<open>h\<close> and \<open>h'\<close>, with their answers.\<close>

definition mx_answers :: "penv \<Rightarrow> string \<Rightarrow> history \<Rightarrow> history \<Rightarrow> (string \<times> response) set" where
  "mx_answers e zone h h' = {(a, r). answered e h h' (SetQuestion (dns_Fqdn e zone) TypeMX) a r}"

lemma mx_answers_split:
  assumes "prefix h h1" and "prefix h1 h2"
  shows "mx_answers e zone h h2 = mx_answers e zone h h1 \<union> mx_answers e zone h1 h2"
  unfolding mx_answers_def answered_split [OF assms] by blast

lemma queryMX_spec:
  assumes "queryMX e zone server h = (x, h')"
  shows "extends 2 h h'" and "case x of Inl err \<Rightarrow> mx_answers e zone h h' = {}
    | Inr mxs \<Rightarrow> \<exists>r. mx_answers e zone h h' = {(server, r)} \<and> mxs = mx_records e r"
proof -
  obtain y where y: "ExchangeWithRetry e (SetQuestion (dns_Fqdn e zone) TypeMX) server h = (y, h')"
    and x: "x = map_sum id (mx_records e) y"
    using assms by (auto simp: queryMX_def mx_records_def split: prod.splits sum.splits)
  show "extends 2 h h'" using y by (rule ExchangeWithRetry_extends)
  show "case x of Inl err \<Rightarrow> mx_answers e zone h h' = {}
    | Inr mxs \<Rightarrow> \<exists>r. mx_answers e zone h h' = {(server, r)} \<and> mxs = mx_records e r"
    unfolding mx_answers_def answered_ExchangeWithRetry [OF y] x by (cases y) auto
qed

definition mx_asked :: "nameserver list \<Rightarrow> string list" where
  "mx_asked nss = filter (\<lambda>ip. ip \<noteq> []) (map NS_IP nss)"

definition mx_failed :: "penv \<Rightarrow> string \<Rightarrow> history \<Rightarrow> history \<Rightarrow> string set" where
  "mx_failed e zone h h' = {ip. \<exists>k err k'. prefix h k \<and>
     queryMX e zone (ResolveAddress e ip) k = (Inl err, k') \<and> prefix k' h'}"

lemma mx_failed_mono:
  assumes "prefix h h1" and "prefix h2 h'"
  shows "mx_failed e zone h1 h2 \<subseteq> mx_failed e zone h h'"
  using prefix_order.trans [OF assms(1)] prefix_order.trans [OF _ assms(2)]
  unfolding mx_failed_def by blast

definition mx_outcome ::
  "penv \<Rightarrow> string \<Rightarrow> history \<Rightarrow> history \<Rightarrow> string list \<Rightarrow> string \<Rightarrow> goerror + mx_rr list \<Rightarrow> bool" where
  "mx_outcome e zone h h' asked ip out = (case out of
     Inl err \<Rightarrow> ip = last asked \<and> set asked \<subseteq> mx_failed e zone h h' \<and> mx_answers e zone h h' = {}
   | Inr mxs \<Rightarrow> \<exists>pre post r. asked = pre @ ip # post \<and> set pre \<subseteq> mx_failed e zone h h' \<and>
       mx_answers e zone h h' = {(ResolveAddress e ip, r)} \<and> mxs = mx_records e r)"

lemma mx_failover_spec:
  assumes "mx_failover e zone nss ip0 out0 h = (ip, out, h')"
  shows "extends (2 * length (mx_asked nss)) h h' \<and>
    (if mx_asked nss = [] then ip = ip0 \<and> out = out0 \<and> h' = h
     else mx_outcome e zone h h' (mx_asked nss) ip out)"
  using assms
proof (induction nss arbitrary: ip0 out0 h)
  case Nil
  then show ?case by (simp add: mx_asked_def)
next
  case (Cons ns nss)
  show ?case
  proof (cases "NS_IP ns = []")
    case True
    then have "mx_asked (ns # nss) = mx_asked nss" by (simp add: mx_asked_def)
    then show ?thesis using Cons.IH [of ip0 out0 h] Cons.prems True by simp
  next
    case False
    then have asked: "mx_asked (ns # nss) = NS_IP ns # mx_asked nss" by (simp add: mx_asked_def)
    obtain x h1 where x: "queryMX e zone (ResolveAddress e (NS_IP ns)) h = (x, h1)" by fastforce
    note Q = queryMX_spec [OF x]
    note p = extends_prefix [OF Q(1)]
    show ?thesis
    proof (cases x)
      case (Inr mxs)
      then have eq: "ip = NS_IP ns" "out = Inr mxs" "h' = h1" using Cons.prems False x by auto
      moreover have "mx_outcome e zone h h' (NS_IP ns # mx_asked nss) ip out"
        unfolding mx_outcome_def eq sum.case
        by (rule exI [of _ "[]"]) (use Q(2) Inr in auto)
      ultimately show ?thesis using Q(1) by (auto simp: asked intro: extends_mono)
    next
      case (Inl err)
      then have loop: "mx_failover e zone nss (NS_IP ns) (Inl err) h1 = (ip, out, h')"
        using Cons.prems False x by simp
      note IH = Cons.IH [OF loop]
      then have p': "prefix h1 h'" using extends_prefix by blast
      have ext: "extends (2 * length (NS_IP ns # mx_asked nss)) h h'"
        by (rule extends_step [OF Q(1)]) (use IH in auto)
      have ans: "mx_answers e zone h h' = mx_answers e zone h1 h'"
        using mx_answers_split [OF p p'] Q(2) Inl by simp
      have failed: "NS_IP ns \<in> mx_failed e zone h h'" "mx_failed e zone h1 h' \<subseteq> mx_failed e zone h h'"
        using x Inl p' mx_failed_mono [OF p, of h' h'] by (auto simp: mx_failed_def)
      have "mx_outcome e zone h h' (NS_IP ns # mx_asked nss) ip out"
      proof (cases "mx_asked nss = []")
        case True
        then show ?thesis using IH Q(2) Inl failed ans by (auto simp: mx_outcome_def mx_answers_def)
      next
        case nonempty: False
        then have "mx_outcome e zone h1 h' (mx_asked nss) ip out" using IH by simp
        then show ?thesis
        proof (cases out)
          case (Inr mxs)
          then obtain pre post r where "mx_asked nss = pre @ ip # post" "set pre \<subseteq> mx_failed e zone h1 h'"
              "mx_answers e zone h1 h' = {(ResolveAddress e ip, r)}" "mxs = mx_records e r"
            using \<open>mx_outcome e zone h1 h' (mx_asked nss) ip out\<close> by (auto simp: mx_outcome_def)
          then show ?thesis
            unfolding mx_outcome_def Inr sum.case ans
            by (intro exI [of _ "NS_IP ns # pre"] exI [of _ post] exI [of _ r]) (use failed in auto)
        qed (use failed nonempty in \<open>auto simp: mx_outcome_def ans\<close>)
      qed
      with ext show ?thesis by (simp add: asked)
    qed
  qed
qed

section \<open>One validity result per target\<close>

definition is_info :: "ProbeResult \<Rightarrow> bool" where
  "is_info r \<longleftrightarrow> map_of (Labels r) ''priority'' \<noteq> None"

text \<open>\<open>v\<close> is the outcome of a run of \<open>check\<close> between \<open>h\<close> and \<open>h'\<close>.\<close>

definition checked :: "(history \<Rightarrow> (bool \<times> history) option) \<Rightarrow> history \<Rightarrow> history \<Rightarrow> bool \<Rightarrow> bool" where
  "checked check h h' v \<longleftrightarrow> (\<exists>k k'. prefix h k \<and> check k = Some (v, k') \<and> prefix k' h')"

lemma checked_mono: "checked check h1 h2 v \<Longrightarrow> prefix h h1 \<Longrightarrow> prefix h2 h' \<Longrightarrow> checked check h h' v"
  unfolding checked_def using prefix_order.trans [of h h1] prefix_order.trans [of _ h2 h'] by blast

definition mx_valid_result :: "penv \<Rightarrow> string \<Rightarrow> history \<Rightarrow> history \<Rightarrow> string \<Rightarrow> ProbeResult \<Rightarrow> bool" where
  "mx_valid_result e zone h h' target r \<longleftrightarrow>
     (if target = ''.'' then r = mx_validity zone target [(''mx_syntax_valid'', 1)]
      else \<exists>resolves cname. r = mx_validity zone target (mx_checks target resolves cname) \<and>
        checked (hostname_resolves e target) h h' resolves \<and> checked (name_is_cname e target) h h' cname)"

lemma mx_valid_result_mono:
  assumes "mx_valid_result e zone h1 h2 target r" and "prefix h h1" and "prefix h2 h'"
  shows "mx_valid_result e zone h h' target r"
  using assms(1) checked_mono [OF _ assms(2,3)] unfolding mx_valid_result_def by (auto split: if_splits)

definition caches_within :: "mx_caches \<Rightarrow> string list \<Rightarrow> bool" where
  "caches_within c emitted \<longleftrightarrow> dom (resolvesCache c) \<union> dom (cnameCache c) \<subseteq> set emitted"

lemma mx_validate_None: "mx_validate e zone target c h = None \<Longrightarrow> RootServers e = []"
  by (auto simp: mx_validate_def cached_check_def split: if_splits option.splits
      dest: hostname_resolves_None [THEN iffD1] name_is_cname_None [THEN iffD1])

lemma name_is_cname_prefix [hist_grow]: "name_is_cname e name h = Some (v, h') \<Longrightarrow> prefix h h'"
  using name_is_cname_extends extends_prefix by blast

lemma mx_validate_spec:
  assumes "mx_validate e zone target c h = Some (r, c', h')"
    and "caches_within c emitted" and "target \<notin> set emitted"
  shows "prefix h h'" and "caches_within c' (target # emitted)" and "mx_valid_result e zone h h' target r"
proof -
  have "prefix h h' \<and> caches_within c' (target # emitted) \<and> mx_valid_result e zone h h' target r"
  proof (cases "target = ''.''")
    case True
    with assms show ?thesis by (auto simp: mx_validate_def mx_valid_result_def caches_within_def)
  next
    case False
    have miss: "resolvesCache c target = None" "cnameCache c target = None"
      using assms(2,3) by (auto simp: caches_within_def)
    obtain v h1 w where v: "hostname_resolves e target h = Some (v, h1)"
      and w: "name_is_cname e target h1 = Some (w, h')"
      and r: "r = mx_validity zone target (mx_checks target v w)"
      and c': "c' = \<lparr>resolvesCache = (resolvesCache c)(target \<mapsto> v), cnameCache = (cnameCache c)(target \<mapsto> w)\<rparr>"
      using assms(1) False miss by (auto simp: mx_validate_def cached_check_def split: option.splits)
    note p = hostname_resolves_prefix [OF v] name_is_cname_prefix [OF w]
    have "checked (hostname_resolves e target) h h' v" "checked (name_is_cname e target) h h' w"
      unfolding checked_def using v w p by blast+
    moreover have "caches_within c' (target # emitted)"
      using assms(2) by (auto simp: caches_within_def c')
    ultimately show ?thesis
      using False r prefix_order.trans [OF p] by (auto simp: mx_valid_result_def)
  qed
  then show "prefix h h'" and "caches_within c' (target # emitted)" and "mx_valid_result e zone h h' target r"
    by blast+
qed

fun new_targets :: "string list \<Rightarrow> string list \<Rightarrow> string list" where
  "new_targets seen [] = []"
| "new_targets seen (t # ts) = (if t \<in> set seen then new_targets seen ts else t # new_targets (t # seen) ts)"

lemma new_targets_spec: "distinct (new_targets seen ts) \<and> set (new_targets seen ts) = set ts - set seen"
  by (induction seen ts rule: new_targets.induct) auto

lemma mx_sel [simp]:
  "is_info (mx_info zone t p)" "\<not> is_info (mx_validity zone t ms)"
  "Zone (mx_info zone t p) = zone" "Zone (mx_validity zone t ms) = zone"
  "Check (mx_info zone t p) = ''mx''" "Check (mx_validity zone t ms) = ''mx''"
  by (simp_all add: is_info_def mx_info_def mx_validity_def zeroResult_def)

lemma mx_valid_not_info: "mx_valid_result e zone h h' t r \<Longrightarrow> \<not> is_info r"
  by (auto simp: mx_valid_result_def split: if_splits)

lemma mx_loop_spec:
  assumes "mx_loop e zone mxs c emitted h = Some (rs, h')" and "caches_within c emitted"
  shows "prefix h h' \<and>
    filter is_info rs = map (\<lambda>(p, mx). mx_info zone (canonName e mx) p) mxs \<and>
    list_all2 (mx_valid_result e zone h h') (new_targets emitted (map (\<lambda>m. canonName e (snd m)) mxs))
      (filter (\<lambda>r. \<not> is_info r) rs)"
  using assms
proof (induction e zone mxs c emitted h arbitrary: rs h' rule: mx_loop.induct)
  case (2 e zone priority mx mxs c emitted h)
  let ?t = "canonName e mx"
  show ?case
  proof (cases "?t \<in> set emitted")
    case True
    then obtain rs1 where loop: "mx_loop e zone mxs c emitted h = Some (rs1, h')"
      and rs: "rs = mx_info zone ?t priority # rs1"
      using "2.prems"(1) by (auto simp: Let_def)
    from "2.IH"(1) [OF refl refl True loop "2.prems"(2)] True show ?thesis by (simp add: rs)
  next
    case False
    then obtain r c1 h1 rs1 where one: "mx_validate e zone ?t c h = Some (r, c1, h1)"
      and loop: "mx_loop e zone mxs c1 (?t # emitted) h1 = Some (rs1, h')"
      and rs: "rs = mx_info zone ?t priority # r # rs1"
      using "2.prems"(1) by (auto simp: Let_def split: option.splits)
    note V = mx_validate_spec [OF one "2.prems"(2) False]
    from "2.IH"(2) [OF refl refl False one refl refl loop V(2)] have
      IH: "prefix h1 h'" "filter is_info rs1 = map (\<lambda>(p, mx). mx_info zone (canonName e mx) p) mxs"
      "list_all2 (mx_valid_result e zone h1 h') (new_targets (?t # emitted) (map (\<lambda>m. canonName e (snd m)) mxs))
        (filter (\<lambda>r. \<not> is_info r) rs1)" by auto
    have "list_all2 (mx_valid_result e zone h h') (new_targets (?t # emitted) (map (\<lambda>m. canonName e (snd m)) mxs))
        (filter (\<lambda>r. \<not> is_info r) rs1)"
      by (rule list_all2_mono [OF IH(3)]) (rule mx_valid_result_mono, use V(1) in auto)
    moreover have "mx_valid_result e zone h h' ?t r"
      by (rule mx_valid_result_mono [OF V(3) _ IH(1)]) simp
    ultimately show ?thesis
      using IH(1,2) False mx_valid_not_info [OF V(3)] prefix_order.trans [OF V(1) IH(1)] by (simp add: rs)
  qed
qed auto

lemma mx_loop_None: "mx_loop e zone mxs c emitted h = None \<Longrightarrow> RootServers e = []"
  by (induction e zone mxs c emitted h rule: mx_loop.induct)
    (auto simp: Let_def dest: mx_validate_None split: option.splits if_splits)

definition no_caches :: mx_caches where
  "no_caches = \<lparr>resolvesCache = Map.empty, cnameCache = Map.empty\<rparr>"

lemma ProbeMX_run:
  assumes "nss \<noteq> []" and "mx_failover e zone nss [] (Inr []) h = (ip, out, h1)"
  shows "ProbeMX e zone nss dlg h = (case out of
     Inl err \<Rightarrow> Some (Inr [mx_failure zone ip err], h1)
   | Inr mxs \<Rightarrow> map_option (\<lambda>(rs, h2). (Inr (mx_query_result zone ip # rs), h2)) (mx_loop e zone mxs no_caches [] h1))"
  using assms by (simp add: ProbeMX_def no_caches_def split: sum.splits)

definition mx_results :: "penv \<Rightarrow> string \<Rightarrow> mx_rr list \<Rightarrow> history \<Rightarrow> history \<Rightarrow> ProbeResult list \<Rightarrow> bool" where
  "mx_results e zone mxs h h' rs \<longleftrightarrow>
     filter is_info rs = map (\<lambda>(p, mx). mx_info zone (canonName e mx) p) mxs \<and>
     (\<exists>targets. distinct targets \<and> set targets = (\<lambda>m. canonName e (snd m)) ` set mxs \<and>
        list_all2 (mx_valid_result e zone h h') targets (filter (\<lambda>r. \<not> is_info r) rs))"

lemma ProbeMX_results:
  assumes "ProbeMX e zone nss dlg h = Some (out, h')"
  shows "prefix h h' \<and> (if nss = [] then out = Inr [] \<and> h' = h
    else case mx_failover e zone nss [] (Inr []) h of
      (ip, Inl err, h1) \<Rightarrow> out = Inr [mx_failure zone ip err] \<and> h' = h1
    | (ip, Inr mxs, h1) \<Rightarrow> \<exists>rs. out = Inr (mx_query_result zone ip # rs) \<and> mx_results e zone mxs h1 h' rs)"
proof (cases "nss = []")
  case True
  with assms show ?thesis by (simp add: ProbeMX_def)
next
  case False
  obtain ip x h1 where f: "mx_failover e zone nss [] (Inr []) h = (ip, x, h1)" by (metis prod_cases3)
  note run = ProbeMX_run [OF False f, of dlg]
  have p: "prefix h h1" using mx_failover_spec [OF f] extends_prefix by blast
  show ?thesis
  proof (cases x)
    case (Inl err)
    with assms False f run p show ?thesis by auto
  next
    case (Inr mxs)
    then obtain rs where loop: "mx_loop e zone mxs no_caches [] h1 = Some (rs, h')"
      and out: "out = Inr (mx_query_result zone ip # rs)"
      using assms run by auto
    have "caches_within no_caches []" by (simp add: caches_within_def no_caches_def)
    note L = mx_loop_spec [OF loop this] and T = new_targets_spec [of "[]" "map (\<lambda>m. canonName e (snd m)) mxs"]
    have "mx_results e zone mxs h1 h' rs" unfolding mx_results_def using L T by auto
    then show ?thesis using False f Inr out prefix_order.trans [OF p] L by auto
  qed
qed

lemma mx_results_labels:
  assumes "mx_results e zone mxs h h' rs" and "r \<in> set rs"
  shows "Zone r = zone \<and> Check r = ''mx''"
proof (cases "is_info r")
  case True
  then have "r \<in> set (filter is_info rs)" using assms(2) by simp
  with assms(1) show ?thesis by (auto simp: mx_results_def)
next
  case False
  then have "r \<in> set (filter (\<lambda>r. \<not> is_info r) rs)" using assms(2) by simp
  with assms(1) obtain t where "mx_valid_result e zone h h' t r"
    unfolding mx_results_def by (blast elim: list_all2_in)
  then show ?thesis by (auto simp: mx_valid_result_def split: if_splits)
qed

interpretation mx: prober "''mx''" ProbeMX
proof
  fix e zone nss dlg h out h' assume "ProbeMX e zone nss dlg h = Some (out, h')"
  note R = ProbeMX_results [OF this]
  show "\<exists>rs. out = Inr rs" using R by (auto split: if_splits prod.splits sum.splits)
  show "prefix h h'" using R by blast
next
  fix e zone nss dlg h rs h' r
  assume "ProbeMX e zone nss dlg h = Some (Inr rs, h')" and "r \<in> set rs"
  with ProbeMX_results [OF this(1)] mx_results_labels show "Zone r = zone \<and> Check r = ''mx''"
    by (fastforce simp: mx_failure_def mx_query_result_def zeroResult_def split: if_splits prod.splits sum.splits)
next
  fix e zone nss dlg h assume "RootServers (e :: penv) \<noteq> []"
  then show "ProbeMX e zone nss dlg h \<noteq> None"
    using mx_loop_None by (fastforce simp: ProbeMX_def split: prod.splits sum.splits)
qed

section \<open>Properties\<close>

text \<open>Failover of the MX question. Nameservers without an address are skipped; the others are asked
  in order until one answers, at most two exchanges each. Success names the first one that answered,
  all before it having failed, and carries the records of its answer; failure means every one failed
  and names the last. Without any address nothing is asked and the outcome is an empty success.\<close>

lemma mx_failover_order:
  "case mx_failover e zone nss [] (Inr []) h of
     (ip, out, h') \<Rightarrow> (let asked = filter (\<lambda>ip. ip \<noteq> []) (map NS_IP nss) in
       extends (2 * length asked) h h' \<and>
       (if asked = [] then ip = [] \<and> out = Inr [] \<and> h' = h else mx_outcome e zone h h' asked ip out))"
proof (cases "mx_failover e zone nss [] (Inr []) h")
  case (fields ip out h')
  from mx_failover_spec [OF this] show ?thesis
    unfolding fields prod.case Let_def mx_asked_def by simp
qed

text \<open>C9: the results of the MX prober. After a failed question the only result is the failure; after an
  answered one come a success for the question, an information result for every MX record in order with
  its priority, and exactly one validity result per distinct target, with the verdicts of a resolution
  and a CNAME walk of that target, or none of these checks for the null MX.\<close>

theorem mx_results_complete:
  "case ProbeMX e zone nss dlg h of
     None \<Rightarrow> RootServers e = []
   | Some (out, h') \<Rightarrow> (if nss = [] then out = Inr [] \<and> h' = h
       else case mx_failover e zone nss [] (Inr []) h of
         (ip, Inl err, h1) \<Rightarrow> out = Inr [mx_failure zone ip err] \<and> h' = h1
       | (ip, Inr mxs, h1) \<Rightarrow> \<exists>rs. out = Inr (mx_query_result zone ip # rs) \<and> mx_results e zone mxs h1 h' rs)"
proof (cases "ProbeMX e zone nss dlg h")
  case None
  then show ?thesis using mx.no_panic [of e zone nss dlg h] by auto
next
  case (Some y)
  obtain out h' where y: "y = (out, h')" by fastforce
  show ?thesis
    unfolding Some y option.case prod.case by (rule ProbeMX_results [OF Some [unfolded y], THEN conjunct2])
qed

text \<open>The priority label loses nothing and sorts right: parsing the zero-padded label gives the 16-bit
  preference back, and labels compare as strings exactly as the preferences do as numbers.\<close>

lemma mx_priority_label:
  "case (map_of (Labels (mx_info zone t p)) ''priority'', map_of (Labels (mx_info zone u q)) ''priority'') of
     (Some a, Some b) \<Rightarrow> ParseDigits a = Some (unat p) \<and> (a < b \<longleftrightarrow> p < q)
   | _ \<Rightarrow> False"
proof -
  have bound: "unat w < 100000" for w :: "16 word"
    using unsigned_less [of w, where ?'a = nat] by simp
  then show ?thesis
    by (simp add: ParseDigits_Sprintf05d Sprintf05d_less mx_info_def word_less_nat_alt)
qed

end
