(* ===== verification/Spf.thy ===== *)
theory Spf
  imports Prelude
begin

text \<open>
  The SPF parser, \<^verbatim>\<open>prober/spf.go\<close>: which TXT records are SPF records, the terminal
  \<^verbatim>\<open>all\<close> qualifier, the narrow malformed check, and the classification of the terms of a
  record for the lookup counter (theory \<open>Spf_Lookup\<close>).
\<close>

section \<open>The parser\<close>

definition spf_tok :: string where
  "spf_tok = ''v=spf1''"

definition isSPFRecord :: "string \<Rightarrow> bool" where
  "isSPFRecord record =
     (let r = TrimSpace record in
      if length r < length spf_tok \<or> \<not> EqualFold (take (length spf_tok) r) spf_tok then False
      else (case drop (length spf_tok) r of
              [] \<Rightarrow> True
            | c # _ \<Rightarrow> c = CHR '' '' \<or> c = CHR 0x09))"

fun terminalAllQualifier_loop :: "string \<Rightarrow> string list \<Rightarrow> string" where
  "terminalAllQualifier_loop qualifier [] = qualifier"
| "terminalAllQualifier_loop qualifier (f # fs) =
     (let l = ToLower f in
      if l = ''all'' \<or> l = ''+all'' then terminalAllQualifier_loop ''pass'' fs
      else if l = ''-all'' then terminalAllQualifier_loop ''fail'' fs
      else if l = ''~all'' then terminalAllQualifier_loop ''softfail'' fs
      else if l = ''?all'' then terminalAllQualifier_loop ''neutral'' fs
      else terminalAllQualifier_loop qualifier fs)"

definition terminalAllQualifier :: "string \<Rightarrow> string" where
  "terminalAllQualifier record = terminalAllQualifier_loop ''none'' (Fields record)"

definition is_qualifier_char :: "char \<Rightarrow> bool" where
  "is_qualifier_char c \<longleftrightarrow> c \<in> set ''+-~?''"

text \<open>The loop of \<open>spfMalformed\<close> over the terms after the version token.\<close>

fun spfMalformed_loop :: "string list \<Rightarrow> bool" where
  "spfMalformed_loop [] = False"
| "spfMalformed_loop (f # fs) =
     (let stripped = (f \<noteq> [] \<and> is_qualifier_char (hd f));
          body = (if stripped then tl f else f) in
      if stripped \<and> body = [] then True
      else let lower = ToLower body in
        if lower = ''include:'' \<or> lower = ''redirect='' then True
        else spfMalformed_loop fs)"

definition spfMalformed :: "string \<Rightarrow> bool" where
  "spfMalformed record =
     (case Fields record of
        [] \<Rightarrow> True
      | _ # fields \<Rightarrow> spfMalformed_loop fields)"

record spfResult =
  spf_present :: bool
  spf_recordCount :: nat
  spf_valid :: bool
  spf_qualifier :: string
  spf_raw :: string
  spf_records :: "string list"

definition analyzeSPF :: "string list \<Rightarrow> spfResult" where
  "analyzeSPF records =
     (let spf = map TrimSpace (filter isSPFRecord records);
          res = \<lparr>spf_present = False, spf_recordCount = length spf, spf_valid = False,
                 spf_qualifier = [], spf_raw = [], spf_records = []\<rparr> in
      case spf of
        [] \<Rightarrow> res
      | [rec] \<Rightarrow> res\<lparr>spf_present := True, spf_records := spf, spf_raw := rec,
                    spf_valid := \<not> spfMalformed rec,
                    spf_qualifier := terminalAllQualifier rec\<rparr>
      | _ \<Rightarrow> res\<lparr>spf_present := True, spf_records := spf\<rparr>)"

datatype spfMechKind =
  MechOther | MechAll | MechInclude | MechRedirect | MechA | MechMX | MechPTR | MechExists

record spfMechanism =
  mech_kind :: spfMechKind
  mech_target :: string
  mech_hasMacro :: bool

definition plain_mech :: "spfMechKind \<Rightarrow> spfMechanism" where
  "plain_mech k = \<lparr>mech_kind = k, mech_target = [], mech_hasMacro = False\<rparr>"

definition target_mech :: "spfMechKind \<Rightarrow> string \<Rightarrow> spfMechanism" where
  "target_mech k target = \<lparr>mech_kind = k, mech_target = target, mech_hasMacro = Contains target ''%{''\<rparr>"

text \<open>The switch of \<open>parseSPFMechanisms\<close> over a term without its qualifier.\<close>

definition classifySPFBody :: "string \<Rightarrow> string \<Rightarrow> spfMechanism" where
  "classifySPFBody body lower =
     (if lower = ''all'' then plain_mech MechAll
      else if HasPrefix lower ''include:'' then target_mech MechInclude (drop (length ''include:'') body)
      else if HasPrefix lower ''redirect='' then target_mech MechRedirect (drop (length ''redirect='') body)
      else if lower = ''a'' \<or> HasPrefix lower ''a:'' \<or> HasPrefix lower ''a/'' then plain_mech MechA
      else if lower = ''mx'' \<or> HasPrefix lower ''mx:'' \<or> HasPrefix lower ''mx/'' then plain_mech MechMX
      else if lower = ''ptr'' \<or> HasPrefix lower ''ptr:'' then plain_mech MechPTR
      else if HasPrefix lower ''exists:'' then plain_mech MechExists
      else plain_mech MechOther)"

definition classifySPFTerm :: "string \<Rightarrow> spfMechanism" where
  "classifySPFTerm f =
     (let body = (if f \<noteq> [] \<and> is_qualifier_char (hd f) then tl f else f)
      in classifySPFBody body (ToLower body))"

definition parseSPFMechanisms :: "string \<Rightarrow> spfMechanism list \<times> bool" where
  "parseSPFMechanisms record =
     (let mechs = map classifySPFTerm (filter (\<lambda>f. \<not> EqualFold f ''v=spf1'') (Fields record)) in
      (mechs, \<exists>m \<in> set mechs. mech_kind m = MechAll))"

section \<open>The terminal qualifier\<close>

definition all_qualifier :: "string \<Rightarrow> string option" where
  "all_qualifier f =
     (let l = ToLower f in
      if l = ''all'' \<or> l = ''+all'' then Some ''pass''
      else if l = ''-all'' then Some ''fail''
      else if l = ''~all'' then Some ''softfail''
      else if l = ''?all'' then Some ''neutral''
      else None)"

lemma terminalAllQualifier_loop_step:
  "terminalAllQualifier_loop q (f # fs) =
     terminalAllQualifier_loop (case all_qualifier f of None \<Rightarrow> q | Some l \<Rightarrow> l) fs"
  by (simp add: all_qualifier_def Let_def)

lemma terminalAllQualifier_loop_last:
  "terminalAllQualifier_loop q fs =
     (case rev (List.map_filter all_qualifier fs) of [] \<Rightarrow> q | l # _ \<Rightarrow> l)"
proof (induction fs arbitrary: q)
  case (Cons f fs)
  then show ?case
    by (cases "all_qualifier f")
      (simp_all add: terminalAllQualifier_loop_step List.map_filter_simps split: list.splits
        del: terminalAllQualifier_loop.simps)
qed (simp add: List.map_filter_simps)

lemma qual_char_lower: "is_qualifier_char c \<Longrightarrow> char_lower c = c"
  by (auto simp: is_qualifier_char_def char_lower_def)

lemma char_lower_qual: "is_qualifier_char d \<Longrightarrow> char_lower c = d \<longleftrightarrow> c = d"
  using char_lower_other [of c d] qual_char_lower [of d] by (auto simp: is_qualifier_char_def)

lemma all_qualifier_Cons:
  "all_qualifier (c # cs) \<noteq> None \<longleftrightarrow>
     is_qualifier_char c \<and> ToLower cs = ''all'' \<or> ToLower (c # cs) = ''all''"
proof -
  have "all_qualifier (c # cs) \<noteq> None \<longleftrightarrow>
      ToLower (c # cs) \<in> {''all'', ''+all'', ''-all'', ''~all'', ''?all''}"
    unfolding all_qualifier_def Let_def by simp
  moreover have "ToLower (c # cs) = d # ''all'' \<longleftrightarrow> c = d \<and> ToLower cs = ''all''"
    if "is_qualifier_char d" for d using char_lower_qual [OF that] by auto
  ultimately show ?thesis by (auto simp: is_qualifier_char_def)
qed

lemma classifySPFBody_all: "mech_kind (classifySPFBody body lower) = MechAll \<longleftrightarrow> lower = ''all''"
  by (simp add: classifySPFBody_def plain_mech_def target_mech_def)

lemma classify_all:
  "mech_kind (classifySPFTerm f) = MechAll \<longleftrightarrow> all_qualifier f \<noteq> None"
proof (cases f)
  case (Cons c cs)
  have k: "mech_kind (classifySPFTerm (c # cs)) = MechAll \<longleftrightarrow>
      ToLower (if is_qualifier_char c then cs else c # cs) = ''all''"
    by (simp add: classifySPFTerm_def Let_def classifySPFBody_all)
  have "ToLower (c # cs) \<noteq> ''all''" if "is_qualifier_char c"
    using qual_char_lower [OF that] that by (auto simp: is_qualifier_char_def)
  then show ?thesis unfolding Cons k all_qualifier_Cons by auto
qed (simp add: classifySPFTerm_def Let_def classifySPFBody_all all_qualifier_def)

lemma hasAll_iff:
  "snd (parseSPFMechanisms record) \<longleftrightarrow> (\<exists>f \<in> set (Fields record). all_qualifier f \<noteq> None)"
proof -
  have "all_qualifier f = None" if "EqualFold f ''v=spf1''" for f
  proof -
    have "ToLower f = ToLower ''v=spf1''" using that by (simp add: EqualFold_def)
    also have "\<dots> = ''v=spf1''" by code_simp
    finally show ?thesis by (simp add: all_qualifier_def)
  qed
  then show ?thesis
    by (auto simp: parseSPFMechanisms_def Let_def classify_all)
qed

text \<open>The two recognisers of the \<^verbatim>\<open>all\<close> mechanism agree: \<open>terminalAllQualifier\<close> (which
  compares whole lower-cased terms) finds a qualifier exactly when \<open>parseSPFMechanisms\<close>
  (which strips a qualifier character first) reports an \<^verbatim>\<open>all\<close>, on every record.\<close>

lemma spf_all_recognisers_agree:
  "terminalAllQualifier record \<noteq> ''none'' \<longleftrightarrow> snd (parseSPFMechanisms record)"
proof -
  have "l \<noteq> ''none''" if "all_qualifier f = Some l" for f l
    using that by (auto simp: all_qualifier_def Let_def split: if_splits)
  then have n: "''none'' \<notin> set (List.map_filter all_qualifier (Fields record))"
    by (fastforce simp: List.map_filter_def)
  have "terminalAllQualifier record = ''none'' \<longleftrightarrow> List.map_filter all_qualifier (Fields record) = []"
    using n by (cases "List.map_filter all_qualifier (Fields record)" rule: rev_cases)
      (auto simp: terminalAllQualifier_def terminalAllQualifier_loop_last)
  then show ?thesis
    by (auto simp: hasAll_iff List.map_filter_def filter_empty_conv)
qed

lemma classifySPFBody_target:
  assumes "mech_kind (classifySPFBody body lower) \<in> {MechInclude, MechRedirect}"
    and "mech_target (classifySPFBody body lower) = []" and "lower = ToLower body"
  shows "lower = ''include:'' \<or> lower = ''redirect=''"
proof -
  have p: "lower = p" if "HasPrefix lower p" "length body \<le> length p" for p
    using that assms(3) by (simp add: HasPrefix_def)
  show ?thesis using assms(1,2)
    by (auto simp: classifySPFBody_def plain_mech_def target_mech_def split: if_splits intro: p)
qed

lemma spfMalformed_loop_iff:
  "(\<forall>f \<in> set fs. f \<noteq> []) \<Longrightarrow> spfMalformed_loop fs \<longleftrightarrow>
     (\<exists>f \<in> set fs. length f = 1 \<and> is_qualifier_char (hd f) \<or>
        ToLower (if is_qualifier_char (hd f) then tl f else f) \<in> {''include:'', ''redirect=''})"
proof (induction fs)
  case (Cons f fs)
  then obtain c cs where "f = c # cs" by (cases f) auto
  with Cons show ?case by (auto simp: Let_def)
qed simp

lemma not_malformed_target:
  assumes "\<not> spfMalformed_loop fs" and "\<forall>f \<in> set fs. f \<noteq> []" and "f \<in> set fs"
    and "mech_kind (classifySPFTerm f) \<in> {MechInclude, MechRedirect}"
  shows "mech_target (classifySPFTerm f) \<noteq> []"
proof
  define body where "body = (if f \<noteq> [] \<and> is_qualifier_char (hd f) then tl f else f)"
  assume "mech_target (classifySPFTerm f) = []"
  then have "ToLower body = ''include:'' \<or> ToLower body = ''redirect=''"
    using assms(4) classifySPFBody_target [of body "ToLower body"]
    by (simp add: classifySPFTerm_def Let_def body_def)
  moreover have "f \<noteq> []" using assms(2,3) by blast
  ultimately have "spfMalformed_loop fs"
    unfolding spfMalformed_loop_iff [OF assms(2)]
    by (intro bexI [OF _ assms(3)] disjI2) (simp add: body_def)
  with assms(1) show False ..
qed

lemma isSPFRecord_iff:
  "isSPFRecord record \<longleftrightarrow> length spf_tok \<le> length (TrimSpace record) \<and>
     EqualFold (take (length spf_tok) (TrimSpace record)) spf_tok \<and>
     (let r = drop (length spf_tok) (TrimSpace record) in r = [] \<or> hd r \<in> {CHR '' '', CHR 0x09})"
  by (simp add: isSPFRecord_def Let_def not_less split: list.split) fastforce

lemma isSPFRecord_first_field:
  assumes "isSPFRecord record"
  shows "EqualFold (hd (Fields record)) spf_tok"
proof -
  define t where "t = TrimSpace record"
  define w where "w = take (length spf_tok) t"
  define r where "r = drop (length spf_tok) t"
  have w: "length spf_tok \<le> length t" "EqualFold w spf_tok"
    and r0: "r = [] \<or> hd r \<in> {CHR '' '', CHR 0x09}"
    using assms by (simp_all only: isSPFRecord_iff Let_def t_def w_def r_def)
  have r: "r = [] \<or> is_space (hd r)"
    using r0 by (elim disjE insertE) (simp_all add: is_space_def)
  obtain sp where sp: "dropWhile is_space record = t @ sp" "\<forall>c \<in> set sp. is_space c"
    unfolding t_def by (rule TrimSpace_tail)
  have "ToLower spf_tok = ''v=spf1''" by code_simp
  then have "\<forall>c \<in> set w. \<not> is_space c"
    using w(2) by - (rule ToLower_no_space, simp add: EqualFold_def is_space_def)
  moreover have "w \<noteq> []" using w(1) by (auto simp: w_def spf_tok_def)
  moreover have "r @ sp = [] \<or> is_space (hd (r @ sp))" using r sp(2) by (cases r; cases sp) auto
  ultimately have "Fields (w @ r @ sp) = w # Fields (r @ sp)" by (intro Fields_word)
  moreover have "Fields record = Fields (w @ r @ sp)"
    using sp(1) Fields_dropWhile [of "record"] append_take_drop_id [of "length spf_tok" t]
    unfolding w_def r_def by (metis append_assoc)
  ultimately show ?thesis using w(2) by simp
qed

text \<open>An SPF record the malformed check accepts has a target in each of its include and
  redirect terms, so the lookup counter never asks the resolver for the empty name on
  behalf of the zone's own record.\<close>

lemma spf_valid_targets_nonempty:
  assumes "isSPFRecord record" and "\<not> spfMalformed record"
    and "m \<in> set (fst (parseSPFMechanisms record))" and "mech_kind m \<in> {MechInclude, MechRedirect}"
  shows "mech_target m \<noteq> []"
proof -
  obtain f fs where F: "Fields record = f # fs" "\<not> spfMalformed_loop fs"
    using assms(2) by (auto simp: spfMalformed_def split: list.splits)
  then have "m \<in> classifySPFTerm ` set fs"
    using assms(3) isSPFRecord_first_field [OF assms(1)]
    by (auto simp: parseSPFMechanisms_def Let_def spf_tok_def)
  moreover have "\<forall>f \<in> set fs. f \<noteq> []"
    using F(1) Fields_nonempty [of _ "record"] by auto
  ultimately show ?thesis using not_malformed_target [OF F(2)] assms(4) by blast
qed

text \<open>
  The comment on \<open>terminalAllQualifier\<close> justifies "the last \<^verbatim>\<open>all\<close> wins" by the
  short-circuit of RFC 7208; short-circuiting makes the first one effective. A record with
  two reports the qualifier of the second.
\<close>

lemma terminalAllQualifier_last_wins: "terminalAllQualifier ''v=spf1 -all +all'' = ''pass''"
  by code_simp

end
