(* ===== verification/Spf_Lookup.thy ===== *)
theory Spf_Lookup
  imports Spf
begin

text \<open>
  The SPF lookup-budget counter, \<^verbatim>\<open>prober/spf_lookup.go\<close>. The injected fetch function may
  act on the world (in production it queries DNS), so it is a parameter of type
  \<open>string \<Rightarrow> 'w \<Rightarrow> string option \<times> 'w\<close>; the pure fetch of the tests is the case where it
  returns the world unchanged. The recursion needs no fuel: the depth guard of the code is
  its termination measure. The specification it is compared with, \<open>spf_evaluates\<close>, is the
  full expansion of a record through its include and redirect targets.
\<close>

section \<open>The lookup-budget counter\<close>

definition spfMaxLookups :: nat where
  "spfMaxLookups = 10"

definition spfMaxDepth :: nat where
  "spfMaxDepth = 20"

record 'w spfCounter =
  ctr_visited :: "string list"
  ctr_count :: nat
  ctr_complete :: bool
  ctr_world :: 'w

definition spf_over :: "'w spfCounter \<Rightarrow> bool" where
  "spf_over c \<longleftrightarrow> ctr_count c > spfMaxLookups"

definition spf_tick :: "'w spfCounter \<Rightarrow> 'w spfCounter" where
  "spf_tick c = c\<lparr>ctr_count := Suc (ctr_count c)\<rparr>"

text \<open>
  The loop of \<open>walk\<close> over the mechanisms of one record. The call of \<open>recurse\<close> is the
  parameter \<open>recurse\<close>, tied below.
\<close>

fun spf_walk_loop ::
  "(spfMechanism \<Rightarrow> 'w spfCounter \<Rightarrow> 'w spfCounter) \<Rightarrow> bool \<Rightarrow> spfMechanism list \<Rightarrow>
   'w spfCounter \<Rightarrow> 'w spfCounter" where
  "spf_walk_loop recurse hasAll [] c = c"
| "spf_walk_loop recurse hasAll (m # ms) c =
     (if spf_over c then c
      else if mech_kind m \<in> {MechA, MechMX, MechPTR, MechExists}
      then spf_walk_loop recurse hasAll ms (spf_tick c)
      else if mech_kind m = MechInclude
      then (let c1 = spf_tick c in
            if spf_over c1 then c1 else spf_walk_loop recurse hasAll ms (recurse m c1))
      else if mech_kind m = MechRedirect
      then (if hasAll then spf_walk_loop recurse hasAll ms c
            else let c1 = spf_tick c in
                 if spf_over c1 then c1 else spf_walk_loop recurse hasAll ms (recurse m c1))
      else spf_walk_loop recurse hasAll ms c)"

definition spf_key :: "string \<Rightarrow> string" where
  "spf_key target = ToLower (TrimSuffixDot target)"

function spf_recurse ::
  "(string \<Rightarrow> 'w \<Rightarrow> string option \<times> 'w) \<Rightarrow> nat \<Rightarrow> spfMechanism \<Rightarrow>
   'w spfCounter \<Rightarrow> 'w spfCounter" where
  "spf_recurse fetch depth m c =
     (if mech_hasMacro m then c\<lparr>ctr_complete := False\<rparr>
      else let key = spf_key (mech_target m) in
        if key \<in> set (ctr_visited c) \<or> depth \<ge> spfMaxDepth
        then c\<lparr>ctr_count := spfMaxLookups + 1, ctr_complete := False\<rparr>
        else (case fetch (mech_target m) (ctr_world c) of
                (None, w) \<Rightarrow> c\<lparr>ctr_complete := False, ctr_world := w\<rparr>
              | (Some rec, w) \<Rightarrow>
                  (case parseSPFMechanisms rec of
                     (mechs, hasAll) \<Rightarrow>
                       spf_walk_loop (spf_recurse fetch (Suc depth)) hasAll mechs
                         (c\<lparr>ctr_visited := key # ctr_visited c, ctr_world := w\<rparr>))))"
  by pat_completeness auto
termination
  by (relation "measure (\<lambda>(fetch, depth, m, c). spfMaxDepth - depth)") auto

declare spf_recurse.simps [simp del]

definition spf_walk ::
  "(string \<Rightarrow> 'w \<Rightarrow> string option \<times> 'w) \<Rightarrow> string \<Rightarrow> nat \<Rightarrow> 'w spfCounter \<Rightarrow> 'w spfCounter" where
  "spf_walk fetch record depth c =
     (case parseSPFMechanisms record of
        (mechs, hasAll) \<Rightarrow> spf_walk_loop (spf_recurse fetch depth) hasAll mechs c)"

definition countSPFLookups ::
  "string \<Rightarrow> (string \<Rightarrow> 'w \<Rightarrow> string option \<times> 'w) \<Rightarrow> 'w \<Rightarrow> (nat \<times> bool) \<times> 'w" where
  "countSPFLookups record fetch w =
     (let c = spf_walk fetch record 0
                \<lparr>ctr_visited = [], ctr_count = 0, ctr_complete = True, ctr_world = w\<rparr> in
      if ctr_count c > spfMaxLookups then ((spfMaxLookups + 1, ctr_complete c), ctr_world c)
      else ((ctr_count c, ctr_complete c), ctr_world c))"

section \<open>Monotonicity and the fetch budget\<close>

text \<open>
  The four ways \<open>recurse\<close> returns, as an induction rule over its result: a property of
  the counter is proved once per way, with the hypothesis for the deeper calls.
\<close>

lemma spf_recurse_rule:
  assumes macro: "\<And>depth m c. mech_hasMacro m \<Longrightarrow> P depth m c (c\<lparr>ctr_complete := False\<rparr>)"
    and stop: "\<And>depth m c. \<lbrakk>\<not> mech_hasMacro m;
        spf_key (mech_target m) \<in> set (ctr_visited c) \<or> depth \<ge> spfMaxDepth\<rbrakk> \<Longrightarrow>
        P depth m c (c\<lparr>ctr_count := spfMaxLookups + 1, ctr_complete := False\<rparr>)"
    and miss: "\<And>depth m c w. \<lbrakk>\<not> mech_hasMacro m; fetch (mech_target m) (ctr_world c) = (None, w)\<rbrakk> \<Longrightarrow>
        P depth m c (c\<lparr>ctr_complete := False, ctr_world := w\<rparr>)"
    and expand: "\<And>depth m c rec w mechs hasAll.
        \<lbrakk>\<not> mech_hasMacro m; fetch (mech_target m) (ctr_world c) = (Some rec, w);
         spf_key (mech_target m) \<notin> set (ctr_visited c);
         parseSPFMechanisms rec = (mechs, hasAll);
         \<And>m' c'. P (Suc depth) m' c' (spf_recurse fetch (Suc depth) m' c')\<rbrakk> \<Longrightarrow>
        P depth m c (spf_walk_loop (spf_recurse fetch (Suc depth)) hasAll mechs
          (c\<lparr>ctr_visited := spf_key (mech_target m) # ctr_visited c, ctr_world := w\<rparr>))"
  shows "P depth m c (spf_recurse fetch depth m c)"
proof (induction "spfMaxDepth - depth" arbitrary: depth m c rule: less_induct)
  case less
  let ?key = "spf_key (mech_target m)"
  consider "mech_hasMacro m"
    | "\<not> mech_hasMacro m" "?key \<in> set (ctr_visited c) \<or> depth \<ge> spfMaxDepth"
    | "\<not> mech_hasMacro m" "?key \<notin> set (ctr_visited c)" "depth < spfMaxDepth"
    by fastforce
  then show ?case
  proof cases
    case 1
    then show ?thesis by (subst spf_recurse.simps) (simp add: macro)
  next
    case 2
    then show ?thesis using stop [of m c depth] by (subst spf_recurse.simps) (simp add: Let_def)
  next
    case 3
    obtain r w where fw: "fetch (mech_target m) (ctr_world c) = (r, w)" by fastforce
    show ?thesis
    proof (cases r)
      case None
      with 3 fw show ?thesis by (subst spf_recurse.simps) (simp add: Let_def miss)
    next
      case (Some rec)
      obtain mechs hasAll where p: "parseSPFMechanisms rec = (mechs, hasAll)" by fastforce
      have "P (Suc depth) m' c' (spf_recurse fetch (Suc depth) m' c')" for m' c'
        using 3 by (intro less) auto
      then show ?thesis using 3 fw Some p
        by (subst spf_recurse.simps) (simp add: Let_def expand)
    qed
  qed
qed

definition spf_le :: "'w spfCounter \<Rightarrow> 'w spfCounter \<Rightarrow> bool" where
  "spf_le c c' \<longleftrightarrow> ctr_count c \<le> ctr_count c' \<and> (ctr_complete c' \<longrightarrow> ctr_complete c)"

lemma spf_le_refl [simp, intro]: "spf_le c c"
  by (simp add: spf_le_def)

lemma spf_le_trans: "spf_le a b \<Longrightarrow> spf_le b c \<Longrightarrow> spf_le a c"
  by (auto simp: spf_le_def)

lemma spf_le_tick: "spf_le (spf_tick c) d \<Longrightarrow> spf_le c d"
  by (simp add: spf_le_def spf_tick_def)

lemma spf_walk_loop_le:
  assumes "\<And>m c. \<not> spf_over c \<Longrightarrow> spf_le c (recurse m c)"
  shows "spf_le c (spf_walk_loop recurse hasAll ms c)"
proof (induction ms arbitrary: c)
  case (Cons m ms)
  have "\<not> spf_over (spf_tick c) \<Longrightarrow> spf_le c (spf_walk_loop recurse hasAll ms (recurse m (spf_tick c)))"
    by (rule spf_le_tick) (rule spf_le_trans [OF assms Cons.IH])
  moreover have "spf_le c (spf_walk_loop recurse hasAll ms (spf_tick c))"
    by (rule spf_le_tick) (rule Cons.IH)
  moreover have "spf_le c (spf_tick c)"
    by (rule spf_le_tick) simp
  ultimately show ?case
    using Cons.IH [of c] by (auto simp: Let_def)
qed simp

lemma spf_recurse_le: "\<not> spf_over c \<Longrightarrow> spf_le c (spf_recurse fetch depth m c)"
proof (rule spf_recurse_rule
    [where P = "\<lambda>depth m c c'. \<not> spf_over c \<longrightarrow> spf_le c c'", THEN mp], goal_cases)
  case prems: (4 depth m c rec w mechs hasAll)
  let ?c = "c\<lparr>ctr_visited := spf_key (mech_target m) # ctr_visited c, ctr_world := w\<rparr>"
  have "spf_le ?c (spf_walk_loop (spf_recurse fetch (Suc depth)) hasAll mechs ?c)"
    using prems by (intro spf_walk_loop_le) blast
  then show ?case by (simp add: spf_le_def)
qed (auto simp: spf_le_def spf_over_def)

lemmas spf_loop_le = spf_walk_loop_le [OF spf_recurse_le]

text \<open>The fetch budget: every fetch is paid for by a tick of the counter.\<close>

definition counted :: "(string \<Rightarrow> 'w \<Rightarrow> string option \<times> 'w) \<Rightarrow> string \<Rightarrow> 'w \<times> nat \<Rightarrow> string option \<times> 'w \<times> nat" where
  "counted fetch name s = (case fetch name (fst s) of (r, w) \<Rightarrow> (r, w, Suc (snd s)))"

definition paid :: "(nat \<Rightarrow> 'w \<Rightarrow> bool) \<Rightarrow> nat \<Rightarrow> 'w spfCounter \<Rightarrow> bool" where
  "paid I extra c \<longleftrightarrow>
     (\<exists>n. I n (ctr_world c) \<and> n + extra \<le> ctr_count c \<and> n + extra \<le> spfMaxLookups)"

lemma spf_walk_loop_paid:
  assumes "\<And>m c. paid I 1 c \<Longrightarrow> paid I 0 (recurse m c)"
  shows "paid I 0 c \<Longrightarrow> paid I 0 (spf_walk_loop recurse hasAll ms c)"
proof (induction ms arbitrary: c)
  case (Cons m ms)
  have t: "paid I 0 (spf_tick c)" "\<not> spf_over (spf_tick c) \<Longrightarrow> paid I 1 (spf_tick c)"
    using Cons.prems by (fastforce simp: paid_def spf_tick_def spf_over_def)+
  then show ?case using Cons assms by (auto simp: Let_def)
qed simp

lemma spf_recurse_paid:
  assumes step: "\<And>n w name r w'. I n w \<Longrightarrow> fetch name w = (r, w') \<Longrightarrow> I (Suc n) w'"
  shows "paid I 1 c \<Longrightarrow> paid I 0 (spf_recurse fetch depth m c)"
proof (rule spf_recurse_rule
    [where P = "\<lambda>depth m c c'. paid I 1 c \<longrightarrow> paid I 0 c'", THEN mp], goal_cases)
  case prems: (3 depth m c w)
  then show ?case using step by (fastforce simp: paid_def)
next
  case prems: (4 depth m c rec w mechs hasAll)
  have "paid I 0 (c\<lparr>ctr_visited := spf_key (mech_target m) # ctr_visited c, ctr_world := w\<rparr>)"
    if "paid I 1 c" using that step [OF _ prems(3)] by (fastforce simp: paid_def)
  then show ?case using prems(6) by (blast intro: spf_walk_loop_paid)
qed (fastforce simp: paid_def)+

lemma countSPFLookups_invariant:
  assumes "I 0 w" and "\<And>n w name r w'. I n w \<Longrightarrow> fetch name w = (r, w') \<Longrightarrow> I (Suc n) w'"
  shows "\<exists>n \<le> spfMaxLookups. I n (snd (countSPFLookups record fetch w))"
proof -
  have "paid I 0 (spf_walk fetch record 0
      \<lparr>ctr_visited = [], ctr_count = 0, ctr_complete = True, ctr_world = w\<rparr>)"
    unfolding spf_walk_def
    by (auto split: prod.splits intro!: spf_walk_loop_paid spf_recurse_paid assms(2))
      (use assms(1) in \<open>auto simp: paid_def\<close>)
  then show ?thesis by (auto simp: countSPFLookups_def Let_def paid_def)
qed

lemma countSPFLookups_fetches:
  "snd (snd (countSPFLookups record (counted fetch) (w, 0))) \<le> spfMaxLookups"
proof -
  have "snd v' = Suc n" if "snd v = n" "counted fetch name v = (r, v')" for n v name r v'
    using that by (auto simp: counted_def split: prod.splits)
  from countSPFLookups_invariant [of "\<lambda>n v. snd v = n" "(w, 0)" "counted fetch" "record", OF _ this]
  show ?thesis by auto
qed

section \<open>The specification: full expansion\<close>

text \<open>
  \<open>spf_cost f hasAll ms ks n\<close>: evaluating the mechanisms \<open>ms\<close> of a record, with every
  include and (where the record has no \<^verbatim>\<open>all\<close>) redirect target published as \<open>f\<close> says,
  takes \<open>n\<close> DNS lookups, and \<open>ks\<close> are the targets expanded on the way, in order.
\<close>

inductive spf_cost ::
  "(string \<Rightarrow> string option) \<Rightarrow> bool \<Rightarrow> spfMechanism list \<Rightarrow> string list \<Rightarrow> nat \<Rightarrow> bool"
  for f where
  cost_nil: "spf_cost f hasAll [] [] 0"
| cost_plain: "mech_kind m \<in> {MechA, MechMX, MechPTR, MechExists} \<Longrightarrow> spf_cost f hasAll ms ks n \<Longrightarrow>
     spf_cost f hasAll (m # ms) ks (Suc n)"
| cost_target: "mech_kind m = MechInclude \<or> mech_kind m = MechRedirect \<and> \<not> hasAll \<Longrightarrow>
     \<not> mech_hasMacro m \<Longrightarrow> f (mech_target m) = Some rec \<Longrightarrow>
     parseSPFMechanisms rec = (ms', hasAll') \<Longrightarrow> spf_cost f hasAll' ms' ks' n' \<Longrightarrow>
     spf_cost f hasAll ms ks n \<Longrightarrow>
     spf_cost f hasAll (m # ms) (spf_key (mech_target m) # ks' @ ks) (Suc (n' + n))"
| cost_free: "mech_kind m \<in> {MechOther, MechAll} \<or> mech_kind m = MechRedirect \<and> hasAll \<Longrightarrow>
     spf_cost f hasAll ms ks n \<Longrightarrow> spf_cost f hasAll (m # ms) ks n"

inductive_cases spf_cost_ConsE: "spf_cost f hasAll (m # ms) ks n"
inductive_simps spf_cost_Nil [simp]: "spf_cost f hasAll [] ks n"

definition spf_evaluates :: "(string \<Rightarrow> string option) \<Rightarrow> string \<Rightarrow> string list \<Rightarrow> nat \<Rightarrow> bool" where
  "spf_evaluates f record ks n =
     (case parseSPFMechanisms record of (ms, hasAll) \<Rightarrow> spf_cost f hasAll ms ks n)"

definition pure_fetch :: "(string \<Rightarrow> string option) \<Rightarrow> string \<Rightarrow> 'w \<Rightarrow> string option \<times> 'w" where
  "pure_fetch f name w = (f name, w)"

definition target_cost :: "(string \<Rightarrow> string option) \<Rightarrow> spfMechanism \<Rightarrow> nat \<Rightarrow> bool" where
  "target_cost f m n \<longleftrightarrow> \<not> mech_hasMacro m \<and>
     (\<exists>rec ks. f (mech_target m) = Some rec \<and> spf_evaluates f rec ks n)"

text \<open>What a completed step from \<open>c\<close> to \<open>c'\<close> says about the true cost \<open>n\<close>.\<close>

definition agrees :: "'w spfCounter \<Rightarrow> 'w spfCounter \<Rightarrow> nat \<Rightarrow> bool" where
  "agrees c c' n \<longleftrightarrow>
     (if spf_over c' then ctr_count c + n > spfMaxLookups else ctr_count c' = ctr_count c + n)"

lemma spf_walk_loop_over: "spf_over c \<Longrightarrow> spf_walk_loop recurse hasAll ms c = c"
  by (cases ms) auto

lemma spf_walk_loop_sound:
  assumes le: "\<And>m c. \<not> spf_over c \<Longrightarrow> spf_le c (recurse m c)"
    and rec: "\<And>m c n. \<lbrakk>\<not> spf_over c; ctr_complete (recurse m c); target_cost f m n\<rbrakk> \<Longrightarrow>
       agrees c (recurse m c) n"
  shows "\<lbrakk>spf_cost f hasAll ms ks n; ctr_complete (spf_walk_loop recurse hasAll ms c)\<rbrakk> \<Longrightarrow>
    agrees c (spf_walk_loop recurse hasAll ms c) n"
proof (induction hasAll ms ks n arbitrary: c rule: spf_cost.induct)
  case (cost_target m hasAll rec' ms' hasAll' ks' n' ms ks n)
  let ?c1 = "spf_tick c" let ?c2 = "recurse m ?c1" let ?c3 = "spf_walk_loop recurse hasAll ms ?c2"
  show ?case
  proof (cases "spf_over ?c1")
    case True
    with cost_target.hyps show ?thesis
      by (auto simp: agrees_def spf_over_def spf_tick_def Let_def)
  next
    case False
    with cost_target have c3: "spf_walk_loop recurse hasAll (m # ms) c = ?c3" "ctr_complete ?c3"
      by (auto simp: spf_over_def spf_tick_def Let_def)
    then have c2: "ctr_complete ?c2"
      using spf_walk_loop_le [of recurse ?c2 hasAll ms, OF le] by (auto simp: spf_le_def)
    have "target_cost f m n'"
      using cost_target.hyps by (auto simp: target_cost_def spf_evaluates_def)
    with False c2 have a1: "agrees ?c1 ?c2 n'" by (rule rec)
    have a2: "agrees ?c2 ?c3 n" using c3 by (intro cost_target.IH)
    show ?thesis
      using a1 a2 unfolding c3(1)
      by (cases "spf_over ?c2") (auto simp: agrees_def spf_walk_loop_over spf_tick_def split: if_splits)
  qed
next
  case (cost_plain m hasAll ms ks n)
  show ?case
  proof (cases "spf_over c")
    case True
    then show ?thesis by (simp add: spf_walk_loop_over agrees_def spf_over_def)
  next
    case False
    with cost_plain have "agrees (spf_tick c) (spf_walk_loop recurse hasAll (m # ms) c) n" by auto
    then show ?thesis by (auto simp: agrees_def spf_tick_def split: if_splits)
  qed
next
  case (cost_free m hasAll ms ks n)
  show ?case
  proof (cases "spf_over c")
    case True
    then show ?thesis by (simp add: spf_walk_loop_over agrees_def spf_over_def)
  next
    case False
    then have eq: "spf_walk_loop recurse hasAll (m # ms) c = spf_walk_loop recurse hasAll ms c"
      using cost_free.hyps(1) by auto
    show ?thesis unfolding eq by (rule cost_free.IH) (use cost_free.prems eq in simp)
  qed
qed (auto simp: agrees_def spf_over_def)

lemma spf_recurse_sound:
  "\<lbrakk>\<not> spf_over c; ctr_complete (spf_recurse (pure_fetch f) depth m c); target_cost f m n\<rbrakk> \<Longrightarrow>
    agrees c (spf_recurse (pure_fetch f) depth m c) n"
proof -
  have "\<forall>n. \<not> spf_over c \<longrightarrow> ctr_complete (spf_recurse (pure_fetch f) depth m c) \<longrightarrow>
      target_cost f m n \<longrightarrow> agrees c (spf_recurse (pure_fetch f) depth m c) n"
  proof (rule spf_recurse_rule [where P = "\<lambda>depth m c c'. \<forall>n. \<not> spf_over c \<longrightarrow>
        ctr_complete c' \<longrightarrow> target_cost f m n \<longrightarrow> agrees c c' n"], goal_cases)
    case prems: (4 depth m c rec w mechs hasAll)
    let ?c = "c\<lparr>ctr_visited := spf_key (mech_target m) # ctr_visited c, ctr_world := w\<rparr>"
    let ?c' = "spf_walk_loop (spf_recurse (pure_fetch f) (Suc depth)) hasAll mechs ?c"
    show ?case
    proof (intro allI impI)
      fix n assume h: "ctr_complete ?c'" "target_cost f m n"
      then obtain ks where "spf_cost f hasAll mechs ks n"
        using prems(2,4) by (auto simp: target_cost_def pure_fetch_def spf_evaluates_def)
      then have "agrees ?c ?c' n"
        by (rule spf_walk_loop_sound [rotated 2, OF _ h(1)])
          (use prems(5) spf_recurse_le in blast)+
      then show "agrees c ?c' n" by (simp add: agrees_def split: if_splits)
    qed
  qed simp_all
  then show "\<lbrakk>\<not> spf_over c; ctr_complete (spf_recurse (pure_fetch f) depth m c); target_cost f m n\<rbrakk> \<Longrightarrow>
    agrees c (spf_recurse (pure_fetch f) depth m c) n" by blast
qed

lemma spf_walk_loop_evaluates:
  assumes le: "\<And>m c. \<not> spf_over c \<Longrightarrow> spf_le c (recurse m c)"
    and rec: "\<And>m c. \<lbrakk>\<not> spf_over c; ctr_complete (recurse m c); \<not> spf_over (recurse m c)\<rbrakk> \<Longrightarrow>
       \<exists>n. target_cost f m n"
  shows "\<lbrakk>ctr_complete (spf_walk_loop recurse hasAll ms c);
     \<not> spf_over (spf_walk_loop recurse hasAll ms c)\<rbrakk> \<Longrightarrow> \<exists>ks n. spf_cost f hasAll ms ks n"
proof (induction ms arbitrary: c)
  case (Cons m ms)
  have nov: "\<not> spf_over c" using Cons.prems(2) spf_walk_loop_over by fastforce
  consider (plain) "mech_kind m \<in> {MechA, MechMX, MechPTR, MechExists}"
    | (target) "mech_kind m = MechInclude \<or> mech_kind m = MechRedirect \<and> \<not> hasAll"
    | (free) "mech_kind m \<in> {MechOther, MechAll} \<or> mech_kind m = MechRedirect \<and> hasAll"
    by (cases "mech_kind m") auto
  then show ?case
  proof cases
    case plain
    then have "spf_walk_loop recurse hasAll (m # ms) c = spf_walk_loop recurse hasAll ms (spf_tick c)"
      using nov by simp
    with Cons.IH [of "spf_tick c"] Cons.prems plain show ?thesis
      by (auto intro: cost_plain [OF plain])
  next
    case free
    then have "spf_walk_loop recurse hasAll (m # ms) c = spf_walk_loop recurse hasAll ms c"
      using nov by auto
    with Cons.IH [of c] Cons.prems show ?thesis
      by (auto intro: cost_free [OF free])
  next
    case target
    let ?c2 = "recurse m (spf_tick c)"
    have t: "\<not> spf_over (spf_tick c)" and eq: "spf_walk_loop recurse hasAll (m # ms) c = spf_walk_loop recurse hasAll ms ?c2"
      using target nov Cons.prems(2) by (auto simp: Let_def split: if_splits)
    have "\<not> spf_over ?c2" using Cons.prems(2) eq spf_walk_loop_over by fastforce
    moreover have "ctr_complete ?c2"
      using spf_walk_loop_le [of recurse ?c2 hasAll ms, OF le] Cons.prems(1) eq by (auto simp: spf_le_def)
    ultimately obtain k where k: "target_cost f m k" using rec t by blast
    obtain ks n where "spf_cost f hasAll ms ks n" using Cons.IH [of ?c2] Cons.prems eq by auto
    obtain rec ks' where r: "\<not> mech_hasMacro m" "f (mech_target m) = Some rec" "spf_evaluates f rec ks' k"
      using k by (auto simp: target_cost_def)
    obtain ms' hasAll' where p: "parseSPFMechanisms rec = (ms', hasAll')" by fastforce
    have "spf_cost f hasAll' ms' ks' k" using r(3) p by (simp add: spf_evaluates_def)
    from cost_target [OF target r(1,2) p this \<open>spf_cost f hasAll ms ks n\<close>] show ?thesis by blast
  qed
qed (auto intro: cost_nil)

lemma spf_recurse_evaluates:
  "\<lbrakk>\<not> spf_over c; ctr_complete (spf_recurse (pure_fetch f) depth m c);
    \<not> spf_over (spf_recurse (pure_fetch f) depth m c)\<rbrakk> \<Longrightarrow> \<exists>n. target_cost f m n"
proof -
  have "\<not> spf_over c \<longrightarrow> ctr_complete (spf_recurse (pure_fetch f) depth m c) \<longrightarrow>
      \<not> spf_over (spf_recurse (pure_fetch f) depth m c) \<longrightarrow> (\<exists>n. target_cost f m n)"
  proof (rule spf_recurse_rule [where P = "\<lambda>depth m c c'. \<not> spf_over c \<longrightarrow>
        ctr_complete c' \<longrightarrow> \<not> spf_over c' \<longrightarrow> (\<exists>n. target_cost f m n)"], goal_cases)
    case prems: (4 depth m c rec w mechs hasAll)
    let ?c = "c\<lparr>ctr_visited := spf_key (mech_target m) # ctr_visited c, ctr_world := w\<rparr>"
    show ?case
    proof (intro impI)
      assume h: "ctr_complete (spf_walk_loop (spf_recurse (pure_fetch f) (Suc depth)) hasAll mechs ?c)"
        "\<not> spf_over (spf_walk_loop (spf_recurse (pure_fetch f) (Suc depth)) hasAll mechs ?c)"
      have "\<exists>ks n. spf_cost f hasAll mechs ks n"
        by (rule spf_walk_loop_evaluates [OF spf_recurse_le _ h]) (use prems(5) in blast)+
      then show "\<exists>n. target_cost f m n"
        using prems(1,2,4) by (auto simp: target_cost_def pure_fetch_def spf_evaluates_def)
    qed
  qed simp_all
  then show "\<lbrakk>\<not> spf_over c; ctr_complete (spf_recurse (pure_fetch f) depth m c);
    \<not> spf_over (spf_recurse (pure_fetch f) depth m c)\<rbrakk> \<Longrightarrow> \<exists>n. target_cost f m n" by blast
qed

text \<open>
  A record whose expansion meets no target twice and stays within the budget is counted
  exactly: the depth cap never bites, since each level has paid for a tick.
\<close>

lemma spf_walk_loop_complete:
  "\<lbrakk>spf_cost f hasAll ms ks n; distinct ks; set ks \<inter> set (ctr_visited c) = {};
    ctr_count c + n \<le> spfMaxLookups; depth \<le> ctr_count c\<rbrakk> \<Longrightarrow>
   spf_walk_loop (spf_recurse (pure_fetch f) depth) hasAll ms c =
     c\<lparr>ctr_count := ctr_count c + n, ctr_visited := rev ks @ ctr_visited c\<rparr>"
proof (induction hasAll ms ks n arbitrary: c depth rule: spf_cost.induct)
  case (cost_target m hasAll rec ms' hasAll' ks' n' ms ks n)
  let ?key = "spf_key (mech_target m)"
  let ?c0 = "(spf_tick c)\<lparr>ctr_visited := ?key # ctr_visited c\<rparr>"
  let ?c1 = "?c0\<lparr>ctr_count := ctr_count ?c0 + n', ctr_visited := rev ks' @ ctr_visited ?c0\<rparr>"
  have t: "\<not> spf_over c" "\<not> spf_over (spf_tick c)" "depth < spfMaxDepth"
    using cost_target.prems by (auto simp: spf_over_def spf_tick_def spfMaxLookups_def spfMaxDepth_def)
  have "spf_walk_loop (spf_recurse (pure_fetch f) (Suc depth)) hasAll' ms' ?c0 = ?c1"
    using cost_target.prems by (intro cost_target.IH(1)) (auto simp: spf_tick_def)
  then have r: "spf_recurse (pure_fetch f) depth m (spf_tick c) = ?c1"
    using cost_target.hyps cost_target.prems t
    by (subst spf_recurse.simps) (auto simp: pure_fetch_def spf_tick_def Let_def)
  have "spf_walk_loop (spf_recurse (pure_fetch f) depth) hasAll ms ?c1 =
      ?c1\<lparr>ctr_count := ctr_count ?c1 + n, ctr_visited := rev ks @ ctr_visited ?c1\<rparr>"
    using cost_target.prems by (intro cost_target.IH(2)) (auto simp: spf_tick_def)
  moreover have "spf_walk_loop (spf_recurse (pure_fetch f) depth) hasAll (m # ms) c =
      spf_walk_loop (spf_recurse (pure_fetch f) depth) hasAll ms ?c1"
    using cost_target.hyps(1) t r by (auto simp: Let_def)
  ultimately show ?case by (simp add: spf_tick_def add.assoc)
next
  case (cost_plain m hasAll ms ks n)
  then have "\<not> spf_over c" by (auto simp: spf_over_def)
  with cost_plain.hyps(1) have "spf_walk_loop (spf_recurse (pure_fetch f) depth) hasAll (m # ms) c =
      spf_walk_loop (spf_recurse (pure_fetch f) depth) hasAll ms (spf_tick c)" by simp
  also have "\<dots> = (spf_tick c)\<lparr>ctr_count := ctr_count (spf_tick c) + n,
      ctr_visited := rev ks @ ctr_visited (spf_tick c)\<rparr>"
    using cost_plain.prems by (intro cost_plain.IH) (auto simp: spf_tick_def)
  finally show ?case by (simp add: spf_tick_def)
next
  case (cost_free m hasAll ms ks n)
  then have "\<not> spf_over c" by (auto simp: spf_over_def)
  with cost_free.hyps(1) have "spf_walk_loop (spf_recurse (pure_fetch f) depth) hasAll (m # ms) c =
      spf_walk_loop (spf_recurse (pure_fetch f) depth) hasAll ms c" by auto
  also have "\<dots> = c\<lparr>ctr_count := ctr_count c + n, ctr_visited := rev ks @ ctr_visited c\<rparr>"
    using cost_free.prems by (intro cost_free.IH) auto
  finally show ?case .
qed simp

lemma countSPFLookups_min:
  assumes "countSPFLookups record (pure_fetch f) w = ((n, True), w')" and "spf_evaluates f record ks k"
  shows "n = min k (Suc spfMaxLookups)"
proof -
  define c0 where "c0 = \<lparr>ctr_visited = [], ctr_count = 0, ctr_complete = True, ctr_world = w\<rparr>"
  define c where "c = spf_walk (pure_fetch f) record 0 c0"
  have n: "ctr_complete c" "n = (if ctr_count c > spfMaxLookups then Suc spfMaxLookups else ctr_count c)"
    using assms(1) by (auto simp: countSPFLookups_def c_def c0_def Let_def split: if_splits)
  have "agrees c0 c k"
    using assms(2) n(1) unfolding c_def spf_walk_def spf_evaluates_def
    by (auto split: prod.splits intro!: spf_walk_loop_sound spf_recurse_le spf_recurse_sound)
  then show ?thesis using n(2)
    by (auto simp: agrees_def spf_over_def c0_def split: if_splits)
qed

lemma countSPFLookups_evaluates:
  assumes "countSPFLookups record (pure_fetch f) w = ((n, True), w')" and "n \<le> spfMaxLookups"
  shows "\<exists>ks. spf_evaluates f record ks n"
proof -
  define c0 where "c0 = \<lparr>ctr_visited = [], ctr_count = 0, ctr_complete = True, ctr_world = w\<rparr>"
  define c where "c = spf_walk (pure_fetch f) record 0 c0"
  have c: "ctr_complete c" "\<not> spf_over c"
    using assms by (auto simp: countSPFLookups_def c_def c0_def Let_def spf_over_def split: if_splits)
  obtain ms hasAll where p: "parseSPFMechanisms record = (ms, hasAll)" by fastforce
  have "\<exists>ks k. spf_cost f hasAll ms ks k"
    by (rule spf_walk_loop_evaluates [OF spf_recurse_le spf_recurse_evaluates])
      (use c p in \<open>simp_all add: c_def spf_walk_def\<close>)
  then obtain ks k where k: "spf_evaluates f record ks k" using p by (auto simp: spf_evaluates_def)
  with countSPFLookups_min [OF assms(1) k] assms(2) show ?thesis by (auto simp: min_def split: if_splits)
qed

lemma countSPFLookups_complete:
  assumes "spf_evaluates f record ks n" and "distinct ks" and "n \<le> spfMaxLookups"
  shows "countSPFLookups record (pure_fetch f) w = ((n, True), w)"
proof -
  obtain ms hasAll where p: "parseSPFMechanisms record = (ms, hasAll)" by fastforce
  with assms(1) have "spf_cost f hasAll ms ks n" by (simp add: spf_evaluates_def)
  from spf_walk_loop_complete [OF this assms(2), of
      "\<lparr>ctr_visited = [], ctr_count = 0, ctr_complete = True, ctr_world = w\<rparr>" 0] assms(3)
  show ?thesis by (simp add: countSPFLookups_def spf_walk_def p Let_def)
qed

section \<open>Properties\<close>

text \<open>C4: when the counter reports a complete evaluation, its number is the true cost of the
  record, cut off just above the budget: every full expansion of the record costs \<open>k\<close> with
  \<open>n = min k 11\<close>, and within the budget such an expansion exists.\<close>

theorem spf_count_exact:
  assumes "countSPFLookups record (pure_fetch f) w = ((n, True), w')"
  shows "(\<forall>ks k. spf_evaluates f record ks k \<longrightarrow> n = min k 11) \<and>
    (n \<le> 10 \<longrightarrow> (\<exists>ks. spf_evaluates f record ks n))"
  using countSPFLookups_min [OF assms] countSPFLookups_evaluates [OF assms]
  by (auto simp: spfMaxLookups_def)

definition spf_example :: "string \<Rightarrow> string option" where
  "spf_example = map_of [(''_a.net'', ''v=spf1 a mx -all'')]"

theorem spf_count_exact_witness:
  "\<exists>ks. spf_evaluates spf_example ''v=spf1 include:_a.net ptr -all'' ks 4"
proof -
  have "countSPFLookups ''v=spf1 include:_a.net ptr -all'' (pure_fetch spf_example) () = ((4, True), ())"
    by code_simp
  from spf_count_exact [OF this] show ?thesis by simp
qed

text \<open>C19: conversely, a record whose expansion meets every target once and stays within the
  ten lookups is counted exactly and reported complete; neither the depth cap nor the
  visited set gets in the way.\<close>

theorem spf_count_complete:
  assumes "spf_evaluates f record ks n" and "distinct ks" and "n \<le> 10"
  shows "countSPFLookups record (pure_fetch f) w = ((n, True), w)"
  using countSPFLookups_complete [OF assms(1,2)] assms(3) by (simp add: spfMaxLookups_def)

lemma spf_example_evaluates:
  "spf_evaluates spf_example ''v=spf1 include:_a.net -all'' [''_a.net''] 3"
proof -
  have p: "parseSPFMechanisms ''v=spf1 include:_a.net -all'' =
      ([target_mech MechInclude ''_a.net'', plain_mech MechAll], True)"
    and q: "parseSPFMechanisms ''v=spf1 a mx -all'' =
      ([plain_mech MechA, plain_mech MechMX, plain_mech MechAll], True)"
    and k: "spf_key (mech_target (target_mech MechInclude ''_a.net'')) = ''_a.net''"
    and f: "spf_example (mech_target (target_mech MechInclude ''_a.net'')) = Some ''v=spf1 a mx -all''"
    and h: "\<not> mech_hasMacro (target_mech MechInclude ''_a.net'')"
    by code_simp+
  have all: "spf_cost spf_example True [plain_mech MechAll] [] 0"
    by (rule cost_free) (simp_all add: plain_mech_def)
  have "spf_cost spf_example True [plain_mech MechMX, plain_mech MechAll] [] (Suc 0)"
    by (rule cost_plain [OF _ all]) (simp add: plain_mech_def)
  then have "spf_cost spf_example True [plain_mech MechA, plain_mech MechMX, plain_mech MechAll] [] (Suc (Suc 0))"
    by (rule cost_plain [rotated]) (simp add: plain_mech_def)
  from cost_target [OF _ h f q this all] show ?thesis
    by (simp add: spf_evaluates_def p k) (simp add: target_mech_def numeral_eq_Suc)
qed

theorem spf_count_complete_witness:
  "countSPFLookups ''v=spf1 include:_a.net -all'' (pure_fetch spf_example) () = ((3, True), ())"
  by (rule spf_count_complete [OF spf_example_evaluates]) simp_all

text \<open>C20: whatever the fetched records say and whatever fetching does to the world, the
  counter returns (it is total), reports at most 11, and calls the fetch function at most
  ten times.\<close>

theorem spf_fetch_budget:
  "(case countSPFLookups record (counted fetch) (w, 0) of
      ((count, complete), (w', fetches)) \<Rightarrow> count \<le> 11 \<and> fetches \<le> 10)"
proof -
  have "fst (fst (countSPFLookups record (counted fetch) (w, 0))) \<le> 11"
    by (simp add: countSPFLookups_def Let_def spfMaxLookups_def)
  then show ?thesis
    using countSPFLookups_fetches [of "record" fetch w]
    by (auto simp: spfMaxLookups_def split: prod.splits)
qed

text \<open>
  The visited set holds every target expanded so far, not only those on the current path.
  A record that names the same target twice without any cycle costs two lookups, yet is
  reported as over the budget of ten.
\<close>

lemma spf_diamond_reported_over_budget:
  "countSPFLookups ''v=spf1 include:_a include:_a -all''
     (pure_fetch (map_of [(''_a'', ''v=spf1 ip4:192.0.2.1 -all'')])) () = ((11, False), ())"
  by code_simp

end
