(* ===== verification/Dmarc.thy ===== *)
theory Dmarc
  imports Prelude
begin

text \<open>
  The DMARC parser, \<^verbatim>\<open>prober/dmarc.go\<close>. The tag map of a record is a partial function; a
  tag given twice keeps its first value.
\<close>

section \<open>The parser\<close>

definition dmarc_tok :: string where
  "dmarc_tok = ''v=DMARC1''"

definition isDMARCRecord :: "string \<Rightarrow> bool" where
  "isDMARCRecord record =
     (let r = TrimSpace record in
      if length r < length dmarc_tok \<or> \<not> EqualFold (take (length dmarc_tok) r) dmarc_tok then False
      else (case drop (length dmarc_tok) r of
              [] \<Rightarrow> True
            | c # _ \<Rightarrow> c = CHR '' '' \<or> c = CHR '';'' \<or> c = CHR 0x09))"

fun parseDMARCTags_loop :: "string list \<Rightarrow> (string \<rightharpoonup> string) \<Rightarrow> (string \<rightharpoonup> string)" where
  "parseDMARCTags_loop [] tags = tags"
| "parseDMARCTags_loop (part # parts) tags =
     (case SplitN2 part CHR ''='' of
        (_, None) \<Rightarrow> parseDMARCTags_loop parts tags
      | (k, Some v) \<Rightarrow>
          (let key = ToLower (TrimSpace k); val = ToLower (TrimSpace v) in
           if key = [] \<or> key = ''v'' then parseDMARCTags_loop parts tags
           else parseDMARCTags_loop parts (if tags key = None then tags(key \<mapsto> val) else tags)))"

definition parseDMARCTags :: "string \<Rightarrow> (string \<rightharpoonup> string)" where
  "parseDMARCTags record = parseDMARCTags_loop (Split record CHR '';'') Map.empty"

record dmarcResult =
  dmarc_present :: bool
  dmarc_valid :: bool
  dmarc_policy :: string
  dmarc_subdomainPolicy :: string
  dmarc_rua :: bool
  dmarc_ruf :: bool
  dmarc_raw :: string

definition no_dmarc :: dmarcResult where
  "no_dmarc = \<lparr>dmarc_present = False, dmarc_valid = False, dmarc_policy = [],
     dmarc_subdomainPolicy = [], dmarc_rua = False, dmarc_ruf = False, dmarc_raw = []\<rparr>"

text \<open>A tag's value when it is a policy; a missing tag reads as the empty string.\<close>

definition policy_value :: "(string \<rightharpoonup> string) \<Rightarrow> string \<Rightarrow> string option" where
  "policy_value tags tag =
     (let p = (case tags tag of Some p \<Rightarrow> p | None \<Rightarrow> []) in
      if p = ''none'' \<or> p = ''quarantine'' \<or> p = ''reject'' then Some p else None)"

definition analyzeDMARC :: "string list \<Rightarrow> dmarcResult" where
  "analyzeDMARC records =
     (let rec = (case find isDMARCRecord records of Some r \<Rightarrow> TrimSpace r | None \<Rightarrow> []) in
      if rec = [] then no_dmarc
      else (let tags = parseDMARCTags rec;
                res = no_dmarc\<lparr>dmarc_present := True, dmarc_raw := rec\<rparr>;
                res1 = (case policy_value tags ''p'' of
                          Some p \<Rightarrow> res\<lparr>dmarc_valid := True, dmarc_policy := p\<rparr> | None \<Rightarrow> res);
                res2 = (case policy_value tags ''sp'' of
                          Some sp \<Rightarrow> res1\<lparr>dmarc_subdomainPolicy := sp\<rparr> | None \<Rightarrow> res1) in
            res2\<lparr>dmarc_rua := tags ''rua'' \<noteq> None, dmarc_ruf := tags ''ruf'' \<noteq> None\<rparr>))"

section \<open>Rendering and parsing\<close>

text \<open>A record with given tags, in the form \<^verbatim>\<open>v=DMARC1;k1=v1;...;kn=vn\<close>.\<close>

definition render_tag :: "string \<times> string \<Rightarrow> string" where
  "render_tag t = fst t @ ''='' @ snd t"

definition render_dmarc :: "(string \<times> string) list \<Rightarrow> string" where
  "render_dmarc tags = Join (dmarc_tok # map render_tag tags) '';''"

text \<open>A tag that survives the syntax: trimmed, and without the separators.\<close>

definition plain_tag :: "string \<times> string \<Rightarrow> bool" where
  "plain_tag t \<longleftrightarrow> fst t \<noteq> [] \<and> ToLower (fst t) \<noteq> ''v'' \<and> CHR ''='' \<notin> set (fst t) \<and>
     CHR '';'' \<notin> set (fst t) \<union> set (snd t) \<and> TrimSpace (fst t) = fst t \<and> TrimSpace (snd t) = snd t"

definition lower_tags :: "(string \<times> string) list \<Rightarrow> (string \<rightharpoonup> string)" where
  "lower_tags tags = map_of (map (\<lambda>(k, v). (ToLower k, ToLower v)) tags)"

lemma SplitN2_tag: "c \<notin> set k \<Longrightarrow> SplitN2 (k @ c # v) c = (k, Some v)"
  by (induction k) auto

lemma parse_tags_loop:
  assumes "list_all plain_tag tags"
  shows "parseDMARCTags_loop (map render_tag tags) m = lower_tags tags ++ m"
  using assms
proof (induction tags arbitrary: m)
  case Nil
  then show ?case by (simp add: lower_tags_def)
next
  case (Cons t tags)
  obtain k v where t: "t = (k, v)" by fastforce
  have plain: "k \<noteq> []" "ToLower k \<noteq> ''v''" "TrimSpace k = k" "TrimSpace v = v" "CHR ''='' \<notin> set k"
    using Cons.prems by (auto simp: t plain_tag_def)
  have split: "SplitN2 (render_tag t) CHR ''='' = (k, Some v)"
    using SplitN2_tag [OF plain(5), of v] by (simp add: render_tag_def t)
  have "lower_tags tags ++ (if m (ToLower k) = None then m(ToLower k \<mapsto> ToLower v) else m) =
      lower_tags (t # tags) ++ m"
    by (auto simp: lower_tags_def t fun_eq_iff map_add_def split: option.splits)
  moreover have "parseDMARCTags_loop (map render_tag (t # tags)) m =
      parseDMARCTags_loop (map render_tag tags) (if m (ToLower k) = None then m(ToLower k \<mapsto> ToLower v) else m)"
    using plain by (simp add: split Let_def)
  moreover have "list_all plain_tag tags" using Cons.prems by simp
  ultimately show ?case using Cons.IH by simp
qed

lemma parse_render:
  assumes "list_all plain_tag tags"
  shows "parseDMARCTags (render_dmarc tags) = lower_tags tags"
proof -
  have "\<forall>l \<in> set (dmarc_tok # map render_tag tags). CHR '';'' \<notin> set l"
    using assms by (auto simp: dmarc_tok_def list_all_iff plain_tag_def render_tag_def)
  then have "Split (render_dmarc tags) CHR '';'' = dmarc_tok # map render_tag tags"
    unfolding render_dmarc_def by (intro Split_of_Join) auto
  moreover have "SplitN2 dmarc_tok CHR ''='' = (''v'', Some ''DMARC1'')"
    by (simp add: dmarc_tok_def)
  moreover have "ToLower (TrimSpace ''v'') = ''v''" by (simp add: TrimSpace_def is_space_def char_lower_def)
  ultimately show ?thesis
    using parse_tags_loop [OF assms] by (simp add: parseDMARCTags_def)
qed

lemma last_TrimSpace: "TrimSpace s \<noteq> [] \<Longrightarrow> \<not> is_space (last (TrimSpace s))"
  unfolding TrimSpace_def using hd_dropWhile [of is_space "rev (dropWhile is_space s)"] by (simp add: last_rev)

lemma TrimSpace_trimmed: "\<not> is_space (hd s) \<Longrightarrow> \<not> is_space (last s) \<Longrightarrow> TrimSpace s = s"
proof -
  assume s: "\<not> is_space (hd s)" "\<not> is_space (last s)"
  have "dropWhile is_space s = s" using s(1) by (cases s) auto
  moreover have "dropWhile is_space (rev s) = rev s" using s(2) by (cases s rule: rev_cases) auto
  ultimately show ?thesis by (simp add: TrimSpace_def)
qed

lemma last_Join: "ls \<noteq> [] \<Longrightarrow> last ls \<noteq> [] \<Longrightarrow> Join ls sep \<noteq> [] \<and> last (Join ls sep) = last (last ls)"
  by (induction ls sep rule: Join.induct) auto

lemma render_dmarc_trimmed:
  assumes "list_all plain_tag tags"
  shows "TrimSpace (render_dmarc tags) = render_dmarc tags"
proof (rule TrimSpace_trimmed)
  show "\<not> is_space (hd (render_dmarc tags))"
    by (cases tags) (simp_all add: render_dmarc_def dmarc_tok_def is_space_def)
  let ?l = "last (dmarc_tok # map render_tag tags)"
  have "?l \<noteq> [] \<and> \<not> is_space (last ?l)"
  proof (cases tags rule: rev_cases)
    case (snoc ts t)
    obtain k v where t: "t = (k, v)" by fastforce
    have "TrimSpace v = v" using assms by (simp add: snoc t plain_tag_def)
    then have "v = [] \<or> \<not> is_space (last v)" using last_TrimSpace [of v] by auto
    then show ?thesis by (auto simp: snoc t render_tag_def is_space_def)
  qed (simp add: dmarc_tok_def is_space_def)
  then show "\<not> is_space (last (render_dmarc tags))"
    unfolding render_dmarc_def using last_Join [of "dmarc_tok # map render_tag tags" "'';''"] by auto
qed

lemma render_dmarc_recognised:
  assumes "list_all plain_tag tags"
  shows "isDMARCRecord (render_dmarc tags)"
proof -
  obtain rest where "render_dmarc tags = dmarc_tok @ rest" "rest = [] \<or> hd rest = CHR '';''"
    by (cases tags) (auto simp: render_dmarc_def)
  then show ?thesis
    unfolding isDMARCRecord_def Let_def render_dmarc_trimmed [OF assms]
    by (auto simp: EqualFold_def split: list.splits)
qed

section \<open>Properties\<close>

text \<open>C24: what a DMARC record says comes back. For a record with any tags, found behind any number of TXT
  records that are not DMARC, the analysis is: present, the record itself, the policy and subdomain
  policy where the first \<open>p\<close> and \<open>sp\<close> tags (in any letter case) name one, validity exactly with a
  policy, and the reporting flags exactly with their tags.\<close>

theorem dmarc_roundtrip:
  assumes "list_all plain_tag tags" and "list_all (\<lambda>r. \<not> isDMARCRecord r) other"
  shows "analyzeDMARC (other @ render_dmarc tags # rest) =
    (let policy = (\<lambda>tag. case lower_tags tags tag of
         Some p \<Rightarrow> if p \<in> {''none'', ''quarantine'', ''reject''} then p else [] | None \<Rightarrow> []) in
     \<lparr>dmarc_present = True, dmarc_valid = (policy ''p'' \<noteq> []), dmarc_policy = policy ''p'',
       dmarc_subdomainPolicy = policy ''sp'', dmarc_rua = lower_tags tags ''rua'' \<noteq> None,
       dmarc_ruf = lower_tags tags ''ruf'' \<noteq> None, dmarc_raw = render_dmarc tags\<rparr>)"
proof -
  have "find isDMARCRecord (other @ render_dmarc tags # rest) = Some (render_dmarc tags)"
    using assms(2) render_dmarc_recognised [OF assms(1)] by (induction other) auto
  moreover have "render_dmarc tags \<noteq> []" by (cases tags) (simp_all add: render_dmarc_def dmarc_tok_def)
  ultimately show ?thesis
    by (auto simp: analyzeDMARC_def render_dmarc_trimmed [OF assms(1)] parse_render [OF assms(1)]
        policy_value_def no_dmarc_def Let_def split: option.splits)
qed

theorem dmarc_roundtrip_witness:
  "analyzeDMARC [''x=1'', ''v=DMARC1;P=Reject;rua=mailto:a'', ''v=DMARC1;p=none''] =
    \<lparr>dmarc_present = True, dmarc_valid = True, dmarc_policy = ''reject'', dmarc_subdomainPolicy = [],
      dmarc_rua = True, dmarc_ruf = False, dmarc_raw = ''v=DMARC1;P=Reject;rua=mailto:a''\<rparr>"
proof -
  let ?tags = "[(''P'', ''Reject''), (''rua'', ''mailto:a'')]"
  have "list_all plain_tag ?tags" "list_all (\<lambda>r. \<not> isDMARCRecord r) [''x=1'']" by code_simp+
  note R = dmarc_roundtrip [OF this, of "[''v=DMARC1;p=none'']"]
  have "render_dmarc ?tags = ''v=DMARC1;P=Reject;rua=mailto:a''" by code_simp
  moreover have "lower_tags ?tags ''p'' = Some ''reject''" "lower_tags ?tags ''sp'' = None"
    "lower_tags ?tags ''rua'' = Some ''mailto:a''" "lower_tags ?tags ''ruf'' = None" by code_simp+
  ultimately show ?thesis using R by (simp add: Let_def)
qed

end
