(* ===== verification/Email_Auth.thy ===== *)
theory Email_Auth
  imports Spf_Lookup Dmarc Delegation
begin

text \<open>
  The e-mail authentication prober (\<^verbatim>\<open>prober/email_auth.go\<close>) and the resolver behind the SPF
  lookup budget (\<^verbatim>\<open>prober/spf_resolve.go\<close>). The resolver checks that there is a root server
  before its first use of the list, so neither panics; \<open>root\<close> is that first entry.
\<close>

section \<open>Resolving an SPF target\<close>

definition spfResolveMaxHops :: nat where
  "spfResolveMaxHops = 16"

definition answer_rcode :: "response \<Rightarrow> bool" where
  "answer_rcode resp \<longleftrightarrow> rsp_Rcode resp = RcodeSuccess \<or> rsp_Rcode resp = RcodeNameError"

definition txt_records :: "rr list \<Rightarrow> string list" where
  "txt_records rrs = List.map_filter (\<lambda>rr. case rr of RR_TXT _ parts \<Rightarrow> Some (concat parts) | _ \<Rightarrow> None) rrs"

definition nextReferralServer :: "penv \<Rightarrow> string \<Rightarrow> response \<Rightarrow> history \<Rightarrow> string \<times> history" where
  "nextReferralServer e root resp h =
     (let glue = referral_glue (rsp_Extra resp); nsNames = ns_targets (rsp_Ns resp) in
      if nsNames = [] then ([], h)
      else if list_ex (\<lambda>ns. glue ns \<noteq> None) nsNames then (glued_server e glue nsNames, h)
      else glueless_server e (ResolveHostnames_from e root) nsNames h)"

fun iterativeResolveTXT_loop ::
  "penv \<Rightarrow> string \<Rightarrow> string \<Rightarrow> nat \<Rightarrow> string \<Rightarrow> history \<Rightarrow> string list \<times> history" where
  "iterativeResolveTXT_loop e root qname 0 server h = ([], h)"
| "iterativeResolveTXT_loop e root qname (Suc left) server h =
     (case ctxErr e h of
        (True, h1) \<Rightarrow> ([], h1)
      | (False, h1) \<Rightarrow>
          (case ExchangeWithRetry e (NonRecursive qname TypeTXT) server h1 of
             (Inl err, h2) \<Rightarrow> ([], h2)
           | (Inr resp, h2) \<Rightarrow>
               if \<not> answer_rcode resp then ([], h2)
               else if rsp_Authoritative resp \<or> rsp_Rcode resp = RcodeNameError \<or> rsp_Ns resp = []
               then (txt_records (rsp_Answer resp), h2)
               else (case nextReferralServer e root resp h2 of
                  (next, h3) \<Rightarrow>
                    if next = [] \<or> next = server then ([], h3)
                    else iterativeResolveTXT_loop e root qname left next h3)))"

definition iterativeResolveTXT :: "penv \<Rightarrow> string \<Rightarrow> history \<Rightarrow> string list \<times> history" where
  "iterativeResolveTXT e name h =
     (case RootServers e of
        [] \<Rightarrow> ([], h)
      | root # _ \<Rightarrow> iterativeResolveTXT_loop e root (dns_Fqdn e name) spfResolveMaxHops root h)"

definition resolveSPFRecord :: "penv \<Rightarrow> string \<Rightarrow> history \<Rightarrow> string option \<times> history" where
  "resolveSPFRecord e name h =
     (case iterativeResolveTXT e name h of
        (txts, h1) \<Rightarrow> (map_option TrimSpace (find isSPFRecord txts), h1))"

section \<open>The TXT records of a zone\<close>

text \<open>\<open>None\<close> is \<open>ok = false\<close>. The clock is read before every query and when one failed.\<close>

fun fetchTXTRecords_loop ::
  "penv \<Rightarrow> dns_msg \<Rightarrow> nameserver list \<Rightarrow> history \<Rightarrow> string list option \<times> history" where
  "fetchTXTRecords_loop e msg [] h = (None, h)"
| "fetchTXTRecords_loop e msg (ns # nss) h =
     (let (start, h1) = timeNow e h in
      case ExchangeWithRetry e msg (ResolveAddress e (NS_IP ns)) h1 of
        (Inl err, h2) \<Rightarrow> fetchTXTRecords_loop e msg nss (snd (timeNow e h2))
      | (Inr resp, h2) \<Rightarrow>
          if \<not> answer_rcode resp then fetchTXTRecords_loop e msg nss (snd (timeNow e h2))
          else (Some (txt_records (rsp_Answer resp)), h2))"

definition fetchTXTRecords ::
  "penv \<Rightarrow> string \<Rightarrow> nameserver list \<Rightarrow> history \<Rightarrow> string list option \<times> history" where
  "fetchTXTRecords e name nameservers h =
     fetchTXTRecords_loop e (SetQuestion (dns_Fqdn e name) TypeTXT) nameservers h"

section \<open>The prober\<close>

definition email_result :: "string \<Rightarrow> (string \<times> int) list \<Rightarrow> (string \<times> string) list \<Rightarrow> ProbeResult" where
  "email_result zone metrics labels =
     (zeroResult zone ''email_auth'')\<lparr>Success := True, Metrics := metrics, Labels := labels\<rparr>"

definition spf_lookup_result :: "string \<Rightarrow> nat \<Rightarrow> bool \<Rightarrow> ProbeResult" where
  "spf_lookup_result zone count complete =
     email_result zone
       [(''spf_lookup_count'', int count),
        (''spf_lookup_budget_exceeded'', if count > spfMaxLookups then 1 else 0),
        (''spf_lookup_eval_complete'', boolToFloat complete)] []"

definition spf_results :: "penv \<Rightarrow> string \<Rightarrow> string list \<Rightarrow> history \<Rightarrow> ProbeResult list \<times> history" where
  "spf_results e zone txts h =
     (let spf = analyzeSPF txts;
          base = [email_result zone
            [(''spf_present'', boolToFloat (spf_present spf)),
             (''spf_record_count'', int (spf_recordCount spf)),
             (''spf_valid'', boolToFloat (spf_valid spf))] []];
          raw = (if spf_present spf
                 then [email_result zone [(''spf_record'', 1)] [(''record'', Join (spf_records spf) '' | '')]]
                 else []);
          terminal = (if spf_present spf \<and> spf_recordCount spf = 1
                 then [email_result zone [(''spf_terminal_all'', 1)] [(''qualifier'', spf_qualifier spf)]]
                 else []) in
      if spf_present spf \<and> spf_recordCount spf = 1 \<and> spf_valid spf
      then (let ((count, complete), h1) = countSPFLookups (spf_raw spf) (resolveSPFRecord e) h in
            (base @ raw @ terminal @ [spf_lookup_result zone count complete], h1))
      else (base @ raw @ terminal, h))"

definition dmarc_results :: "string \<Rightarrow> string list \<Rightarrow> ProbeResult list" where
  "dmarc_results zone txts =
     (let dmarc = analyzeDMARC txts in
      [email_result zone
        [(''dmarc_present'', boolToFloat (dmarc_present dmarc)),
         (''dmarc_valid'', boolToFloat (dmarc_valid dmarc)),
         (''dmarc_rua_present'', boolToFloat (dmarc_rua dmarc)),
         (''dmarc_ruf_present'', boolToFloat (dmarc_ruf dmarc))] []] @
      (if dmarc_present dmarc \<and> dmarc_valid dmarc
       then [email_result zone [(''dmarc_policy'', 1)] [(''policy'', dmarc_policy dmarc)]] else []) @
      (if dmarc_present dmarc
       then [email_result zone [(''dmarc_record'', 1)] [(''record'', dmarc_raw dmarc)]] else []) @
      (if dmarc_subdomainPolicy dmarc \<noteq> []
       then [email_result zone [(''dmarc_sp_policy'', 1)] [(''policy'', dmarc_subdomainPolicy dmarc)]] else []))"

definition dmarcName :: "penv \<Rightarrow> string \<Rightarrow> string" where
  "dmarcName e zone = ''_dmarc.'' @ dns_Fqdn e zone"

definition ProbeEmailAuth :: probe_fn where
  "ProbeEmailAuth e zone nameservers delegation h =
     (let (spfTxts, h1) = fetchTXTRecords e zone nameservers h;
          (spf, h2) = (case spfTxts of Some txts \<Rightarrow> spf_results e zone txts h1 | None \<Rightarrow> ([], h1));
          (dmarcTxts, h3) = fetchTXTRecords e (dmarcName e zone) nameservers h2;
          dmarc = (case dmarcTxts of Some txts \<Rightarrow> dmarc_results zone txts | None \<Rightarrow> []) in
      Some (Inr (spf @ dmarc), h3))"

section \<open>Resolution only appends, and is bounded\<close>

lemma nextReferralServer_prefix [hist_grow]:
  assumes "nextReferralServer e root resp h = (next, h')"
  shows "prefix h h'"
  using assms glueless_server_prefix [of "ResolveHostnames_from e root"] ResolveHostnames_from_prefix
  by (auto simp: nextReferralServer_def Let_def split: if_splits)

text \<open>The exchanges of one hop: the question and its retry, and the out-of-band resolutions.\<close>

definition hop_bound :: "nat \<Rightarrow> nat" where
  "hop_bound N = 2 + N * (2 * resolve_bound N 3)"

lemma nextReferralServer_extends:
  assumes "ns_bounded N e" and "length (ns_targets (rsp_Ns resp)) \<le> N"
    and "nextReferralServer e root resp h = (next, h')"
  shows "extends (N * (2 * resolve_bound N 3)) h h'"
proof -
  have "h' = h \<or> glueless_server e (ResolveHostnames_from e root) (ns_targets (rsp_Ns resp)) h = (next, h')"
    using assms(3) by (auto simp: nextReferralServer_def Let_def split: if_splits)
  then show ?thesis
  proof
    assume "glueless_server e (ResolveHostnames_from e root) (ns_targets (rsp_Ns resp)) h = (next, h')"
    then have "extends (length (ns_targets (rsp_Ns resp)) * (2 * resolve_bound N 3)) h h'"
      by (rule glueless_server_extends [rotated]) (rule ResolveHostnames_from_extends [OF assms(1)])
    then show ?thesis by (rule extends_mono) (use assms(2) in simp)
  qed simp
qed

lemma retry_ns_bounded:
  "ns_bounded N e \<Longrightarrow> ExchangeWithRetry e msg addr h = (Inr resp, h') \<Longrightarrow> length (ns_targets (rsp_Ns resp)) \<le> N"
  using answered_retry unfolding ns_bounded_def answered_def by blast

text \<open>The ways one round of the hop loop ends.\<close>

lemma iterativeResolveTXT_step:
  assumes "iterativeResolveTXT_loop e root qname (Suc left) server h = (txts, h')"
  obtains (stop) h1 where "ctxErr e h = (True, h1)" "txts = []" "h' = h1"
  | (query) h1 x h2 where "ctxErr e h = (False, h1)"
      "ExchangeWithRetry e (NonRecursive qname TypeTXT) server h1 = (x, h2)" "h' = h2"
      "txts = [] \<or> (\<exists>resp. x = Inr resp \<and> answer_rcode resp \<and> txts = txt_records (rsp_Answer resp))"
  | (refer) h1 resp h2 nxt h3 where "ctxErr e h = (False, h1)"
      "ExchangeWithRetry e (NonRecursive qname TypeTXT) server h1 = (Inr resp, h2)"
      "nextReferralServer e root resp h2 = (nxt, h3)"
      "(txts = [] \<and> h' = h3) \<or> iterativeResolveTXT_loop e root qname left nxt h3 = (txts, h')"
proof -
  obtain b h1 where c: "ctxErr e h = (b, h1)" by fastforce
  obtain x h2 where x: "ExchangeWithRetry e (NonRecursive qname TypeTXT) server h1 = (x, h2)" by fastforce
  show thesis
  proof (cases b)
    case True
    with assms c stop show thesis by simp
  next
    case b: False
    show thesis
    proof (cases x)
      case (Inl err)
      with assms b c x query show thesis by simp
    next
      case (Inr resp)
      obtain nxt h3 where n: "nextReferralServer e root resp h2 = (nxt, h3)" by fastforce
      let ?final = "rsp_Authoritative resp \<or> rsp_Rcode resp = RcodeNameError \<or> rsp_Ns resp = []"
      have eq: "iterativeResolveTXT_loop e root qname (Suc left) server h =
          (if \<not> answer_rcode resp then ([], h2)
           else if ?final then (txt_records (rsp_Answer resp), h2)
           else if nxt = [] \<or> nxt = server then ([], h3)
           else iterativeResolveTXT_loop e root qname left nxt h3)"
        using b c x Inr n by simp
      show thesis
      proof (cases "\<not> answer_rcode resp \<or> ?final")
        case True
        show thesis
          by (rule query [of h1 x h2]) (use assms eq True b c x Inr in \<open>auto split: if_splits\<close>)
      next
        case False
        then have "(if nxt = [] \<or> nxt = server then ([], h3)
            else iterativeResolveTXT_loop e root qname left nxt h3) = (txts, h')"
          using assms eq by (simp only: if_False if_True de_Morgan_disj not_not simp_thms)
        then have "(txts = [] \<and> h' = h3) \<or> iterativeResolveTXT_loop e root qname left nxt h3 = (txts, h')"
          by (auto split: if_splits)
        with refer [of h1 resp h2 nxt h3] b c x Inr n show thesis by simp
      qed
    qed
  qed
qed

lemma iterativeResolveTXT_loop_extends:
  assumes "ns_bounded N e" and "iterativeResolveTXT_loop e root qname left server h = (txts, h')"
  shows "extends (left * hop_bound N) h h'"
  using assms(2)
proof (induction left arbitrary: server h)
  case (Suc left)
  from Suc.prems show ?case
  proof (cases rule: iterativeResolveTXT_step)
    case (stop h1)
    with ctxErr_extends [of e h True h1] show ?thesis by (auto intro: extends_mono)
  next
    case (query h1 x h2)
    have "extends 2 h h2"
      using extends_step [OF ctxErr_extends [OF query(1)] ExchangeWithRetry_extends [OF query(2)], of 2] by simp
    with query(3) show ?thesis by (auto simp: hop_bound_def intro: extends_mono)
  next
    case (refer h1 resp h2 nxt h3)
    have "extends 2 h h2"
      using extends_step [OF ctxErr_extends [OF refer(1)] ExchangeWithRetry_extends [OF refer(2)], of 2] by simp
    then have hop: "extends (hop_bound N) h h3"
      by (rule extends_step [OF _ nextReferralServer_extends [OF assms(1) retry_ns_bounded [OF assms(1) refer(2)] refer(3)]])
        (simp add: hop_bound_def)
    from refer(4) show ?thesis
    proof
      assume "txts = [] \<and> h' = h3"
      with hop show ?thesis by (auto intro: extends_mono)
    next
      assume "iterativeResolveTXT_loop e root qname left nxt h3 = (txts, h')"
      from extends_step [OF hop Suc.IH [OF this]] show ?thesis by simp
    qed
  qed
qed simp

definition txt_seen :: "penv \<Rightarrow> history \<Rightarrow> history \<Rightarrow> string \<Rightarrow> string \<Rightarrow> bool" where
  "txt_seen e h h' qname txtrec \<longleftrightarrow> (\<exists>server resp. answered e h h' (NonRecursive qname TypeTXT) server resp \<and>
     answer_rcode resp \<and> txtrec \<in> set (txt_records (rsp_Answer resp)))"

lemma txt_seen_before: "prefix h0 h \<Longrightarrow> txt_seen e h h' qname txtrec \<Longrightarrow> txt_seen e h0 h' qname txtrec"
  unfolding txt_seen_def using answered_before by blast

lemma iterativeResolveTXT_loop_sound:
  assumes "iterativeResolveTXT_loop e root qname left server h = (txts, h')"
  shows "prefix h h' \<and> set txts \<subseteq> Collect (txt_seen e h h' qname)"
  using assms
proof (induction left arbitrary: server h)
  case (Suc left)
  from Suc.prems show ?case
  proof (cases rule: iterativeResolveTXT_step)
    case (stop h1)
    then show ?thesis using ctxErr_prefix by auto
  next
    case (query h1 x h2)
    note p = ctxErr_prefix [OF query(1)] ExchangeWithRetry_prefix [OF query(2)]
    have "txt_seen e h h' qname txtrec" if "txtrec \<in> set txts" for txtrec
      using query(4) that answered_before [OF p(1) answered_retry] query(2,3) unfolding txt_seen_def by fastforce
    then show ?thesis using prefix_order.trans [OF p] query(3) by auto
  next
    case (refer h1 resp h2 nxt h3)
    note p = ctxErr_prefix [OF refer(1)] ExchangeWithRetry_prefix [OF refer(2)] nextReferralServer_prefix [OF refer(3)]
    have p3: "prefix h h3" using prefix_order.trans [OF prefix_order.trans [OF p(1,2)] p(3)] .
    from refer(4) show ?thesis
    proof
      assume "iterativeResolveTXT_loop e root qname left nxt h3 = (txts, h')"
      from Suc.IH [OF this] show ?thesis using p3 prefix_order.trans [OF p3] txt_seen_before [OF p3] by blast
    qed (use p3 in auto)
  qed
qed simp

lemma iterativeResolveTXT_sound:
  assumes "iterativeResolveTXT e name h = (txts, h')"
  shows "prefix h h' \<and> set txts \<subseteq> Collect (txt_seen e h h' (dns_Fqdn e name))"
  using assms iterativeResolveTXT_loop_sound by (auto simp: iterativeResolveTXT_def split: list.splits)

lemma resolveSPFRecord_sound:
  assumes "resolveSPFRecord e name h = (r, h')"
  shows "prefix h h'" and "r = Some rec \<Longrightarrow>
    \<exists>txtrec. txt_seen e h h' (dns_Fqdn e name) txtrec \<and> isSPFRecord txtrec \<and> rec = TrimSpace txtrec"
proof -
  obtain txts where t: "iterativeResolveTXT e name h = (txts, h')" and r: "r = map_option TrimSpace (find isSPFRecord txts)"
    using assms by (auto simp: resolveSPFRecord_def split: prod.splits)
  note S = iterativeResolveTXT_sound [OF t]
  then show "prefix h h'" by blast
  assume "r = Some rec"
  then obtain txtrec where "find isSPFRecord txts = Some txtrec" "rec = TrimSpace txtrec" using r by auto
  moreover then have "txtrec \<in> set txts" "isSPFRecord txtrec" by (auto simp: find_Some_iff)
  ultimately show "\<exists>txtrec. txt_seen e h h' (dns_Fqdn e name) txtrec \<and> isSPFRecord txtrec \<and> rec = TrimSpace txtrec"
    using S by blast
qed

lemma resolveSPFRecord_extends:
  assumes "ns_bounded N e" and "resolveSPFRecord e name h = (r, h')"
  shows "extends (spfResolveMaxHops * hop_bound N) h h'"
  using assms(2) iterativeResolveTXT_loop_extends [OF assms(1)]
  by (auto simp: resolveSPFRecord_def iterativeResolveTXT_def split: prod.splits list.splits)

section \<open>Failover over the nameservers\<close>

text \<open>The servers that gave a usable answer to \<open>msg\<close> between \<open>h\<close> and \<open>h'\<close>.\<close>

definition usable_answers :: "penv \<Rightarrow> history \<Rightarrow> history \<Rightarrow> dns_msg \<Rightarrow> (string \<times> response) set" where
  "usable_answers e h h' msg = {(a, r). answered e h h' msg a r \<and> answer_rcode r}"

lemma usable_answers_split:
  assumes "prefix h h1" and "prefix h1 h2"
  shows "usable_answers e h h2 msg = usable_answers e h h1 msg \<union> usable_answers e h1 h2 msg"
  unfolding usable_answers_def answered_split [OF assms] by blast

lemma not_answered_timeNow: "timeNow e h = (t, h') \<Longrightarrow> \<not> answered e h h' m a r"
  by (auto simp: timeNow_def answered_def Cons_eq_append_conv)

lemma usable_timeNow [simp]: "usable_answers e h (snd (timeNow e h)) msg = {}"
  using not_answered_timeNow [of e h "fst (timeNow e h)" "snd (timeNow e h)"] by (simp add: usable_answers_def)

text \<open>
  The outcome of asking \<open>servers\<close>: the records of the one usable answer that was received,
  or nothing when there was none.
\<close>

definition txt_outcome ::
  "penv \<Rightarrow> history \<Rightarrow> history \<Rightarrow> dns_msg \<Rightarrow> string list \<Rightarrow> string list option \<Rightarrow> bool" where
  "txt_outcome e h h' msg servers r = (case r of
     None \<Rightarrow> usable_answers e h h' msg = {}
   | Some txts \<Rightarrow> \<exists>addr resp. addr \<in> set servers \<and> usable_answers e h h' msg = {(addr, resp)} \<and>
       txts = txt_records (rsp_Answer resp))"

lemma txt_outcome_later:
  assumes "txt_outcome e h1 h' msg servers r" and "prefix h h1" "prefix h1 h'"
    and "usable_answers e h h1 msg = {}" and "set servers \<subseteq> set servers'"
  shows "txt_outcome e h h' msg servers' r"
  using assms unfolding txt_outcome_def by (auto simp: usable_answers_split [OF assms(2,3)] split: option.splits)

lemma fetchTXTRecords_loop_spec:
  assumes "fetchTXTRecords_loop e msg nss h = (r, h')"
  shows "extends (2 * length nss) h h' \<and>
    txt_outcome e h h' msg (map (\<lambda>n. ResolveAddress e (NS_IP n)) nss) r"
  using assms
proof (induction nss arbitrary: h)
  case Nil
  then show ?case by (simp add: txt_outcome_def usable_answers_def)
next
  case (Cons ns nss)
  let ?addr = "ResolveAddress e (NS_IP ns)"
  obtain t h1 where t: "timeNow e h = (t, h1)" by fastforce
  obtain x h2 where x: "ExchangeWithRetry e msg ?addr h1 = (x, h2)" by fastforce
  have now: "usable_answers e h h1 msg = {}" using not_answered_timeNow [OF t] by (simp add: usable_answers_def)
  have e2: "extends 2 h h2"
    using extends_step [OF timeNow_extends [OF t] ExchangeWithRetry_extends [OF x], of 2] by simp
  have u2: "usable_answers e h h2 msg = {(a, r). x = Inr r \<and> a = ?addr \<and> answer_rcode r}"
    using usable_answers_split [OF timeNow_prefix [OF t] ExchangeWithRetry_prefix [OF x]] now
    by (auto simp: usable_answers_def answered_ExchangeWithRetry [OF x])
  show ?case
  proof (cases "\<exists>resp. x = Inr resp \<and> answer_rcode resp")
    case True
    then obtain resp where resp: "x = Inr resp" "answer_rcode resp" by blast
    then have "r = Some (txt_records (rsp_Answer resp))" "h' = h2"
      using Cons.prems t x by auto
    then show ?thesis
      using e2 resp by (auto simp: txt_outcome_def u2 intro: extends_mono)
  next
    case False
    obtain s h3 where s: "timeNow e h2 = (s, h3)" by fastforce
    have loop: "fetchTXTRecords_loop e msg nss h3 = (r, h')"
      using Cons.prems t x s False by (auto split: sum.splits)
    note IH = Cons.IH [OF loop]
    have e3: "extends 2 h h3" using extends_step [OF e2 timeNow_extends [OF s], of 2] by simp
    have "usable_answers e h2 h3 msg = {}" using not_answered_timeNow [OF s] by (simp add: usable_answers_def)
    then have "usable_answers e h h3 msg = {}"
      using usable_answers_split [OF extends_prefix [OF e2] timeNow_prefix [OF s]] u2 False by auto
    then have "txt_outcome e h h' msg (map (\<lambda>n. ResolveAddress e (NS_IP n)) (ns # nss)) r"
      by (rule txt_outcome_later [OF IH [THEN conjunct2] extends_prefix [OF e3] extends_prefix [OF IH [THEN conjunct1]]]) auto
    moreover have "extends (2 * length (ns # nss)) h h'"
      by (rule extends_step [OF e3 IH [THEN conjunct1]]) simp
    ultimately show ?thesis by blast
  qed
qed

lemma fetchTXTRecords_spec:
  "fetchTXTRecords e name nss h = (r, h') \<Longrightarrow> extends (2 * length nss) h h' \<and>
    txt_outcome e h h' (SetQuestion (dns_Fqdn e name) TypeTXT) (map (\<lambda>n. ResolveAddress e (NS_IP n)) nss) r"
  unfolding fetchTXTRecords_def by (rule fetchTXTRecords_loop_spec)

section \<open>The prober's results\<close>

lemma spf_results_world:
  assumes step: "\<And>n w name r w'. I n w \<Longrightarrow> resolveSPFRecord e name w = (r, w') \<Longrightarrow> I (Suc n) w'"
    and "I 0 h" and "spf_results e zone txts h = (rs, h')"
  shows "\<exists>n \<le> spfMaxLookups. I n h'"
proof -
  have "h' = h \<or> h' = snd (countSPFLookups (spf_raw (analyzeSPF txts)) (resolveSPFRecord e) h)"
    using assms(3) by (auto simp: spf_results_def Let_def split: if_splits prod.splits)
  then show ?thesis
    using countSPFLookups_invariant [of I h "resolveSPFRecord e", OF assms(2) step] assms(2) by auto
qed

lemma spf_results_prefix [hist_grow]: "spf_results e zone txts h = (rs, h') \<Longrightarrow> prefix h h'"
  using spf_results_world [of "\<lambda>_ w. prefix h w" e h zone txts rs h'] resolveSPFRecord_sound(1) prefix_order.trans
  by (metis prefix_order.refl)

lemma spf_results_extends:
  assumes "ns_bounded N e" and "spf_results e zone txts h = (rs, h')"
  shows "extends (spfMaxLookups * (spfResolveMaxHops * hop_bound N)) h h'"
proof -
  let ?B = "spfResolveMaxHops * hop_bound N"
  have "\<exists>n \<le> spfMaxLookups. extends (n * ?B) h h'"
  proof (rule spf_results_world [where I = "\<lambda>n w. extends (n * ?B) h w", OF _ _ assms(2)])
    fix n w name r w'
    assume "extends (n * ?B) h w" "resolveSPFRecord e name w = (r, w')"
    from extends_step [OF this(1) resolveSPFRecord_extends [OF assms(1) this(2)]]
    show "extends (Suc n * ?B) h w'" by simp
  qed simp
  then show ?thesis by (auto intro: extends_mono)
qed

text \<open>The parts of a run.\<close>

lemma ProbeEmailAuth_run:
  assumes "ProbeEmailAuth e zone nss dlg h = Some (out, h')"
  obtains spfTxts h1 spf h2 dmarcTxts where
    "fetchTXTRecords e zone nss h = (spfTxts, h1)"
    "(case spfTxts of Some txts \<Rightarrow> spf_results e zone txts h1 | None \<Rightarrow> ([], h1)) = (spf, h2)"
    "fetchTXTRecords e (dmarcName e zone) nss h2 = (dmarcTxts, h')"
    "out = Inr (spf @ (case dmarcTxts of Some txts \<Rightarrow> dmarc_results zone txts | None \<Rightarrow> []))"
  using assms by (auto simp: ProbeEmailAuth_def Let_def split: prod.splits)

lemma email_result_sel [simp]:
  "Zone (email_result zone m l) = zone" "Check (email_result zone m l) = ''email_auth''"
  "Metrics (email_result zone m l) = m" "Success (email_result zone m l)"
  by (simp_all add: email_result_def zeroResult_def)

lemma spf_lookup_result_sel [simp]:
  "Zone (spf_lookup_result zone c b) = zone" "Check (spf_lookup_result zone c b) = ''email_auth''"
  "Success (spf_lookup_result zone c b)"
  "map fst (Metrics (spf_lookup_result zone c b)) =
     [''spf_lookup_count'', ''spf_lookup_budget_exceeded'', ''spf_lookup_eval_complete'']"
  by (simp_all add: spf_lookup_result_def)

definition metric_names :: "ProbeResult list \<Rightarrow> string list" where
  "metric_names rs = concat (map (\<lambda>r. map fst (Metrics r)) rs)"

definition email_ok :: "string \<Rightarrow> ProbeResult \<Rightarrow> bool" where
  "email_ok zone r \<longleftrightarrow> Zone r = zone \<and> Check r = ''email_auth'' \<and> Success r"

lemma spf_results_content:
  assumes "spf_results e zone txts h = (rs, h')"
  shows "list_all (email_ok zone) rs \<and> subseq (metric_names rs)
    [''spf_present'', ''spf_record_count'', ''spf_valid'', ''spf_record'', ''spf_terminal_all'',
     ''spf_lookup_count'', ''spf_lookup_budget_exceeded'', ''spf_lookup_eval_complete'']"
  using assms by (auto simp: spf_results_def Let_def metric_names_def email_ok_def split: if_splits prod.splits)

lemma dmarc_results_content:
  "list_all (email_ok zone) (dmarc_results zone txts) \<and> subseq (metric_names (dmarc_results zone txts))
    [''dmarc_present'', ''dmarc_valid'', ''dmarc_rua_present'', ''dmarc_ruf_present'', ''dmarc_policy'',
     ''dmarc_record'', ''dmarc_sp_policy'']"
  by (simp add: dmarc_results_def Let_def metric_names_def email_ok_def)

definition email_metrics :: "string list" where
  "email_metrics =
    [''spf_present'', ''spf_record_count'', ''spf_valid'', ''spf_record'', ''spf_terminal_all'',
     ''spf_lookup_count'', ''spf_lookup_budget_exceeded'', ''spf_lookup_eval_complete'',
     ''dmarc_present'', ''dmarc_valid'', ''dmarc_rua_present'', ''dmarc_ruf_present'', ''dmarc_policy'',
     ''dmarc_record'', ''dmarc_sp_policy'']"

lemma ProbeEmailAuth_content:
  assumes "ProbeEmailAuth e zone nss dlg h = Some (out, h')"
  obtains rs where "out = Inr rs" "prefix h h'" "list_all (email_ok zone) rs" "subseq (metric_names rs) email_metrics"
proof -
  from ProbeEmailAuth_run [OF assms] obtain spfTxts h1 spf h2 dmarcTxts where
    f1: "fetchTXTRecords e zone nss h = (spfTxts, h1)"
    and s: "(case spfTxts of Some txts \<Rightarrow> spf_results e zone txts h1 | None \<Rightarrow> ([], h1)) = (spf, h2)"
    and f2: "fetchTXTRecords e (dmarcName e zone) nss h2 = (dmarcTxts, h')"
    and out: "out = Inr (spf @ (case dmarcTxts of Some txts \<Rightarrow> dmarc_results zone txts | None \<Rightarrow> []))" .
  let ?d = "case dmarcTxts of Some txts \<Rightarrow> dmarc_results zone txts | None \<Rightarrow> []"
  have p: "prefix h h1" "prefix h1 h2" "prefix h2 h'"
    using fetchTXTRecords_spec [OF f1] fetchTXTRecords_spec [OF f2] s spf_results_prefix
    by (auto dest: extends_prefix split: option.splits)
  have S: "list_all (email_ok zone) spf \<and> subseq (metric_names spf) (take 8 email_metrics)"
    using s spf_results_content by (auto simp: email_metrics_def metric_names_def split: option.splits) 
  have D: "list_all (email_ok zone) ?d \<and> subseq (metric_names ?d) (drop 8 email_metrics)"
    using dmarc_results_content by (auto simp: email_metrics_def metric_names_def split: option.splits)
  have "subseq (metric_names (spf @ ?d)) (take 8 email_metrics @ drop 8 email_metrics)"
    using list_emb_append_mono [of "(=)", OF S [THEN conjunct2] D [THEN conjunct2]] by (simp add: metric_names_def)
  then have "subseq (metric_names (spf @ ?d)) email_metrics" by simp
  moreover have "list_all (email_ok zone) (spf @ ?d)" using S D by simp
  ultimately show thesis
    using that out prefix_order.trans [OF prefix_order.trans [OF p(1,2)] p(3)] by blast
qed

lemma ProbeEmailAuth_total: "ProbeEmailAuth e zone nss dlg h \<noteq> None"
  by (simp add: ProbeEmailAuth_def Let_def split: prod.splits)

interpretation email_auth: prober "''email_auth''" ProbeEmailAuth
proof
  fix e zone nss dlg h out h' assume run: "ProbeEmailAuth e zone nss dlg h = Some (out, h')"
  show "\<exists>rs. out = Inr rs" by (rule ProbeEmailAuth_content [OF run]) blast
  show "prefix h h'" by (rule ProbeEmailAuth_content [OF run])
next
  fix e zone nss dlg h rs h' r
  assume run: "ProbeEmailAuth e zone nss dlg h = Some (Inr rs, h')" and r: "r \<in> set rs"
  show "Zone r = zone \<and> Check r = ''email_auth''"
    by (rule ProbeEmailAuth_content [OF run]) (use r in \<open>auto simp: list_all_iff email_ok_def\<close>)
qed (rule ProbeEmailAuth_total)

section \<open>Properties\<close>

text \<open>Failover of a TXT question. At most two exchanges per nameserver; the records are those of the
  one nameserver that gave a usable answer (NOERROR or NXDOMAIN), and the query fails exactly when no
  nameserver gave one.\<close>

lemma txt_failover:
  "case fetchTXTRecords e name nss h of (r, h') \<Rightarrow>
     extends (2 * length nss) h h' \<and>
     txt_outcome e h h' (SetQuestion (dns_Fqdn e name) TypeTXT) (map (\<lambda>n. ResolveAddress e (NS_IP n)) nss) r"
  using fetchTXTRecords_spec [of e name nss h] by (cases "fetchTXTRecords e name nss h") simp

text \<open>An SPF record the lookup counter is given was published: it is the trimmed text of an SPF record
  in a NOERROR or NXDOMAIN answer to the TXT question for the target.\<close>

lemma spf_target_sound:
  "case resolveSPFRecord e name h of
     (None, h') \<Rightarrow> prefix h h'
   | (Some rec, h') \<Rightarrow> \<exists>t. txt_seen e h h' (dns_Fqdn e name) t \<and> isSPFRecord t \<and> rec = TrimSpace t"
proof -
  obtain r h' where r: "resolveSPFRecord e name h = (r, h')" by fastforce
  show ?thesis
    using resolveSPFRecord_sound(1) [OF r] resolveSPFRecord_sound(2) [OF r] unfolding r by (cases r) auto
qed

text \<open>The e-mail prober emits each of its fifteen metrics at most once and in a fixed order, in
  successful results only, whatever the network does and even without root servers; so no two of its
  results compete for one series.\<close>

lemma email_metrics_once:
  "case ProbeEmailAuth e zone nss dlg h of
     Some (Inr rs, h') \<Rightarrow> subseq (concat (map (\<lambda>r. map fst (Metrics r)) rs)) email_metrics \<and>
       distinct (concat (map (\<lambda>r. map fst (Metrics r)) rs)) \<and>
       list_all (\<lambda>r. Zone r = zone \<and> Check r = ''email_auth'' \<and> Success r) rs
   | _ \<Rightarrow> False"
proof -
  obtain out h' where run: "ProbeEmailAuth e zone nss dlg h = Some (out, h')"
    using ProbeEmailAuth_total [of e zone nss dlg h] by auto
  obtain rs where rs: "out = Inr rs" "list_all (email_ok zone) rs" "subseq (metric_names rs) email_metrics"
    by (rule ProbeEmailAuth_content [OF run]) blast
  have "distinct email_metrics" by (simp add: email_metrics_def)
  with rs(3) have "distinct (metric_names rs)" by (auto simp: subseq_conv_nths)
  with rs show ?thesis
    unfolding run by (simp add: metric_names_def email_ok_def [abs_def])
qed

text \<open>C26: the e-mail prober cannot run away. When no response carries more than \<open>N\<close> NS records, a run
  makes at most four exchanges per nameserver and, for the ten SPF targets the budget allows, sixteen hops
  each, every hop a bounded number of exchanges.\<close>

theorem email_exchanges_bounded:
  assumes "ns_bounded N e"
  shows "case ProbeEmailAuth e zone nss dlg h of
     Some (_, h') \<Rightarrow> exchanges h' \<le> exchanges h + 4 * length nss + 10 * (16 * (2 + N * (2 * resolve_bound N 3)))
   | None \<Rightarrow> False"
proof -
  obtain out h' where run: "ProbeEmailAuth e zone nss dlg h = Some (out, h')"
    using ProbeEmailAuth_total [of e zone nss dlg h] by auto
  from ProbeEmailAuth_run [OF this] obtain spfTxts h1 spf h2 dmarcTxts where
    f1: "fetchTXTRecords e zone nss h = (spfTxts, h1)"
    and s: "(case spfTxts of Some txts \<Rightarrow> spf_results e zone txts h1 | None \<Rightarrow> ([], h1)) = (spf, h2)"
    and f2: "fetchTXTRecords e (dmarcName e zone) nss h2 = (dmarcTxts, h')" .
  have "extends (10 * (16 * hop_bound N)) h1 h2"
    using s spf_results_extends [OF assms] by (auto simp: spfMaxLookups_def spfResolveMaxHops_def split: option.splits)
  then have "exchanges h2 \<le> exchanges h1 + 10 * (16 * hop_bound N)" by (rule extends_exchanges)
  moreover have "exchanges h1 \<le> exchanges h + 2 * length nss" "exchanges h' \<le> exchanges h2 + 2 * length nss"
    using fetchTXTRecords_spec [OF f1] fetchTXTRecords_spec [OF f2] extends_exchanges by blast+
  ultimately show ?thesis unfolding run by (simp add: hop_bound_def)
qed

theorem email_exchanges_bounded_witness:
  "case ProbeEmailAuth (static_env example_net) ''z.'' [\<lparr>Hostname = ''n.z.'', NS_IP = ''10.0.0.2''\<rparr>]
       \<lparr>ParentServer = [], NSRecords = [], Glue = []\<rparr> [] of
     Some (_, h') \<Rightarrow> exchanges h' \<le> exchanges [] + 4 * length [\<lparr>Hostname = ''n.z.'', NS_IP = ''10.0.0.2''\<rparr>] +
       10 * (16 * (2 + 1 * (2 * resolve_bound 1 3)))
   | None \<Rightarrow> False"
proof -
  have "ns_bounded 1 (static_env example_net)"
    by (auto simp: ns_bounded_def static_env_def example_net_def rsp_def ns_targets_def split: if_splits)
  then show ?thesis by (rule email_exchanges_bounded)
qed

end
