(* ===== verification/Registry.thy ===== *)
theory Registry
  imports Soa Glue_Probe Mx Email_Auth "HOL-Library.AList"
begin

text \<open>
  From probe results to metrics, \<^verbatim>\<open>prober/registry.go\<close>. The Prometheus registry is a library:
  whether it accepts a gauge, given those accepted before, is the parameter \<open>accepts\<close>; its
  documented rule is the hypothesis \<open>prometheus_rule\<close>. A gauge that is not accepted is dropped.
  A value is a number or the seconds of a duration in nanoseconds.
\<close>

section \<open>Building the registry\<close>

record gauge_desc =
  g_name :: string
  g_help :: string
  g_labels :: "(string \<times> string) list"

datatype gauge_value = Number int | SecondsOf int

type_synonym registry = "(gauge_desc \<times> gauge_value) list"

definition registerGauge ::
  "(gauge_desc list \<Rightarrow> gauge_desc \<Rightarrow> bool) \<Rightarrow> registry \<Rightarrow> gauge_desc \<times> gauge_value \<Rightarrow> registry" where
  "registerGauge accepts reg g = (if accepts (map fst reg) (fst g) then reg @ [g] else reg)"

definition success_help :: string where
  "success_help = ''Whether the query to this nameserver succeeded (1=success, 0=failure).''"

definition duration_help :: string where
  "duration_help = ''Duration of the query to this nameserver in seconds.''"

definition success_labels :: "ProbeResult \<Rightarrow> (string \<times> string) list" where
  "success_labels r = [(''zone'', Zone r), (''nameserver'', Nameserver r), (''ip'', IP r), (''check'', Check r)]"

text \<open>The base labels, with the result's own labels merged over them.\<close>

definition base_labels :: "ProbeResult \<Rightarrow> (string \<times> string) list" where
  "base_labels r = fold (\<lambda>(k, v). AList.update k v) (Labels r)
     [(''zone'', Zone r), (''nameserver'', Nameserver r), (''ip'', IP r)]"

definition result_gauges :: "ProbeResult \<Rightarrow> (gauge_desc \<times> gauge_value) list" where
  "result_gauges r =
     (\<lparr>g_name = ''dnshealth_query_success'', g_help = success_help, g_labels = success_labels r\<rparr>,
       Number (if Success r then 1 else 0)) #
     (\<lparr>g_name = ''dnshealth_query_duration_seconds'', g_help = duration_help, g_labels = success_labels r\<rparr>,
       SecondsOf (Duration r)) #
     map (\<lambda>(name, value). (\<lparr>g_name = ''dnshealth_'' @ name, g_help = [], g_labels = base_labels r\<rparr>, Number value))
       (Metrics r)"

definition BuildRegistry ::
  "(gauge_desc list \<Rightarrow> gauge_desc \<Rightarrow> bool) \<Rightarrow> ProbeResult list \<Rightarrow> registry" where
  "BuildRegistry accepts results =
     fold (\<lambda>r reg. fold (\<lambda>g reg. registerGauge accepts reg g) (result_gauges r) reg) results []"

section \<open>The documented rule\<close>

text \<open>The identity of a time series: the name and the label pairs.\<close>

definition series :: "gauge_desc \<Rightarrow> string \<times> (string \<times> string) set" where
  "series d = (g_name d, set (g_labels d))"

text \<open>Two gauges fit together: of one name only with the same help and label names.\<close>

definition fits :: "gauge_desc \<Rightarrow> gauge_desc \<Rightarrow> bool" where
  "fits d d' \<longleftrightarrow> g_name d = g_name d' \<longrightarrow> g_help d = g_help d' \<and> fst ` set (g_labels d) = fst ` set (g_labels d')"

text \<open>
  \<^verbatim>\<open>Registerer.Register\<close>: an error is returned for a descriptor already registered, and for one
  that is inconsistent with those registered.
\<close>

definition prometheus_rule :: "(gauge_desc list \<Rightarrow> gauge_desc \<Rightarrow> bool) \<Rightarrow> bool" where
  "prometheus_rule accepts \<longleftrightarrow> (\<forall>ds d. accepts ds d \<longleftrightarrow> series d \<notin> series ` set ds \<and> (\<forall>d'. d' \<in> set ds \<longrightarrow> fits d d'))"

definition value_of :: "registry \<Rightarrow> string \<times> (string \<times> string) set \<Rightarrow> gauge_value option" where
  "value_of reg = map_of (map (\<lambda>(d, v). (series d, v)) reg)"

definition all_gauges :: "ProbeResult list \<Rightarrow> registry" where
  "all_gauges rs = concat (map result_gauges rs)"

definition consistent :: "registry \<Rightarrow> bool" where
  "consistent gs \<longleftrightarrow> (\<forall>d v d' v'. (d, v) \<in> set gs \<longrightarrow> (d', v') \<in> set gs \<longrightarrow> fits d d')"

lemma BuildRegistry_fold: "BuildRegistry accepts rs = fold (\<lambda>g reg. registerGauge accepts reg g) (all_gauges rs) []"
proof -
  have "fold (\<lambda>r reg. fold f (h r) reg) rs x = fold f (concat (map h rs)) x" for f :: "'b \<Rightarrow> 'c \<Rightarrow> 'c" and h x
    by (induction rs arbitrary: x) auto
  then show ?thesis by (simp add: BuildRegistry_def all_gauges_def)
qed

lemma value_of_append: "value_of (xs @ ys) = value_of ys ++ value_of xs"
  by (simp add: value_of_def)

lemma value_of_None: "value_of reg s = None \<longleftrightarrow> s \<notin> (\<lambda>g. series (fst g)) ` set reg"
  by (auto simp: value_of_def map_of_eq_None_iff image_iff split: prod.splits)

lemma register_all_first_wins:
  assumes rule: "prometheus_rule accepts" and "consistent (reg @ gs)"
  shows "value_of (fold (\<lambda>g reg. registerGauge accepts reg g) gs reg) = value_of gs ++ value_of reg"
  using assms(2)
proof (induction gs arbitrary: reg)
  case (Cons g gs)
  obtain d v where g: "g = (d, v)" by fastforce
  have fit: "\<forall>d'. d' \<in> set (map fst reg) \<longrightarrow> fits d d'"
    using Cons.prems by (auto simp: consistent_def g)
  have vcons: "value_of (g # gs) = value_of gs ++ value_of [g]" using value_of_append [of "[g]" gs] by simp
  show ?case
  proof (cases "series d \<in> series ` set (map fst reg)")
    case True
    then have "\<not> accepts (map fst reg) d" using rule by (simp add: prometheus_rule_def)
    then have "value_of (fold (\<lambda>g reg. registerGauge accepts reg g) (g # gs) reg) = value_of gs ++ value_of reg"
      using Cons.IH [of reg] Cons.prems by (auto simp: registerGauge_def g consistent_def)
    moreover have "value_of [g] ++ value_of reg = value_of reg"
    proof -
      have "value_of reg (series d) \<noteq> None" using True by (auto simp: value_of_None image_iff)
      then show ?thesis by (auto simp: value_of_def g fun_eq_iff map_add_def split: option.splits)
    qed
    ultimately show ?thesis by (simp add: vcons map_add_assoc [symmetric])
  next
    case False
    then have "accepts (map fst reg) d" using rule fit by (simp add: prometheus_rule_def)
    then have "fold (\<lambda>g reg. registerGauge accepts reg g) (g # gs) reg =
        fold (\<lambda>g reg. registerGauge accepts reg g) gs (reg @ [g])"
      by (simp add: registerGauge_def g)
    moreover have "value_of (fold (\<lambda>g reg. registerGauge accepts reg g) gs (reg @ [g])) = value_of gs ++ value_of (reg @ [g])"
      using Cons.prems by (intro Cons.IH) simp
    ultimately show ?thesis by (simp add: vcons value_of_append)
  qed
qed (simp add: value_of_def)

lemma BuildRegistry_first_wins:
  assumes "prometheus_rule accepts" and "consistent (all_gauges rs)"
  shows "value_of (BuildRegistry accepts rs) = value_of (all_gauges rs)"
  using register_all_first_wins [OF assms(1), of "[]" "all_gauges rs"] assms(2)
  by (simp add: BuildRegistry_fold) (simp add: value_of_def)

section \<open>The label schema\<close>

text \<open>The label names, beyond zone, nameserver and ip, that go with each metric of a prober.\<close>

definition metric_schema :: "(string \<times> string list) list" where
  "metric_schema =
     map (\<lambda>m. (m, [''mname'']))
       [''soa_serial'', ''soa_refresh_seconds'', ''soa_retry_seconds'', ''soa_expire_seconds'',
        ''soa_minimum_seconds'', ''soa_mname'', ''soa_mname_in_ns_set'', ''soa_mname_resolves''] @
     map (\<lambda>m. (m, []))
       [''ns_recursion_available'', ''ns_hostname_syntax_valid'', ''ns_hostname_is_cname'',
        ''spf_present'', ''spf_record_count'', ''spf_valid'', ''spf_lookup_count'',
        ''spf_lookup_budget_exceeded'', ''spf_lookup_eval_complete'', ''dmarc_present'', ''dmarc_valid'',
        ''dmarc_rua_present'', ''dmarc_ruf_present''] @
     [(''ns_record'', [''source'']), (''ns_glue'', [''source'']),
      (''ns_classification'', [''classification'']), (''ns_stealth_reachable'', [''classification'']),
      (''mx_info'', [''target'', ''priority'']), (''mx_resolves'', [''target'']), (''mx_is_cname'', [''target'']),
      (''mx_syntax_valid'', [''target'']), (''spf_record'', [''record'']), (''dmarc_record'', [''record'']),
      (''spf_terminal_all'', [''qualifier'']), (''dmarc_policy'', [''policy'']), (''dmarc_sp_policy'', [''policy''])]"

definition schema_ok :: "ProbeResult \<Rightarrow> bool" where
  "schema_ok r \<longleftrightarrow> list_all (\<lambda>(m, v). map_of metric_schema m = Some (map fst (Labels r))) (Metrics r)"

lemma base_labels_names: "fst ` set (base_labels r) = {''zone'', ''nameserver'', ''ip''} \<union> set (map fst (Labels r))"
proof -
  have "fst ` set (fold (\<lambda>(k, v). AList.update k v) ls b) = fst ` set b \<union> set (map fst ls)"
    for ls and b :: "(string \<times> string) list"
  proof (induction ls arbitrary: b)
    case (Cons l ls)
    obtain k v where l: "l = (k, v)" by fastforce
    have "fst ` set (AList.update k v b) = insert k (fst ` set b)"
      by (metis dom_map_of_conv_image_fst dom_fun_upd option.distinct(1) update_conv')
    with Cons show ?case by (simp add: l)
  qed simp
  then show ?thesis by (simp add: base_labels_def insert_commute)
qed

lemma schema_not_query: "map_of metric_schema ''query_success'' = None" "map_of metric_schema ''query_duration_seconds'' = None"
  by code_simp+

lemma schema_lookup:
  "map_of metric_schema ''soa_serial'' = Some [''mname'']"
  "map_of metric_schema ''soa_refresh_seconds'' = Some [''mname'']"
  "map_of metric_schema ''soa_retry_seconds'' = Some [''mname'']"
  "map_of metric_schema ''soa_expire_seconds'' = Some [''mname'']"
  "map_of metric_schema ''soa_minimum_seconds'' = Some [''mname'']"
  "map_of metric_schema ''soa_mname'' = Some [''mname'']"
  "map_of metric_schema ''soa_mname_in_ns_set'' = Some [''mname'']"
  "map_of metric_schema ''soa_mname_resolves'' = Some [''mname'']"
  "map_of metric_schema ''ns_recursion_available'' = Some []"
  "map_of metric_schema ''ns_hostname_syntax_valid'' = Some []"
  "map_of metric_schema ''ns_hostname_is_cname'' = Some []"
  "map_of metric_schema ''spf_present'' = Some []"
  "map_of metric_schema ''spf_record_count'' = Some []"
  "map_of metric_schema ''spf_valid'' = Some []"
  "map_of metric_schema ''spf_lookup_count'' = Some []"
  "map_of metric_schema ''spf_lookup_budget_exceeded'' = Some []"
  "map_of metric_schema ''spf_lookup_eval_complete'' = Some []"
  "map_of metric_schema ''dmarc_present'' = Some []"
  "map_of metric_schema ''dmarc_valid'' = Some []"
  "map_of metric_schema ''dmarc_rua_present'' = Some []"
  "map_of metric_schema ''dmarc_ruf_present'' = Some []"
  "map_of metric_schema ''ns_record'' = Some [''source'']"
  "map_of metric_schema ''ns_glue'' = Some [''source'']"
  "map_of metric_schema ''ns_classification'' = Some [''classification'']"
  "map_of metric_schema ''ns_stealth_reachable'' = Some [''classification'']"
  "map_of metric_schema ''mx_info'' = Some [''target'', ''priority'']"
  "map_of metric_schema ''mx_resolves'' = Some [''target'']"
  "map_of metric_schema ''mx_is_cname'' = Some [''target'']"
  "map_of metric_schema ''mx_syntax_valid'' = Some [''target'']"
  "map_of metric_schema ''spf_record'' = Some [''record'']"
  "map_of metric_schema ''dmarc_record'' = Some [''record'']"
  "map_of metric_schema ''spf_terminal_all'' = Some [''qualifier'']"
  "map_of metric_schema ''dmarc_policy'' = Some [''policy'']"
  "map_of metric_schema ''dmarc_sp_policy'' = Some [''policy'']"
  by code_simp+

definition query_help :: "(string \<times> string) list" where
  "query_help = [(''query_success'', success_help), (''query_duration_seconds'', duration_help)]"

text \<open>The help and the label names of every gauge, by its name without the prefix.\<close>

definition gauge_schema :: "string \<Rightarrow> (string \<times> string set) option" where
  "gauge_schema m = (case map_of query_help m of
       Some help \<Rightarrow> Some (help, {''zone'', ''nameserver'', ''ip'', ''check''})
     | None \<Rightarrow> map_option (\<lambda>ls. ([], {''zone'', ''nameserver'', ''ip''} \<union> set ls)) (map_of metric_schema m))"

definition in_schema :: "gauge_desc \<Rightarrow> bool" where
  "in_schema d \<longleftrightarrow> (\<exists>m. g_name d = ''dnshealth_'' @ m \<and> gauge_schema m = Some (g_help d, fst ` set (g_labels d)))"

lemma in_schema_fits:
  assumes "in_schema d" and "in_schema d'"
  shows "fits d d'"
proof -
  obtain m m' where m: "g_name d = ''dnshealth_'' @ m" "gauge_schema m = Some (g_help d, fst ` set (g_labels d))"
    and m': "g_name d' = ''dnshealth_'' @ m'" "gauge_schema m' = Some (g_help d', fst ` set (g_labels d'))"
    using assms unfolding in_schema_def by blast
  have "g_name d = g_name d' \<Longrightarrow> m = m'" using m(1) m'(1) by simp
  with m(2) m'(2) have "g_name d = g_name d' \<Longrightarrow> (g_help d, fst ` set (g_labels d)) = (g_help d', fst ` set (g_labels d'))"
    by (metis option.inject)
  then show ?thesis by (simp add: fits_def)
qed

lemma metric_not_query: "map_of metric_schema m = Some ls \<Longrightarrow> map_of query_help m = None"
  using schema_not_query by (auto simp: query_help_def)

lemma query_in_schema:
  "in_schema \<lparr>g_name = ''dnshealth_query_success'', g_help = success_help, g_labels = success_labels r\<rparr>"
  "in_schema \<lparr>g_name = ''dnshealth_query_duration_seconds'', g_help = duration_help, g_labels = success_labels r\<rparr>"
  unfolding in_schema_def
   by (intro exI [of _ "''query_success''"], simp add: gauge_schema_def query_help_def success_labels_def)
     (intro exI [of _ "''query_duration_seconds''"], simp add: gauge_schema_def query_help_def success_labels_def)

lemma metric_in_schema:
  assumes "schema_ok r" and "(m, x) \<in> set (Metrics r)"
  shows "in_schema \<lparr>g_name = ''dnshealth_'' @ m, g_help = [], g_labels = base_labels r\<rparr>"
proof -
  have ms: "map_of metric_schema m = Some (map fst (Labels r))"
    using assms by (auto simp: schema_ok_def list_all_iff)
  then show ?thesis unfolding in_schema_def
    by (intro exI [of _ m]) (simp add: gauge_schema_def metric_not_query [OF ms] base_labels_names)
qed

lemma schema_gauges:
  assumes "schema_ok r" and "(d, v) \<in> set (result_gauges r)"
  shows "in_schema d"
  using assms(2) query_in_schema metric_in_schema [OF assms(1)]
  by (auto simp only: result_gauges_def list.set set_map split: prod.splits)

lemma schema_consistent:
  assumes "list_all schema_ok rs"
  shows "consistent (all_gauges rs)"
proof -
  have "in_schema d" if "(d, v) \<in> set (all_gauges rs)" for d v
    using that assms schema_gauges by (auto simp: all_gauges_def list_all_iff)
  with in_schema_fits show ?thesis unfolding consistent_def by blast
qed

section \<open>Every prober keeps to the schema\<close>

text \<open>Each metric is of one prober.\<close>

definition metric_prober :: "(string \<times> string) list" where
  "metric_prober =
     map (\<lambda>m. (m, ''soa''))
       [''soa_serial'', ''soa_refresh_seconds'', ''soa_retry_seconds'', ''soa_expire_seconds'',
        ''soa_minimum_seconds'', ''soa_mname'', ''soa_mname_in_ns_set'', ''soa_mname_resolves''] @
     map (\<lambda>m. (m, ''email_auth''))
       [''spf_present'', ''spf_record_count'', ''spf_valid'', ''spf_lookup_count'', ''spf_lookup_budget_exceeded'',
        ''spf_lookup_eval_complete'', ''spf_record'', ''spf_terminal_all'', ''dmarc_present'', ''dmarc_valid'',
        ''dmarc_rua_present'', ''dmarc_ruf_present'', ''dmarc_record'', ''dmarc_policy'', ''dmarc_sp_policy''] @
     map (\<lambda>m. (m, ''mx'')) [''mx_info'', ''mx_resolves'', ''mx_is_cname'', ''mx_syntax_valid''] @
     [(''ns_recursion_available'', ''recursion''),
      (''ns_hostname_syntax_valid'', ''ns_hostname''), (''ns_hostname_is_cname'', ''ns_hostname''),
      (''ns_record'', ''glue''), (''ns_glue'', ''glue''),
      (''ns_classification'', ''ns_classification''), (''ns_stealth_reachable'', ''ns_classification'')]"

definition proper :: "ProbeResult \<Rightarrow> bool" where
  "proper r \<longleftrightarrow> schema_ok r \<and> list_all (\<lambda>(m, v). map_of metric_prober m = Some (Check r)) (Metrics r)"

lemma proper_schema: "proper r \<Longrightarrow> schema_ok r" "list_all proper rs \<Longrightarrow> list_all schema_ok rs"
  by (simp_all add: proper_def list_all_iff)

lemma owner_lookup:
  "map_of metric_prober ''soa_serial'' = Some ''soa''"
  "map_of metric_prober ''soa_refresh_seconds'' = Some ''soa''"
  "map_of metric_prober ''soa_retry_seconds'' = Some ''soa''"
  "map_of metric_prober ''soa_expire_seconds'' = Some ''soa''"
  "map_of metric_prober ''soa_minimum_seconds'' = Some ''soa''"
  "map_of metric_prober ''soa_mname'' = Some ''soa''"
  "map_of metric_prober ''soa_mname_in_ns_set'' = Some ''soa''"
  "map_of metric_prober ''soa_mname_resolves'' = Some ''soa''"
  "map_of metric_prober ''spf_present'' = Some ''email_auth''"
  "map_of metric_prober ''spf_record_count'' = Some ''email_auth''"
  "map_of metric_prober ''spf_valid'' = Some ''email_auth''"
  "map_of metric_prober ''spf_lookup_count'' = Some ''email_auth''"
  "map_of metric_prober ''spf_lookup_budget_exceeded'' = Some ''email_auth''"
  "map_of metric_prober ''spf_lookup_eval_complete'' = Some ''email_auth''"
  "map_of metric_prober ''spf_record'' = Some ''email_auth''"
  "map_of metric_prober ''spf_terminal_all'' = Some ''email_auth''"
  "map_of metric_prober ''dmarc_present'' = Some ''email_auth''"
  "map_of metric_prober ''dmarc_valid'' = Some ''email_auth''"
  "map_of metric_prober ''dmarc_rua_present'' = Some ''email_auth''"
  "map_of metric_prober ''dmarc_ruf_present'' = Some ''email_auth''"
  "map_of metric_prober ''dmarc_record'' = Some ''email_auth''"
  "map_of metric_prober ''dmarc_policy'' = Some ''email_auth''"
  "map_of metric_prober ''dmarc_sp_policy'' = Some ''email_auth''"
  "map_of metric_prober ''mx_info'' = Some ''mx''"
  "map_of metric_prober ''mx_resolves'' = Some ''mx''"
  "map_of metric_prober ''mx_is_cname'' = Some ''mx''"
  "map_of metric_prober ''mx_syntax_valid'' = Some ''mx''"
  "map_of metric_prober ''ns_recursion_available'' = Some ''recursion''"
  "map_of metric_prober ''ns_hostname_syntax_valid'' = Some ''ns_hostname''"
  "map_of metric_prober ''ns_hostname_is_cname'' = Some ''ns_hostname''"
  "map_of metric_prober ''ns_record'' = Some ''glue''"
  "map_of metric_prober ''ns_glue'' = Some ''glue''"
  "map_of metric_prober ''ns_classification'' = Some ''ns_classification''"
  "map_of metric_prober ''ns_stealth_reachable'' = Some ''ns_classification''"
  by code_simp+

locale schema_prober = prober +
  assumes schema: "fn e zone nss dlg h = Some (Inr rs, h') \<Longrightarrow> list_all proper rs"
begin

lemma consistent_gauges: "fn e zone nss dlg h = Some (Inr rs, h') \<Longrightarrow> consistent (all_gauges rs)"
  using schema schema_consistent proper_schema by blast

end

named_theorems schema_facts \<open>the schema of the results of each prober\<close>

lemma list_all2_list_all: "list_all2 P xs ys \<Longrightarrow> (\<And>x y. P x y \<Longrightarrow> Q y) \<Longrightarrow> list_all Q ys"
  by (induction xs ys rule: list_all2_induct) auto

lemma schema_no_metrics [simp]: "Metrics r = [] \<Longrightarrow> proper r"
  by (simp add: proper_def schema_ok_def)

lemma schema_hostname [schema_facts]: "proper (hostname_result zone ns c)"
  by (simp add: proper_def schema_ok_def hostname_result_def schema_lookup owner_lookup)

lemma schema_soa [schema_facts]: "proper (soa_result e zone ns nsSet v dur x)"
proof (cases "\<exists>resp soa. x = Inr resp \<and> first_SOA (rsp_Answer resp) = Some soa")
  case True
  then show ?thesis
    by (auto simp: proper_def schema_ok_def soa_result_def soa_metrics_def schema_lookup owner_lookup Let_def)
next
  case False
  then have "Metrics (soa_result e zone ns nsSet v dur x) = []"
    by (auto simp: soa_result_def Let_def split: sum.splits option.splits)
  then show ?thesis by simp
qed

lemma schema_recursion [schema_facts]: "proper (recursion_result zone ns dur x)"
  by (cases x) (simp_all add: proper_def schema_ok_def recursion_result_def schema_lookup owner_lookup Let_def)

lemma schema_glue [schema_facts]: "m \<in> {''ns_record'', ''ns_glue''} \<Longrightarrow> proper (glue_result zone src m ns)"
  by (auto simp: proper_def schema_ok_def glue_result_def zeroResult_def schema_lookup owner_lookup)

lemma schema_classification [schema_facts]: "proper (classification_result zone host ip c v)"
  by (cases v) (simp_all add: proper_def schema_ok_def classification_result_def zeroResult_def schema_lookup owner_lookup)

lemma schema_mx [schema_facts]:
  "proper (mx_failure zone ip err)" "proper (mx_query_result zone ip)" "proper (mx_info zone t p)"
  "proper (mx_validity zone t [(''mx_syntax_valid'', 1)])" "proper (mx_validity zone t (mx_checks u a b))"
  by (simp_all add: proper_def schema_ok_def mx_failure_def mx_query_result_def zeroResult_def mx_info_def mx_validity_def
      mx_checks_def schema_lookup owner_lookup)

lemma email_schema:
  "proper (email_result zone [(''spf_present'', a), (''spf_record_count'', b), (''spf_valid'', c)] [])"
  "proper (email_result zone [(''spf_record'', a)] [(''record'', t)])"
  "proper (email_result zone [(''spf_terminal_all'', a)] [(''qualifier'', t)])"
  "proper (spf_lookup_result zone n complete)"
  "proper (email_result zone [(''dmarc_present'', a), (''dmarc_valid'', b), (''dmarc_rua_present'', c),
     (''dmarc_ruf_present'', d)] [])"
  "proper (email_result zone [(''dmarc_policy'', a)] [(''policy'', t)])"
  "proper (email_result zone [(''dmarc_record'', a)] [(''record'', t)])"
  "proper (email_result zone [(''dmarc_sp_policy'', a)] [(''policy'', t)])"
  by (simp_all add: proper_def schema_ok_def email_result_def zeroResult_def spf_lookup_result_def schema_lookup owner_lookup)

lemma schema_spf [schema_facts]: "spf_results e zone txts h = (rs, h') \<Longrightarrow> list_all proper rs"
  unfolding spf_results_def Let_def by (auto simp: email_schema split: if_splits prod.splits)

lemma schema_dmarc [schema_facts]: "list_all proper (dmarc_results zone txts)"
  unfolding dmarc_results_def Let_def by (simp add: email_schema)

interpretation ns_hostname_schema: schema_prober "''ns_hostname''" ProbeNSHostname
proof unfold_locales
  fix e zone nss dlg h rs h' assume run: "ProbeNSHostname e zone nss dlg h = Some (Inr rs, h')"
  show "list_all proper rs"
    by (rule ProbeNSHostname_results [OF run]) (simp add: list_all_iff schema_facts)
qed

interpretation soa_schema: schema_prober "''soa''" ProbeSOA
proof unfold_locales
  fix e zone nss dlg h rs h' assume run: "ProbeSOA e zone nss dlg h = Some (Inr rs, h')"
  show "list_all proper rs"
    by (rule ProbeSOA_reports [OF run], simp, erule list_all2_list_all) (auto simp: soa_reported_def schema_facts)
qed

interpretation recursion_schema: schema_prober "''recursion''" ProbeRecursion
proof unfold_locales
  fix e zone nss dlg h rs h' assume run: "ProbeRecursion e zone nss dlg h = Some (Inr rs, h')"
  show "list_all proper rs"
    by (rule ProbeRecursion_reports [OF run], simp, erule list_all2_list_all) (auto simp: recursion_reported_def schema_facts)
qed

lemma ProbeGlue_schema:
  assumes "ProbeGlue e zone nss dlg h = Some (Inr rs, h')"
  shows "list_all proper rs"
proof -
  obtain self views k where views: "self_views e zone nss h = (views, k)"
    and eq: "ProbeGlue e zone nss dlg h = Some (Inr (map (glue_result zone ''parent'' ''ns_record'') (NSRecords dlg) @
           map (glue_result zone ''parent'' ''ns_glue'') (Glue dlg) @ self), k)"
    and loop: "ProbeGlue_loop e zone nss [] h = (self, k)" by (rule ProbeGlue_run)
  have "proper r" if r: "r \<in> set self" for r
  proof (cases "Success r")
    case True
    then have "r \<in> glue_success zone (reported views)"
      using r ProbeGlue_loop_spec [OF loop views] by (auto simp: Let_def)
    then show ?thesis by (auto simp: glue_success_def intro: schema_glue)
  next
    case False
    then show ?thesis using r ProbeGlue_loop_spec [OF loop views] by auto
  qed
  then show ?thesis using assms eq by (auto simp: list_all_iff intro: schema_glue)
qed

interpretation glue_schema: schema_prober "''glue''" ProbeGlue
  by unfold_locales (rule ProbeGlue_schema)

interpretation ns_classification_schema: schema_prober "''ns_classification''" ProbeNSClassification
proof unfold_locales
  fix e zone nss dlg h rs h' assume run: "ProbeNSClassification e zone nss dlg h = Some (Inr rs, h')"
  show "list_all proper rs"
    by (rule ProbeNSClassification_results [OF run], simp, erule list_all2_list_all)
      (auto simp: result_for_def expected_result_def schema_facts)
qed

lemma mx_results_schema:
  assumes "mx_results e zone mxs h h' rs"
  shows "list_all proper rs"
proof -
  have "proper r" if r: "r \<in> set rs" for r
  proof (cases "is_info r")
    case True
    then have "r \<in> set (filter is_info rs)" using r by simp
    with assms show ?thesis by (auto simp: mx_results_def schema_facts)
  next
    case False
    then have "r \<in> set (filter (\<lambda>r. \<not> is_info r) rs)" using r by simp
    with assms obtain t where "mx_valid_result e zone h h' t r"
      unfolding mx_results_def by (blast elim: list_all2_in)
    then show ?thesis by (auto simp: mx_valid_result_def schema_facts split: if_splits)
  qed
  then show ?thesis by (simp add: list_all_iff)
qed

interpretation mx_schema: schema_prober "''mx''" ProbeMX
proof unfold_locales
  fix e zone nss dlg h rs h' assume "ProbeMX e zone nss dlg h = Some (Inr rs, h')"
  note R = ProbeMX_results [OF this]
  show "list_all proper rs"
  proof (cases "nss = []")
    case True
    with R show ?thesis by simp
  next
    case False
    obtain ip x h1 where f: "mx_failover e zone nss [] (Inr []) h = (ip, x, h1)" by (metis prod_cases3)
    show ?thesis
    proof (cases x)
      case (Inl err)
      then show ?thesis using R False f by (simp add: schema_mx(1))
    next
      case (Inr mxs)
      then obtain rs' where "rs = mx_query_result zone ip # rs'" "mx_results e zone mxs h1 h' rs'"
        using R False f by auto
      then show ?thesis using mx_results_schema by (simp add: schema_mx(2))
    qed
  qed
qed

interpretation email_auth_schema: schema_prober "''email_auth''" ProbeEmailAuth
proof unfold_locales
  fix e zone nss dlg h rs h' assume run: "ProbeEmailAuth e zone nss dlg h = Some (Inr rs, h')"
  obtain spfTxts h1 spf h2 dmarcTxts where
    spf: "(case spfTxts of Some txts \<Rightarrow> spf_results e zone txts h1 | None \<Rightarrow> ([], h1)) = (spf, h2)"
    and rs: "rs = spf @ (case dmarcTxts of Some txts \<Rightarrow> dmarc_results zone txts | None \<Rightarrow> [])"
    using ProbeEmailAuth_run [OF run] by (metis sum.inject(2))
  have "list_all proper spf" using spf schema_spf by (auto split: option.splits)
  moreover have "list_all proper (case dmarcTxts of Some txts \<Rightarrow> dmarc_results zone txts | None \<Rightarrow> [])"
    by (simp add: schema_dmarc split: option.split)
  ultimately show "list_all proper rs" by (simp add: rs)
qed

section \<open>Properties\<close>

text \<open>C14: the first result wins. Given the documented rule of the Prometheus registry and results within
  the label schema all probers keep to, every series of the built registry has the value of the first
  result that has it, and no series is lost: later duplicates are dropped and nothing else is.\<close>

theorem registry_first_wins:
  assumes "prometheus_rule accepts" and "list_all schema_ok rs"
  shows "value_of (BuildRegistry accepts rs) = value_of (all_gauges rs)"
  by (rule BuildRegistry_first_wins [OF assms(1) schema_consistent [OF assms(2)]])

text \<open>The rule as a function.\<close>

definition documented_accepts :: "gauge_desc list \<Rightarrow> gauge_desc \<Rightarrow> bool" where
  "documented_accepts ds d \<longleftrightarrow> list_all (\<lambda>d'. fits d d' \<and>
     \<not> (g_name d' = g_name d \<and> set (g_labels d') = set (g_labels d))) ds"

lemma documented_accepts_rule: "prometheus_rule documented_accepts"
  by (auto simp: prometheus_rule_def documented_accepts_def list_all_iff series_def image_iff)

definition two_infos :: "ProbeResult list" where
  "two_infos = [mx_info ''z'' ''m'' 5, mx_info ''z'' ''m'' 5]"

theorem registry_first_wins_witness:
  "value_of (BuildRegistry documented_accepts two_infos) = value_of (all_gauges two_infos)"
  by (rule registry_first_wins [OF documented_accepts_rule]) (simp add: two_infos_def proper_schema schema_mx)

text \<open>The series of the success of a glue check.\<close>

definition glue_success_series :: "string \<Rightarrow> nameserver \<Rightarrow> string \<times> (string \<times> string) set" where
  "glue_success_series zone ns = (''dnshealth_query_success'',
     {(''zone'', zone), (''nameserver'', Hostname ns), (''ip'', NS_IP ns), (''check'', ''glue'')})"

lemma success_gauge:
  assumes ok: "schema_ok r" and "(d, v) \<in> set (result_gauges r)" and name: "g_name d = ''dnshealth_query_success''"
  shows "v = Number (if Success r then 1 else 0)"
proof -
  have prefix: "m = ''query_success''" if "''dnshealth_query_success'' = ''dnshealth_'' @ m" for m
    using that by simp
  consider "v = Number (if Success r then 1 else 0)" | "g_name d = ''dnshealth_query_duration_seconds''"
    | m x where "(m, x) \<in> set (Metrics r)" "g_name d = ''dnshealth_'' @ m"
    using assms(2) unfolding result_gauges_def by auto
  then show ?thesis
  proof cases
    case 3
    then have "m = ''query_success''" using name prefix by metis
    moreover have "map_of metric_schema m \<noteq> None"
      using ok 3(1) by (auto simp: schema_ok_def list_all_iff)
    ultimately show ?thesis using schema_not_query by simp
  qed (use name in simp_all)
qed

lemma success_series_value:
  assumes "list_all schema_ok rs" and "list_all Success rs"
    and "r \<in> set rs" and "s = (''dnshealth_query_success'', set (success_labels r))"
  shows "value_of (all_gauges rs) s = Some (Number 1)"
proof -
  have "(\<lparr>g_name = ''dnshealth_query_success'', g_help = success_help, g_labels = success_labels r\<rparr>,
      Number (if Success r then 1 else 0)) \<in> set (result_gauges r)"
    unfolding result_gauges_def by (rule list.set_intros(1))
  then have "value_of (all_gauges rs) s \<noteq> None"
    using assms(3,4) unfolding value_of_None all_gauges_def
    by (auto simp: image_iff series_def intro!: bexI [of _ r] bexI)
  then obtain v where v: "value_of (all_gauges rs) s = Some v" by blast
  then obtain d r' where d: "(d, v) \<in> set (result_gauges r')" "r' \<in> set rs" "series d = s"
    by (auto simp: value_of_def all_gauges_def dest!: map_of_SomeD)
  then have "g_name d = ''dnshealth_query_success''" using assms(4) by (simp add: series_def)
  with d have "v = Number (if Success r' then 1 else 0)" using success_gauge assms(1) by (auto simp: list_all_iff)
  with assms(2) d(2) v show ?thesis by (simp add: list_all_iff)
qed

text \<open>C39: the parent's word hides a failed self query. The results of the parent's view come first and
  report success for each name and address of the parent's NS records, so query_success of the check
  \<open>glue\<close> is 1 for those, whatever the nameserver answered when it was queried itself.\<close>

theorem glue_success_masked:
  assumes "prometheus_rule accepts" and "ns \<in> set (NSRecords dlg)"
    and "ProbeGlue e zone nss dlg h = Some (Inr rs, h')"
  shows "value_of (BuildRegistry accepts rs) (glue_success_series zone ns) = Some (Number 1)"
proof -
  define parent where "parent = map (glue_result zone ''parent'' ''ns_record'') (NSRecords dlg)"
  obtain rest where rs: "rs = parent @ rest"
    using assms(3) by (auto simp: ProbeGlue_def parent_def split: prod.splits)
  have ok: "list_all schema_ok parent" by (simp add: parent_def list_all_iff proper_schema schema_glue)
  have "value_of (all_gauges parent) (glue_success_series zone ns) = Some (Number 1)"
  proof (rule success_series_value [OF ok, of "glue_result zone ''parent'' ''ns_record'' ns"])
    show "list_all Success parent" by (simp add: parent_def list_all_iff)
    show "glue_result zone ''parent'' ''ns_record'' ns \<in> set parent" using assms(2) by (simp add: parent_def)
  qed (simp add: glue_success_series_def success_labels_def glue_result_def zeroResult_def)
  moreover have "value_of (BuildRegistry accepts rs) = value_of (all_gauges rs)"
    using BuildRegistry_first_wins [OF assms(1) schema_consistent] proper_schema(2) [OF ProbeGlue_schema [OF assms(3)]] by blast
  ultimately show ?thesis by (simp add: rs all_gauges_def value_of_append)
qed

text \<open>A zone whose only nameserver does not answer.\<close>

definition silent_server :: nameserver where
  "silent_server = \<lparr>Hostname = ''ns.z.'', NS_IP = ''192.0.2.5''\<rparr>"

definition silent_zone :: DelegationResult where
  "silent_zone = \<lparr>ParentServer = ''192.0.2.1'', NSRecords = [silent_server], Glue = []\<rparr>"

definition silent_env :: penv where
  "silent_env = \<lparr>net_exchange = \<lambda>_ _ _ _. Inl (NetError True), ctx_Err = \<lambda>_. True, clock = \<lambda>_. 0,
     dns_Fqdn = \<lambda>d. d @ ''.'', client_Timeout = 5, RootServers = [], ResolveAddress = id\<rparr>"

lemma silent_run:
  "ProbeGlue silent_env ''z'' [silent_server] silent_zone [] = Some (Inr
     [glue_result ''z'' ''parent'' ''ns_record'' silent_server,
      (zeroResult ''z'' ''glue'')\<lparr>Nameserver := ''ns.z.'', IP := ''192.0.2.5'', TimedOut := True\<rparr>],
     [EvExchange 5 (SetQuestion ''z.'' TypeNS) ''192.0.2.5'', EvCtx])"
  by (simp add: ProbeGlue_def querySelfForNSAndA_def ExchangeWithRetry_def ExchangeContext_def ctxErr_def
      silent_env_def silent_zone_def silent_server_def)

theorem glue_success_masked_witness:
  "value_of (BuildRegistry documented_accepts
     [glue_result ''z'' ''parent'' ''ns_record'' silent_server,
      (zeroResult ''z'' ''glue'')\<lparr>Nameserver := ''ns.z.'', IP := ''192.0.2.5'', TimedOut := True\<rparr>])
     (glue_success_series ''z'' silent_server) = Some (Number 1)"
  by (rule glue_success_masked [OF documented_accepts_rule _ silent_run]) (simp add: silent_zone_def)

end
