(* ===== verification/Zone_Probe.thy ===== *)
theory Zone_Probe
  imports Registry "HOL-Library.Multiset"
begin

text \<open>
  What the cycle runner does with one delegation, \<^verbatim>\<open>cycle/runner.go\<close>: the nameservers to probe
  (the parent's glue, completed by resolving every host that lacks an address family) and the
  registered probers run over them. The order in which Go ranges over a map is not determined:
  it is the parameter \<open>order\<close>, any function that permutes the entries.
\<close>

section \<open>The nameservers to probe\<close>

definition isIPv6 :: "string \<Rightarrow> bool" where
  "isIPv6 ip = (case ParseIP ip of None \<Rightarrow> False | Some parsed \<Rightarrow> To4 parsed = None)"

definition addr_key :: "nameserver \<Rightarrow> string" where
  "addr_key ns = Hostname ns @ '':'' @ NS_IP ns"

fun initial_loop :: "nameserver list \<Rightarrow> string list \<Rightarrow> nameserver list \<times> string list" where
  "initial_loop [] seen = ([], seen)"
| "initial_loop (ns # nss) seen =
     (if NS_IP ns = [] then initial_loop nss seen
      else (let key = addr_key ns in
        if key \<in> set seen then initial_loop nss seen
        else (let (nameservers, seen') = initial_loop nss (key # seen) in (ns # nameservers, seen'))))"

definition buildInitialNameservers :: "nameserver list \<Rightarrow> nameserver list \<times> string list" where
  "buildInitialNameservers nsRecords = initial_loop nsRecords []"

record families =
  has_v4 :: bool
  has_v6 :: bool

type_synonym family_map = "(string \<times> families) list"

fun families_loop :: "nameserver list \<Rightarrow> family_map \<Rightarrow> family_map" where
  "families_loop [] m = m"
| "families_loop (ns # nss) m =
     (let f = (case map_of m (Hostname ns) of Some f \<Rightarrow> f | None \<Rightarrow> \<lparr>has_v4 = False, has_v6 = False\<rparr>);
          f' = (if NS_IP ns \<noteq> [] then (if isIPv6 (NS_IP ns) then f\<lparr>has_v6 := True\<rparr> else f\<lparr>has_v4 := True\<rparr>) else f) in
      families_loop nss (AList.update (Hostname ns) f' m))"

definition hostsNeedingAugmentation :: "(family_map \<Rightarrow> family_map) \<Rightarrow> nameserver list \<Rightarrow> string list" where
  "hostsNeedingAugmentation order nsRecords =
     map fst (filter (\<lambda>(host, f). \<not> has_v4 f \<or> \<not> has_v6 f) (order (families_loop nsRecords [])))"

fun add_addresses ::
  "string \<Rightarrow> string list \<Rightarrow> nameserver list \<Rightarrow> string list \<Rightarrow> nameserver list \<times> string list" where
  "add_addresses host [] nameservers seen = (nameservers, seen)"
| "add_addresses host (ip # ips) nameservers seen =
     (let ns = \<lparr>Hostname = host, NS_IP = ip\<rparr>; key = addr_key ns in
      if key \<in> set seen then add_addresses host ips nameservers seen
      else add_addresses host ips (nameservers @ [ns]) (key # seen))"

fun augment_loop ::
  "penv \<Rightarrow> string list \<Rightarrow> nameserver list \<Rightarrow> string list \<Rightarrow> history \<Rightarrow> (nameserver list \<times> history) option" where
  "augment_loop e [] nameservers seen h = Some (nameservers, h)"
| "augment_loop e (host # hosts) nameservers seen h =
     (case ResolveHostnames e host h of
        None \<Rightarrow> None
      | Some (Inl err, h1) \<Rightarrow> augment_loop e hosts nameservers seen h1
      | Some (Inr ips, h1) \<Rightarrow>
          (let (nameservers', seen') = add_addresses host ips nameservers seen in
           augment_loop e hosts nameservers' seen' h1))"

definition discoverNameservers ::
  "penv \<Rightarrow> (family_map \<Rightarrow> family_map) \<Rightarrow> DelegationResult \<Rightarrow> history \<Rightarrow> (nameserver list \<times> history) option" where
  "discoverNameservers e order delegation h =
     (let (nameservers, glueByHost) = buildInitialNameservers (NSRecords delegation) in
      augment_loop e (hostsNeedingAugmentation order (NSRecords delegation)) nameservers glueByHost h)"

section \<open>The registered probers\<close>

definition RegisterProber :: "string \<Rightarrow> probe_fn \<Rightarrow> (string \<times> probe_fn) list \<Rightarrow> (string \<times> probe_fn) list" where
  "RegisterProber name fn m = AList.update name fn m"

text \<open>The map after the \<open>init\<close> functions of the package have run, file by file.\<close>

definition Probers :: "(string \<times> probe_fn) list" where
  "Probers = fold (\<lambda>(name, fn). RegisterProber name fn)
     [(''email_auth'', ProbeEmailAuth), (''glue'', ProbeGlue), (''mx'', ProbeMX),
      (''ns_classification'', ProbeNSClassification), (''ns_hostname'', ProbeNSHostname),
      (''recursion'', ProbeRecursion), (''soa'', ProbeSOA)] []"

fun run_probers ::
  "penv \<Rightarrow> string \<Rightarrow> nameserver list \<Rightarrow> DelegationResult \<Rightarrow> (string \<times> probe_fn) list \<Rightarrow> history \<Rightarrow>
   (ProbeResult list \<times> history) option" where
  "run_probers e zone nameservers delegation [] h = Some ([], h)"
| "run_probers e zone nameservers delegation ((name, fn) # probers) h =
     (case fn e zone nameservers delegation h of
        None \<Rightarrow> None
      | Some (Inl err, h1) \<Rightarrow> run_probers e zone nameservers delegation probers h1
      | Some (Inr results, h1) \<Rightarrow>
          (case run_probers e zone nameservers delegation probers h1 of
             None \<Rightarrow> None
           | Some (rest, h2) \<Rightarrow> Some (results @ rest, h2)))"

definition probe_delegation ::
  "penv \<Rightarrow> string \<Rightarrow> (family_map \<Rightarrow> family_map) \<Rightarrow> (string \<times> probe_fn) list \<Rightarrow> DelegationResult \<Rightarrow> history \<Rightarrow>
   (ProbeResult list \<times> history) option" where
  "probe_delegation e zone order probers delegation h =
     (case discoverNameservers e order delegation h of
        None \<Rightarrow> None
      | Some (nameservers, h1) \<Rightarrow>
          if nameservers = [] then Some ([], h1)
          else run_probers e zone nameservers delegation probers h1)"

section \<open>The initial nameservers\<close>

lemma initial_loop_spec:
  assumes "initial_loop nss seen = (out, seen')"
  shows "distinct (map addr_key out) \<and> addr_key ` set out \<inter> set seen = {} \<and>
    set seen' = set seen \<union> addr_key ` set out \<and> set out \<subseteq> {n \<in> set nss. NS_IP n \<noteq> []} \<and>
    addr_key ` {n \<in> set nss. NS_IP n \<noteq> []} \<subseteq> set seen'"
  using assms
proof (induction nss arbitrary: seen out seen')
  case (Cons ns nss)
  show ?case
  proof (cases "NS_IP ns = [] \<or> addr_key ns \<in> set seen")
    case True
    then have "initial_loop nss seen = (out, seen')" using Cons.prems by (cases "NS_IP ns = []") (simp_all add: Let_def)
    from Cons.IH [OF this] True show ?thesis by auto
  next
    case False
    then obtain rest where "initial_loop nss (addr_key ns # seen) = (rest, seen')" and "out = ns # rest"
      using Cons.prems by (auto simp: Let_def split: prod.splits)
    with Cons.IH [OF this(1)] False show ?thesis by auto
  qed
qed simp

section \<open>The hosts that lack a family\<close>

definition lacks_family :: "nameserver list \<Rightarrow> string \<Rightarrow> bool" where
  "lacks_family nss host \<longleftrightarrow> host \<in> Hostname ` set nss \<and>
     (\<forall>n. n \<in> set nss \<and> Hostname n = host \<and> NS_IP n \<noteq> [] \<longrightarrow> \<not> isIPv6 (NS_IP n)) \<or>
     host \<in> Hostname ` set nss \<and> (\<forall>n. n \<in> set nss \<and> Hostname n = host \<and> NS_IP n \<noteq> [] \<longrightarrow> isIPv6 (NS_IP n))"

definition families_of :: "nameserver list \<Rightarrow> string \<Rightarrow> families" where
  "families_of nss host =
     \<lparr>has_v4 = (\<exists>n \<in> set nss. Hostname n = host \<and> NS_IP n \<noteq> [] \<and> \<not> isIPv6 (NS_IP n)),
      has_v6 = (\<exists>n \<in> set nss. Hostname n = host \<and> NS_IP n \<noteq> [] \<and> isIPv6 (NS_IP n))\<rparr>"

lemma families_loop_distinct: "distinct (map fst m) \<Longrightarrow> distinct (map fst (families_loop nss m))"
  by (induction nss arbitrary: m) (simp_all add: Let_def distinct_update)

lemma families_loop_spec:
  assumes "map_of m = (\<lambda>host. if host \<in> Hostname ` set done' then Some (families_of done' host) else None)"
  shows "map_of (families_loop nss m) =
    (\<lambda>host. if host \<in> Hostname ` set (done' @ nss) then Some (families_of (done' @ nss) host) else None)"
  using assms
proof (induction nss arbitrary: m done')
  case (Cons ns nss)
  let ?f = "case map_of m (Hostname ns) of Some f \<Rightarrow> f | None \<Rightarrow> \<lparr>has_v4 = False, has_v6 = False\<rparr>"
  let ?f' = "if NS_IP ns \<noteq> [] then (if isIPv6 (NS_IP ns) then ?f\<lparr>has_v6 := True\<rparr> else ?f\<lparr>has_v4 := True\<rparr>) else ?f"
  have f: "?f = families_of done' (Hostname ns)"
  proof (cases "Hostname ns \<in> Hostname ` set done'")
    case False
    then have "\<not> (n \<in> set done' \<and> Hostname n = Hostname ns)" for n by (metis imageI)
    with False Cons.prems show ?thesis by (auto simp: families_of_def)
  qed (simp add: Cons.prems)
  have "map_of (AList.update (Hostname ns) ?f' m) =
      (\<lambda>host. if host \<in> Hostname ` set (done' @ [ns]) then Some (families_of (done' @ [ns]) host) else None)"
    unfolding update_conv' f by (auto simp: fun_eq_iff Cons.prems families_of_def)
  from Cons.IH [OF this] show ?case by (simp add: Let_def cong: if_cong)
qed (simp cong: if_cong)

lemma hostsNeedingAugmentation_spec:
  assumes "\<And>m. mset (order m) = mset m"
  shows "distinct (hostsNeedingAugmentation order nss)"
    and "set (hostsNeedingAugmentation order nss) = Collect (lacks_family nss)"
proof -
  let ?m = "families_loop nss []"
  have set_order: "set (order ?m) = set ?m" by (metis assms mset_eq_setD)
  have d: "distinct (map fst ?m)" using families_loop_distinct [of "[]"] by simp
  then have "distinct (map fst (order ?m))" by (metis assms mset_map mset_eq_imp_distinct_iff)
  then show "distinct (hostsNeedingAugmentation order nss)"
    unfolding hostsNeedingAugmentation_def by (rule distinct_map_filter)
  have "map_of ?m = (\<lambda>host. if host \<in> Hostname ` set nss then Some (families_of nss host) else None)"
    using families_loop_spec [of "[]" "[]" nss] by (simp cong: if_cong)
  then have "(host, f) \<in> set ?m \<longleftrightarrow> host \<in> Hostname ` set nss \<and> f = families_of nss host" for host f
    using map_of_eq_Some_iff [OF d, of host f] by (auto split: if_splits)
  then show "set (hostsNeedingAugmentation order nss) = Collect (lacks_family nss)"
    by (auto simp: hostsNeedingAugmentation_def set_order lacks_family_def families_of_def image_iff)
qed

section \<open>The augmentation\<close>

lemma add_addresses_spec:
  assumes "add_addresses host ips nss seen = (out, seen')" and "distinct (map addr_key nss)"
    and "addr_key ` set nss = set seen"
  shows "distinct (map addr_key out) \<and> addr_key ` set out = set seen' \<and> set nss \<subseteq> set out \<and>
    set out \<subseteq> set nss \<union> (\<lambda>ip. \<lparr>Hostname = host, NS_IP = ip\<rparr>) ` set ips \<and>
    set seen' = set seen \<union> (\<lambda>ip. addr_key \<lparr>Hostname = host, NS_IP = ip\<rparr>) ` set ips"
  using assms
proof (induction ips arbitrary: nss seen)
  case (Cons ip ips)
  let ?n = "\<lparr>Hostname = host, NS_IP = ip\<rparr>"
  show ?case
  proof (cases "addr_key ?n \<in> set seen")
    case True
    with Cons.prems Cons.IH [of nss seen] show ?thesis by (auto simp: Let_def)
  next
    case False
    then have "add_addresses host ips (nss @ [?n]) (addr_key ?n # seen) = (out, seen')"
      using Cons.prems(1) by (simp add: Let_def)
    moreover have "distinct (map addr_key (nss @ [?n]))" using Cons.prems False by auto
    ultimately show ?thesis using Cons.prems Cons.IH [of "nss @ [?n]" "addr_key ?n # seen"] by auto
  qed
qed auto

text \<open>A run of resolutions: the hosts asked one after the other, what each call returned, and nothing else asked
  between \<open>h\<close> and \<open>h'\<close>.\<close>

inductive resolve_run :: "penv \<Rightarrow> history \<Rightarrow> (string \<times> (goerror + string list)) list \<Rightarrow> history \<Rightarrow> bool" for e where
  resolve_done: "resolve_run e h [] h"
| resolve_step: "ResolveHostnames e host h = Some (x, h1) \<Longrightarrow> resolve_run e h1 run h2 \<Longrightarrow>
    resolve_run e h ((host, x) # run) h2"

inductive_simps resolve_run_Nil [simp]: "resolve_run e h [] h'"
inductive_simps resolve_run_Cons: "resolve_run e h ((host, x) # run) h'"

lemma resolve_run_prefix: "resolve_run e h run h' \<Longrightarrow> prefix h h'"
  by (induction rule: resolve_run.induct) (auto intro: prefix_order.trans dest: ResolveHostnames_prefix)

text \<open>The addresses the successful calls of a run returned, with the host each was asked for.\<close>

definition run_addresses :: "(string \<times> (goerror + string list)) list \<Rightarrow> nameserver set" where
  "run_addresses run = {n. \<exists>ips. (Hostname n, Inr ips) \<in> set run \<and> NS_IP n \<in> set ips}"

lemma run_addresses_simps [simp]:
  "run_addresses [] = {}"
  "run_addresses ((host, Inl err) # run) = run_addresses run"
  "run_addresses ((host, Inr ips) # run) = (\<lambda>ip. \<lparr>Hostname = host, NS_IP = ip\<rparr>) ` set ips \<union> run_addresses run"
proof -
  have "n \<in> (\<lambda>ip. \<lparr>Hostname = host, NS_IP = ip\<rparr>) ` set ips \<longleftrightarrow> Hostname n = host \<and> NS_IP n \<in> set ips" for n
    by (cases n) (auto simp: image_iff)
  then show "run_addresses ((host, Inr ips) # run) = (\<lambda>ip. \<lparr>Hostname = host, NS_IP = ip\<rparr>) ` set ips \<union> run_addresses run"
    unfolding run_addresses_def by auto
qed (simp_all add: run_addresses_def)

lemma augment_loop_spec:
  assumes "augment_loop e hosts nss seen h = Some (out, h')"
    and "distinct (map addr_key nss)" and "addr_key ` set nss = set seen"
  shows "distinct (map addr_key out) \<and> (\<exists>run. resolve_run e h run h' \<and> map fst run = hosts \<and>
    set nss \<subseteq> set out \<and> set out \<subseteq> set nss \<union> run_addresses run \<and>
    addr_key ` set out = addr_key ` (set nss \<union> run_addresses run))"
  using assms
proof (induction hosts arbitrary: nss seen h)
  case Nil
  then show ?case by (auto intro!: exI [of _ "[]"])
next
  case (Cons host hosts)
  obtain x h1 where x: "ResolveHostnames e host h = Some (x, h1)"
    using Cons.prems(1) by (auto split: option.splits)
  define ips where "ips = case_sum (\<lambda>_. []) id x"
  obtain nss1 seen1 where add: "add_addresses host ips nss seen = (nss1, seen1)" by fastforce
  have loop: "augment_loop e hosts nss1 seen1 h1 = Some (out, h')"
    using Cons.prems(1) x add by (cases x) (auto simp: ips_def)
  note A = add_addresses_spec [OF add Cons.prems(2,3)]
  from A have "distinct (map addr_key nss1)" "addr_key ` set nss1 = set seen1" by simp_all
  from Cons.IH [OF loop this] obtain run where IH: "distinct (map addr_key out)"
    "resolve_run e h1 run h'" "map fst run = hosts" "set nss1 \<subseteq> set out" "set out \<subseteq> set nss1 \<union> run_addresses run"
    "addr_key ` set out = addr_key ` (set nss1 \<union> run_addresses run)"
    by (elim conjE exE) (rule that; assumption)
  have AO: "run_addresses ((host, x) # run) =
      (\<lambda>ip. \<lparr>Hostname = host, NS_IP = ip\<rparr>) ` set ips \<union> run_addresses run"
    by (cases x) (simp_all add: ips_def)
  have K: "addr_key ` set nss1 = addr_key ` (set nss \<union> (\<lambda>ip. \<lparr>Hostname = host, NS_IP = ip\<rparr>) ` set ips)"
    using A Cons.prems(3) by (simp add: image_Un image_image)
  have S: "set nss \<subseteq> set nss1" "set nss1 \<subseteq> set nss \<union> (\<lambda>ip. \<lparr>Hostname = host, NS_IP = ip\<rparr>) ` set ips"
    using A by simp_all
  have "set nss \<subseteq> set out" using S(1) IH(4) by (rule subset_trans)
  moreover have "set out \<subseteq> set nss \<union> run_addresses ((host, x) # run)"
    using S(2) IH(5) unfolding AO by blast
  moreover have "addr_key ` set out = addr_key ` (set nss \<union> run_addresses ((host, x) # run))"
    unfolding AO IH(6) image_Un K by (simp only: Un_assoc)
  moreover have "resolve_run e h ((host, x) # run) h'" using x IH(2) by (rule resolve_step)
  ultimately show ?case using IH(1,3) by (intro conjI exI [of _ "(host, x) # run"]) simp_all
qed

text \<open>The nameservers of a delegation: no address twice; every host that lacks a family, and no other, is resolved
  once, in some order, with no question asked beside; and the addresses are the parent's glue and all that the
  resolutions returned.\<close>

definition nameservers_of :: "penv \<Rightarrow> DelegationResult \<Rightarrow> history \<Rightarrow> history \<Rightarrow> nameserver list \<Rightarrow> bool" where
  "nameservers_of e dlg h h' nss \<longleftrightarrow> distinct (map addr_key nss) \<and>
     (\<exists>run. resolve_run e h run h' \<and>
        distinct (map fst run) \<and> fst ` set run = Collect (lacks_family (NSRecords dlg)) \<and>
        set nss \<subseteq> {n \<in> set (NSRecords dlg). NS_IP n \<noteq> []} \<union> run_addresses run \<and>
        addr_key ` set nss = addr_key ` ({n \<in> set (NSRecords dlg). NS_IP n \<noteq> []} \<union> run_addresses run))"

lemma discoverNameservers_run:
  assumes order: "\<And>m. mset (order m) = mset m" and "discoverNameservers e order dlg h = Some (nss, h')"
  shows "distinct (map addr_key nss) \<and> (\<exists>run. resolve_run e h run h' \<and>
    map fst run = hostsNeedingAugmentation order (NSRecords dlg) \<and>
    set nss \<subseteq> {n \<in> set (NSRecords dlg). NS_IP n \<noteq> []} \<union> run_addresses run \<and>
    addr_key ` set nss = addr_key ` ({n \<in> set (NSRecords dlg). NS_IP n \<noteq> []} \<union> run_addresses run))"
proof -
  let ?glue = "{n \<in> set (NSRecords dlg). NS_IP n \<noteq> []}"
  let ?hosts = "hostsNeedingAugmentation order (NSRecords dlg)"
  obtain init seen where init: "initial_loop (NSRecords dlg) [] = (init, seen)" by fastforce
  then have loop: "augment_loop e ?hosts init seen h = Some (nss, h')"
    using assms(2) by (simp add: discoverNameservers_def buildInitialNameservers_def)
  note I = initial_loop_spec [OF init]
  from I have "distinct (map addr_key init)" and glue1: "set init \<subseteq> ?glue"
    and sub: "addr_key ` ?glue \<subseteq> set seen" by blast+
  from I have glue3: "addr_key ` set init = set seen" by simp
  have glue2: "addr_key ` set init = addr_key ` ?glue"
    using sub image_mono [OF glue1, of addr_key] unfolding glue3 by simp
  from augment_loop_spec [OF loop \<open>distinct (map addr_key init)\<close> glue3] obtain run where A:
    "distinct (map addr_key nss)" "resolve_run e h run h'" "map fst run = ?hosts"
    "set init \<subseteq> set nss" "set nss \<subseteq> set init \<union> run_addresses run"
    "addr_key ` set nss = addr_key ` (set init \<union> run_addresses run)"
    by (elim conjE exE) (rule that; assumption)
  have "addr_key ` set nss = addr_key ` (?glue \<union> run_addresses run)"
    using A(6) glue2 by (simp only: image_Un)
  moreover have "set nss \<subseteq> ?glue \<union> run_addresses run" using A(5) glue1 by blast
  ultimately show ?thesis using A(1-3) by (intro conjI exI [of _ run])
qed

lemma discoverNameservers_spec:
  assumes order: "\<And>m. mset (order m) = mset m" and "discoverNameservers e order dlg h = Some (nss, h')"
  shows "nameservers_of e dlg h h' nss"
proof -
  from discoverNameservers_run [OF assms] obtain run where R: "distinct (map addr_key nss)" "resolve_run e h run h'"
    "map fst run = hostsNeedingAugmentation order (NSRecords dlg)"
    "set nss \<subseteq> {n \<in> set (NSRecords dlg). NS_IP n \<noteq> []} \<union> run_addresses run"
    "addr_key ` set nss = addr_key ` ({n \<in> set (NSRecords dlg). NS_IP n \<noteq> []} \<union> run_addresses run)"
    by (elim conjE exE) (rule that; assumption)
  have "distinct (map fst run)" "fst ` set run = Collect (lacks_family (NSRecords dlg))"
    using hostsNeedingAugmentation_spec [OF order, of "NSRecords dlg"] by (simp_all flip: R(3))
  then show ?thesis unfolding nameservers_of_def using R(1,2,4,5) by (intro conjI exI [of _ run])
qed

lemma augment_loop_runs: "RootServers e \<noteq> [] \<Longrightarrow> augment_loop e hosts nss seen h \<noteq> None"
proof (induction hosts arbitrary: nss seen h)
  case (Cons host hosts)
  then obtain x h1 where "ResolveHostnames e host h = Some (x, h1)"
    using ResolveHostnames_None [of e host h] by fastforce
  with Cons show ?case by (cases x) (auto split: prod.split)
qed simp

lemma discoverNameservers_runs: "RootServers e \<noteq> [] \<Longrightarrow> discoverNameservers e order dlg h \<noteq> None"
  unfolding discoverNameservers_def using augment_loop_runs by (simp split: prod.split)

lemma family_answer_nonempty: "family_answer e h h' host qt ips \<Longrightarrow> [] \<notin> set ips"
  by (auto simp: family_answer_def family_addrs_def map_filter_def family_addr_def split: rr.splits if_splits)

lemma resolve_run_nonempty: "resolve_run e h run h' \<Longrightarrow> n \<in> run_addresses run \<Longrightarrow> NS_IP n \<noteq> []"
proof (induction rule: resolve_run.induct)
  case (resolve_step host h x h1 run h2)
  show ?case
  proof (cases x)
    case (Inr ips)
    from ResolveHostnames_answers [OF resolve_step.hyps(1) [unfolded Inr]] have "[] \<notin> set ips"
      by (auto dest: family_answer_nonempty)
    with resolve_step Inr show ?thesis by auto
  qed (use resolve_step in simp)
qed simp

lemma nameservers_have_address:
  assumes "nameservers_of e dlg h h' nss" and "n \<in> set nss"
  shows "NS_IP n \<noteq> []"
  using assms resolve_run_nonempty unfolding nameservers_of_def by blast

section \<open>The probers' results\<close>

lemma Probers_eq: "Probers =
     [(''email_auth'', ProbeEmailAuth), (''glue'', ProbeGlue), (''mx'', ProbeMX),
      (''ns_classification'', ProbeNSClassification), (''ns_hostname'', ProbeNSHostname),
      (''recursion'', ProbeRecursion), (''soa'', ProbeSOA)]"
  by (simp add: Probers_def RegisterProber_def)

lemma Probers_schema: "(name, fn) \<in> set Probers \<Longrightarrow> schema_prober name fn"
  unfolding Probers_eq
  by (auto intro: email_auth_schema.schema_prober_axioms glue_schema.schema_prober_axioms
      mx_schema.schema_prober_axioms ns_classification_schema.schema_prober_axioms
      ns_hostname_schema.schema_prober_axioms recursion_schema.schema_prober_axioms
      soa_schema.schema_prober_axioms)

text \<open>A result that carries \<open>mx_info\<close> is the information result of an MX record.\<close>

definition mx_shaped :: "ProbeResult \<Rightarrow> bool" where
  "mx_shaped r \<longleftrightarrow> map_of (Metrics r) ''mx_info'' = None \<or> (\<exists>target priority. r = mx_info (Zone r) target priority)"

lemma mx_results_shaped:
  assumes "mx_results e zone mxs h h' rs"
  shows "list_all mx_shaped rs"
proof -
  have "mx_shaped r" if r: "r \<in> set rs" for r
  proof (cases "is_info r")
    case True
    then have "r \<in> set (filter is_info rs)" using r by simp
    with assms obtain t p where "r = mx_info zone t p" by (auto simp: mx_results_def)
    then show ?thesis unfolding mx_shaped_def by (metis mx_sel(3))
  next
    case False
    then have "r \<in> set (filter (\<lambda>r. \<not> is_info r) rs)" using r by simp
    with assms obtain t where "mx_valid_result e zone h h' t r"
      unfolding mx_results_def by (blast elim: list_all2_in)
    then show ?thesis
      by (auto simp: mx_valid_result_def mx_shaped_def mx_validity_def mx_checks_def split: if_splits)
  qed
  then show ?thesis by (simp add: list_all_iff)
qed

lemma ProbeMX_shaped:
  assumes "ProbeMX e zone nss dlg h = Some (Inr rs, h')"
  shows "list_all mx_shaped rs"
proof (cases "nss = []")
  case True
  with ProbeMX_results [OF assms] show ?thesis by simp
next
  case False
  obtain ip x h1 where f: "mx_failover e zone nss [] (Inr []) h = (ip, x, h1)" by (metis prod_cases3)
  show ?thesis
  proof (cases x)
    case (Inl err)
    then show ?thesis using ProbeMX_results [OF assms] False f
      by (simp add: mx_shaped_def mx_failure_def zeroResult_def)
  next
    case (Inr mxs)
    then obtain rs' where "rs = mx_query_result zone ip # rs'" "mx_results e zone mxs h1 h' rs'"
      using ProbeMX_results [OF assms] False f by auto
    then show ?thesis using mx_results_shaped by (simp add: mx_shaped_def mx_query_result_def zeroResult_def)
  qed
qed

text \<open>What is promised of every result of a zone.\<close>

definition result_ok :: "string \<Rightarrow> ProbeResult \<Rightarrow> bool" where
  "result_ok zone r \<longleftrightarrow> Zone r = zone \<and> Check r \<in> fst ` set Probers \<and> proper r \<and>
     (Check r = ''mx'' \<longrightarrow> mx_shaped r)"

lemma prober_results_ok:
  assumes p: "(name, fn) \<in> set Probers" and run: "fn e zone nss dlg h = Some (out, h')"
  shows "prefix h h' \<and> (\<exists>rs. out = Inr rs \<and> list_all (result_ok zone) rs)"
proof -
  note sp = Probers_schema [OF p]
  note P = schema_prober.axioms(1) [OF sp]
  obtain rs where out: "out = Inr rs" using prober.returns_results [OF P run] by blast
  have mx: "fn = ProbeMX" if "name = ''mx''" using p that unfolding Probers_eq by auto
  have "result_ok zone r" if "r \<in> set rs" for r
    using prober.labelled [OF P run [unfolded out] that] schema_prober.schema [OF sp run [unfolded out]] that p
      mx run out ProbeMX_shaped by (auto simp: result_ok_def list_all_iff intro: rev_image_eqI)
  then show ?thesis using out prober.only_extends [OF P run] by (auto simp: list_all_iff)
qed

lemma run_probers_ok:
  assumes "run_probers e zone nss dlg probers h = Some (rs, h')" and "set probers \<subseteq> set Probers"
  shows "prefix h h' \<and> list_all (result_ok zone) rs"
  using assms
proof (induction probers arbitrary: h rs)
  case (Cons p probers)
  obtain name fn where p: "p = (name, fn)" by fastforce
  obtain x h1 where x: "fn e zone nss dlg h = Some (x, h1)"
    using Cons.prems(1) by (auto simp: p split: option.splits)
  have "(name, fn) \<in> set Probers" using Cons.prems(2) p by simp
  from prober_results_ok [OF this x] obtain rs1 where "prefix h h1" "x = Inr rs1" "list_all (result_ok zone) rs1"
    by blast
  moreover then obtain rs2 where "run_probers e zone nss dlg probers h1 = Some (rs2, h')" "rs = rs1 @ rs2"
    using Cons.prems(1) x by (auto simp: p split: option.splits)
  ultimately show ?case using Cons.IH [of h1 rs2] Cons.prems(2) by (auto intro: prefix_order.trans)
qed simp

lemma run_probers_runs:
  assumes "RootServers e \<noteq> []" and "set probers \<subseteq> set Probers"
  shows "run_probers e zone nss dlg probers h \<noteq> None"
  using assms(2)
proof (induction probers arbitrary: h)
  case (Cons p probers)
  obtain name fn where p: "p = (name, fn)" by fastforce
  then have mem: "(name, fn) \<in> set Probers" using Cons.prems by simp
  have "fn e zone nss dlg h \<noteq> None"
    using prober.no_panic [OF schema_prober.axioms(1) [OF Probers_schema [OF mem]] assms(1)] .
  then obtain x h1 where x: "fn e zone nss dlg h = Some (x, h1)" by fastforce
  have "run_probers e zone nss dlg probers h1 \<noteq> None" using Cons by simp
  with x show ?case by (cases x) (auto simp: p)
qed simp

lemma probe_delegation_ok:
  assumes "probe_delegation e zone order probers dlg h = Some (rs, h')" and "set probers \<subseteq> set Probers"
  shows "list_all (result_ok zone) rs"
  using assms run_probers_ok
  by (fastforce simp: probe_delegation_def split: option.splits if_splits)

lemma probe_delegation_runs:
  assumes "RootServers e \<noteq> []" and "set probers \<subseteq> set Probers"
  shows "probe_delegation e zone order probers dlg h \<noteq> None"
proof -
  obtain nss h1 where "discoverNameservers e order dlg h = Some (nss, h1)"
    using discoverNameservers_runs [OF assms(1), of order dlg h] by fastforce
  then show ?thesis using run_probers_runs [OF assms] by (simp add: probe_delegation_def)
qed

section \<open>Properties\<close>

text \<open>C12: while there is a root server the search for a zone's nameservers returns, whatever the network answers:
  each (host, address) once, all with an address. Every host that lacks an IPv4 or an IPv6 address, and no other, is
  resolved, exactly once and with no question asked beside, and the nameservers are the addresses of the parent's
  records together with every address the resolutions returned; a failed resolution is followed by the next one and
  loses its host's addresses only.\<close>

theorem zone_nameservers:
  assumes "\<And>m. mset (order m) = mset m" and "RootServers e \<noteq> []"
  shows "\<exists>nss h'. discoverNameservers e order dlg h = Some (nss, h') \<and>
    nameservers_of e dlg h h' nss \<and> list_all (\<lambda>n. NS_IP n \<noteq> []) nss"
proof -
  from discoverNameservers_runs [OF assms(2)] obtain nss h' where D: "discoverNameservers e order dlg h = Some (nss, h')"
    by fastforce
  note N = discoverNameservers_spec [OF assms(1) D]
  with D nameservers_have_address [OF N] show ?thesis by (auto simp: list_all_iff)
qed

text \<open>A nameserver the parent gives an IPv6 address for only.\<close>

definition v6_only :: DelegationResult where
  "v6_only = \<lparr>ParentServer = ''r'', NSRecords = [\<lparr>Hostname = ''n.z.'', NS_IP = ''2001:db8::1''\<rparr>],
     Glue = [\<lparr>Hostname = ''n.z.'', NS_IP = ''2001:db8::1''\<rparr>]\<rparr>"

theorem zone_nameservers_witness:
  "\<exists>h'. nameservers_of (static_env example_net) v6_only [] h'
       [\<lparr>Hostname = ''n.z.'', NS_IP = ''2001:db8::1''\<rparr>, \<lparr>Hostname = ''n.z.'', NS_IP = ''7.0.0.1''\<rparr>] \<and>
     list_all (\<lambda>n. NS_IP n \<noteq> []) [\<lparr>Hostname = ''n.z.'', NS_IP = ''2001:db8::1''\<rparr>, \<lparr>Hostname = ''n.z.'', NS_IP = ''7.0.0.1''\<rparr>]"
proof -
  have "map_option fst (discoverNameservers (static_env example_net) rev v6_only []) =
      Some [\<lparr>Hostname = ''n.z.'', NS_IP = ''2001:db8::1''\<rparr>, \<lparr>Hostname = ''n.z.'', NS_IP = ''7.0.0.1''\<rparr>]"
    by code_simp
  from map_fst_Some [OF this] obtain h' where "discoverNameservers (static_env example_net) rev v6_only [] =
      Some ([\<lparr>Hostname = ''n.z.'', NS_IP = ''2001:db8::1''\<rparr>, \<lparr>Hostname = ''n.z.'', NS_IP = ''7.0.0.1''\<rparr>], h')" ..
  moreover have "RootServers (static_env example_net) \<noteq> []" by (simp add: static_env_def)
  ultimately show ?thesis using zone_nameservers [OF mset_rev, of "static_env example_net" v6_only "[]"] by auto
qed

text \<open>C37: probing a delegation cannot panic while there is a root server, whatever the network answers and
  in whatever order the probers run; every result names the zone and a registered prober, and its metrics
  are that prober's and carry the label names of the schema.\<close>

theorem zone_probe_results:
  assumes "RootServers e \<noteq> []" and "mset probers = mset Probers"
  shows "\<exists>rs h'. probe_delegation e zone order probers dlg h = Some (rs, h') \<and> list_all (result_ok zone) rs"
proof -
  have sub: "set probers \<subseteq> set Probers" using mset_eq_setD [OF assms(2)] by simp
  obtain rs h' where run: "probe_delegation e zone order probers dlg h = Some (rs, h')"
    using probe_delegation_runs [OF assms(1) sub, of zone order dlg h] by fastforce
  with probe_delegation_ok [OF run sub] show ?thesis by blast
qed

theorem zone_probe_results_witness:
  "\<exists>rs h'. probe_delegation (static_env example_net) ''z'' rev (rev Probers) v6_only [] = Some (rs, h') \<and>
     list_all (result_ok ''z'') rs"
  by (rule zone_probe_results) (simp_all add: static_env_def)

end
