(* ===== verification/Address_Text.thy ===== *)
theory Address_Text
  imports Go_Net
begin

text \<open>
  The text of an address is read back as that address: \<open>ParseIP\<close> undoes \<open>IP_String\<close>, for IPv4 and, with the
  longest run of zero groups left out, for IPv6. The program stores addresses as text and parses them again
  to tell the families apart.
\<close>

definition valid_ip :: "ip_bytes \<Rightarrow> bool" where
  "valid_ip ip \<longleftrightarrow> (length ip = 4 \<or> length ip = 16) \<and> list_all (\<lambda>b. b < 256) ip"

text \<open>The form of 16 bytes, in which an IPv4 address has a fixed prefix.\<close>

definition as16 :: "ip_bytes \<Rightarrow> ip_bytes" where
  "as16 ip = (if length ip = 4 then v4_prefix @ ip else ip)"

section \<open>IPv4\<close>

lemma digit_char_eqs [simp]: "d < 10 \<Longrightarrow> is_digit (digit_char d)" "d < 10 \<Longrightarrow> digit_val (digit_char d) = d"
  using digit_char_digit by blast+

lemma dot_no_digit [simp]: "\<not> is_digit CHR ''.''" "\<not> is_digit CHR '':''"
  by (simp_all add: is_digit_def)

lemma Itoa_byte:
  assumes "n < 256"
  obtains "n < 10" and "Itoa n = [digit_char n]"
  | a b where "a < 10" "0 < a" "b < 10" "n = a * 10 + b" "Itoa n = [digit_char a, digit_char b]"
  | a b c where "a < 10" "0 < a" "b < 10" "c < 10" "n = (a * 10 + b) * 10 + c"
      "Itoa n = [digit_char a, digit_char b, digit_char c]"
proof -
  consider "n < 10" | "10 \<le> n" "n < 100" | "100 \<le> n" by linarith
  then show thesis
  proof cases
    case 1
    then show ?thesis using that(1) by (simp add: Itoa.simps [of n])
  next
    case 2
    then have "n div 10 < 10" by auto
    with 2 that(2) [of "n div 10" "n mod 10"] show ?thesis
      by (simp add: Itoa.simps [of n] Itoa.simps [of "n div 10"])
  next
    case 3
    then have "\<not> n < 10" "\<not> n div 10 < 10" "n div 10 div 10 < 10" "0 < n div 10 div 10" using assms by auto
    then show ?thesis using that(3) [of "n div 10 div 10" "n div 10 mod 10" "n mod 10"]
      by (simp add: Itoa.simps [of n] Itoa.simps [of "n div 10"] Itoa.simps [of "n div 10 div 10"])
  qed
qed

text \<open>One octet: its digits are read up to the next dot or the end.\<close>

lemma parse_octet:
  assumes "n < 256"
  shows "parseIPv4Fields_loop (Itoa n @ rest) fields [] = parseIPv4Fields_loop rest fields (Itoa n)"
  using assms
  by (rule Itoa_byte) (use assms in \<open>auto simp: dec_value_Cons\<close>)

lemma octet_value: "dec_value (Itoa n) = n"
  using Itoa_digits by blast

lemma parse_v4_string:
  assumes "length b = 4" and "list_all (\<lambda>x. x < 256) b"
  shows "parseIPv4Fields (v4_string b) = Some b"
proof -
  obtain p q r s where b: "b = [p, q, r, s]" using length_4 [OF assms(1)] by blast
  with assms(2) have "p < 256" "q < 256" "r < 256" "s < 256" by simp_all
  then show ?thesis
    using parse_octet [of s "[]"]
    by (simp add: b parseIPv4Fields_def v4_string_def parse_octet octet_value)
qed

section \<open>Hexadecimal groups\<close>

lemma hex_char_hex: "d < 16 \<Longrightarrow> is_hex (hex_char d) \<and> hex_val (hex_char d) = d"
  unfolding numeral_nat less_Suc_eq
  by (elim disjE) (simp_all add: hex_char_def is_hex_def is_digit_def hex_val_def)

lemma hex_value_snoc [simp]: "hex_value (s @ [c]) = hex_value s * 16 + hex_val c"
  by (simp add: hex_value_def)

lemma hex_string_hex: "list_all is_hex (hex_string n) \<and> hex_value (hex_string n) = n"
proof (induction n rule: hex_string.induct)
  case (1 n)
  then show ?case
    using hex_char_hex [of n] hex_char_hex [of "n mod 16"] hex_value_snoc [of "[]"]
    by (subst (1 2) hex_string.simps) (auto simp: hex_value_def div_mult_mod_eq)
qed

lemma length_hex_string: "n < 16 ^ Suc k \<Longrightarrow> length (hex_string n) \<le> Suc k"
proof (induction k arbitrary: n)
  case 0
  then show ?case by (subst hex_string.simps) simp
next
  case (Suc k)
  then have "length (hex_string (n div 16)) \<le> Suc k" by (intro Suc.IH) auto
  then show ?case by (subst hex_string.simps) auto
qed

lemma not_hex [simp]: "\<not> is_hex CHR '':''" "\<not> is_hex CHR ''.''" "\<not> is_hex CHR ''%''"
  by (simp_all add: is_hex_def is_digit_def)

text \<open>A group is read up to what follows it, which is no digit.\<close>

lemma take_group:
  assumes "rest = [] \<or> \<not> is_hex (hd rest)"
  shows "takeWhile is_hex (hex_string g @ rest) = hex_string g" "dropWhile is_hex (hex_string g @ rest) = rest"
proof -
  have "\<forall>c\<in>set (hex_string g). is_hex c" using hex_string_hex by (simp add: list_all_iff)
  with assms show "takeWhile is_hex (hex_string g @ rest) = hex_string g" "dropWhile is_hex (hex_string g @ rest) = rest"
    by (cases rest; simp add: takeWhile_append2 dropWhile_append2)+
qed

lemma group_length: "g < 65536 \<Longrightarrow> length (hex_string g) \<le> 4"
  using length_hex_string [of g 3] by simp

lemma parse_group:
  assumes "g < 65536" and "rest = [] \<or> hd rest = CHR '':''"
  shows "parseIPv6_loop (Suc n) (hex_string g @ rest) ip ell =
    (let ip' = ip @ group_bytes g in
      case rest of
        [] \<Rightarrow> Some (ip', ell, [])
      | c # s1 \<Rightarrow>
          if s1 = [] then None
          else if hd s1 = CHR '':'' then
            (if ell \<noteq> None then None
             else if tl s1 = [] then Some (ip', Some (length ip'), [])
             else parseIPv6_loop n (tl s1) ip' (Some (length ip')))
          else parseIPv6_loop n s1 ip' ell)"
proof -
  have "rest = [] \<or> \<not> is_hex (hd rest)" using assms(2) by auto
  note t = take_group [OF this, of g]
  have "length (hex_string g) \<noteq> 0" "\<not> length (hex_string g) > 4" "hex_value (hex_string g) = g"
    using group_length [OF assms(1)] hex_string_hex [of g] by simp_all
  with assms(2) show ?thesis
    unfolding parseIPv6_loop.simps(2) t Let_def
    by (cases rest) (simp_all del: parseIPv6_loop.simps)
qed

definition bytes_of :: "nat list \<Rightarrow> ip_bytes" where
  "bytes_of gs = concat (map group_bytes gs)"

lemma bytes_of_simps [simp]: "bytes_of [] = []" "bytes_of (g # gs) = group_bytes g @ bytes_of gs"
  "bytes_of (gs @ gs') = bytes_of gs @ bytes_of gs'" "length (bytes_of gs) = 2 * length gs"
  by (induction gs) (simp_all add: bytes_of_def group_bytes_def)

lemma hex_string_head: "hd (hex_string g @ s) \<noteq> CHR '':''" "hex_string g @ s \<noteq> []"
proof -
  have "is_hex (hd (hex_string g))"
    using hex_string_hex [of g] hd_in_set [OF hex_string_nonempty, of g] by (simp add: list_all_iff)
  then show "hd (hex_string g @ s) \<noteq> CHR '':''" by auto
qed simp

lemma Join_groups:
  "Join (map hex_string (g # gs)) '':'' = hex_string g @ (if gs = [] then [] else CHR '':'' # Join (map hex_string gs) '':'')"
  by (cases gs) simp_all

lemma Join_head:
  assumes "gs \<noteq> []"
  shows "Join (map hex_string gs) '':'' \<noteq> []" "hd (Join (map hex_string gs) '':'' @ s) \<noteq> CHR '':''"
  using assms hex_string_head [of "hd gs"] by (cases gs; simp only: Join_groups; simp)+

text \<open>Groups separated by single colons, up to the end.\<close>

lemma parse_groups:
  assumes "gs \<noteq> []" and "length gs \<le> n" and "list_all (\<lambda>g. g < 65536) gs"
  shows "parseIPv6_loop n (Join (map hex_string gs) '':'') ip ell = Some (ip @ bytes_of gs, ell, [])"
  using assms
proof (induction gs arbitrary: n ip)
  case (Cons g gs)
  then obtain m where n: "n = Suc m" by (cases n) auto
  show ?case
  proof (cases "gs = []")
    case True
    with Cons.prems parse_group [of g "[]" m ip ell] show ?thesis by (simp add: n)
  next
    case False
    with Cons.prems Cons.IH [of m] n Join_head(1) [OF False] Join_head(2) [OF False, of "[]"] show ?thesis
      by (simp add: Join_groups parse_group del: list.map parseIPv6_loop.simps)
  qed
qed simp

text \<open>Groups, the ellipsis, groups.\<close>

lemma parse_ellipsis:
  assumes "gs1 \<noteq> []" and "length gs1 + length gs2 \<le> n" and "list_all (\<lambda>g. g < 65536) (gs1 @ gs2)"
  shows "parseIPv6_loop n (Join (map hex_string gs1) '':'' @ ''::'' @ Join (map hex_string gs2) '':'') ip None =
    Some (ip @ bytes_of gs1 @ bytes_of gs2, Some (length ip + 2 * length gs1), [])"
  using assms
proof (induction gs1 arbitrary: n ip)
  case (Cons g gs1)
  then obtain m where n: "n = Suc m" by (cases n) auto
  have g: "g < 65536" using Cons.prems by simp
  show ?case
  proof (cases "gs1 = []")
    case True
    have "parseIPv6_loop m (Join (map hex_string gs2) '':'') ip' ell = Some (ip' @ bytes_of gs2, ell, [])" if "gs2 \<noteq> []" for ip' ell
      using that Cons.prems n by (intro parse_groups) auto
    with True g Join_head(1) [of gs2] show ?thesis
      by (cases "gs2 = []") (simp_all add: n parse_group group_bytes_def del: parseIPv6_loop.simps)
  next
    case False
    with Cons.prems Cons.IH [of m "ip @ group_bytes g"] n g Join_head [OF False] show ?thesis
      by (simp add: Join_groups parse_group group_bytes_def del: list.map parseIPv6_loop.simps)
  qed
qed simp

section \<open>The longest run of zero groups\<close>

lemma zero_run_at_zeros:
  "zero_run_at gs i \<le> length gs - i" "j < zero_run_at gs i \<Longrightarrow> gs ! (i + j) = 0"
proof -
  show "zero_run_at gs i \<le> length gs - i"
    using length_takeWhile_le [of "\<lambda>g. g = 0" "drop i gs"] by (simp add: zero_run_at_def)
  assume j: "j < zero_run_at gs i"
  then have "takeWhile (\<lambda>g. g = 0) (drop i gs) ! j = drop i gs ! j"
    unfolding zero_run_at_def by (rule takeWhile_nth)
  moreover have "takeWhile (\<lambda>g. g = 0) (drop i gs) ! j \<in> set (takeWhile (\<lambda>g. g = 0) (drop i gs))"
    using j unfolding zero_run_at_def by (rule nth_mem)
  then have "takeWhile (\<lambda>g. g = 0) (drop i gs) ! j = 0" by (blast dest: set_takeWhileD)
  ultimately show "gs ! (i + j) = 0"
    using j length_takeWhile_le [of "\<lambda>g. g = 0" "drop i gs"] by (simp add: zero_run_at_def)
qed

definition zero_span :: "nat list \<Rightarrow> nat \<times> nat \<Rightarrow> bool" where
  "zero_span gs r \<longleftrightarrow> (case r of (zs, ze) \<Rightarrow> zs + 2 \<le> ze \<and> ze \<le> length gs \<and> (\<forall>i. zs \<le> i \<and> i < ze \<longrightarrow> gs ! i = 0))"

lemma longest_zero_run_span:
  assumes "best = (255, 255) \<or> zero_span gs best"
  shows "longest_zero_run gs idx best = (255, 255) \<or> zero_span gs (longest_zero_run gs idx best)"
  using assms
proof (induction gs idx best rule: longest_zero_run.induct)
  case (2 gs i idx zs ze)
  have "gs ! k = 0" if "i \<le> k" "k < i + zero_run_at gs i" for k
    using that zero_run_at_zeros(2) [where j = "k - i" and gs = gs and i = i] by simp
  then have "zero_span gs (i, i + zero_run_at gs i)" if "zero_run_at gs i \<ge> 2"
    using that zero_run_at_zeros(1) [of gs i] by (auto simp: zero_span_def)
  with 2 show ?case by (auto simp: Let_def)
qed simp

lemma zero_span_split:
  assumes "zero_span gs (zs, ze)"
  shows "gs = take zs gs @ replicate (ze - zs) 0 @ drop ze gs"
proof -
  have z: "zs \<le> ze" "ze \<le> length gs" "\<And>i. zs \<le> i \<Longrightarrow> i < ze \<Longrightarrow> gs ! i = 0"
    using assms by (auto simp: zero_span_def)
  have "take (ze - zs) (drop zs gs) = replicate (ze - zs) 0"
    using z by (intro nth_equalityI) simp_all
  then have "drop zs gs = replicate (ze - zs) 0 @ drop ze gs"
    using append_take_drop_id [of "ze - zs" "drop zs gs"] z(1) by simp
  then show ?thesis using append_take_drop_id [of zs gs] by simp
qed

section \<open>IPv6\<close>

lemma groups_of_bytes:
  "even (length ip) \<Longrightarrow> list_all (\<lambda>b. b < 256) ip \<Longrightarrow>
   bytes_of (groups_of ip) = ip \<and> length (groups_of ip) = length ip div 2 \<and> list_all (\<lambda>g. g < 65536) (groups_of ip)"
  by (induction ip rule: groups_of.induct) (auto simp: group_bytes_def)

lemma bytes_of_zeros [simp]: "bytes_of (replicate n 0) = replicate (2 * n) 0"
  by (induction n) (simp_all add: group_bytes_def)

lemma no_ellipsis: "s \<noteq> [] \<Longrightarrow> hd s \<noteq> CHR '':'' \<Longrightarrow> \<not> HasPrefix s ''::'' \<and> s \<noteq> ''::''"
  by (cases s) (auto simp: HasPrefix_def)

lemma parseIPv6_bare:
  assumes "s \<noteq> []" and "hd s \<noteq> CHR '':''" and loop: "parseIPv6_loop 8 s [] None = Some (ip, ell, [])"
  shows "parseIPv6 s =
    (if length ip < 16 then
       (case ell of None \<Rightarrow> None | Some e \<Rightarrow> Some (take e ip @ replicate (16 - length ip) 0 @ drop e ip))
     else if ell \<noteq> None then None
     else Some ip)"
proof -
  have s: "(s = ''::'') = False" "HasPrefix s ''::'' = False" using no_ellipsis [OF assms(1,2)] by blast+
  show ?thesis unfolding parseIPv6_def s if_False loop option.case prod.case by (simp only: simp_thms if_False)
qed

lemma parseIPv6_ellipsis_first:
  assumes "s \<noteq> []" and loop: "parseIPv6_loop 8 s [] (Some 0) = Some (ip, Some 0, [])" and "length ip < 16"
  shows "parseIPv6 (''::'' @ s) = Some (replicate (16 - length ip) 0 @ ip)"
proof -
  have s: "(''::'' @ s = ''::'') = False" "HasPrefix (''::'' @ s) ''::'' = True" "drop 2 (''::'' @ s) = s"
    using assms(1) by (simp_all add: HasPrefix_def)
  show ?thesis
    unfolding parseIPv6_def s if_False if_True loop option.case prod.case using assms(3)
    by (simp only: simp_thms if_False if_True take_0 drop_0 append_Nil)
qed

lemma parse_plain:
  assumes "length gs = 8" and "list_all (\<lambda>g. g < 65536) gs"
  shows "parseIPv6 (Join (map hex_string gs) '':'') = Some (bytes_of gs)"
proof -
  have ne: "gs \<noteq> []" using assms(1) by auto
  have "hd (Join (map hex_string gs) '':'') \<noteq> CHR '':''" using Join_head(2) [OF ne, of "[]"] by simp
  from parseIPv6_bare [OF Join_head(1) [OF ne] this parse_groups [OF ne _ assms(2)]] assms(1) show ?thesis by simp
qed

lemma parse_shortened:
  assumes "length gs1 + length gs2 \<le> 6" and "list_all (\<lambda>g. g < 65536) (gs1 @ gs2)"
  shows "parseIPv6 (Join (map hex_string gs1) '':'' @ ''::'' @ Join (map hex_string gs2) '':'') =
    Some (bytes_of gs1 @ replicate (16 - 2 * (length gs1 + length gs2)) 0 @ bytes_of gs2)"
proof (cases "gs1 = []")
  case True
  show ?thesis
  proof (cases "gs2 = []")
    case gs2: True
    show ?thesis unfolding True gs2 parseIPv6_def by simp
  next
    case False
    have "parseIPv6_loop 8 (Join (map hex_string gs2) '':'') [] (Some 0) = Some ([] @ bytes_of gs2, Some 0, [])"
      using False assms by (intro parse_groups) auto
    with parseIPv6_ellipsis_first [OF Join_head(1) [OF False]] assms True show ?thesis by simp
  qed
next
  case False
  let ?s = "Join (map hex_string gs1) '':'' @ ''::'' @ Join (map hex_string gs2) '':''"
  have "parseIPv6_loop 8 ?s [] None = Some ([] @ bytes_of gs1 @ bytes_of gs2, Some (length ([] :: ip_bytes) + 2 * length gs1), [])"
    using assms by (intro parse_ellipsis [OF False]) auto
  from parseIPv6_bare [OF _ Join_head(2) [OF False] this] Join_head(1) [OF False] assms(1)
  show ?thesis by (simp add: algebra_simps)
qed

lemma parse_v6_string:
  assumes "length ip = 16" and "list_all (\<lambda>b. b < 256) ip"
  shows "parseIPv6 (v6_string ip) = Some ip"
proof -
  let ?gs = "groups_of ip"
  have gs: "bytes_of ?gs = ip" "length ?gs = 8" "list_all (\<lambda>g. g < 65536) ?gs"
    using groups_of_bytes [OF _ assms(2)] assms(1) by simp_all
  obtain zs ze where run: "longest_zero_run ?gs [0..<8] (255, 255) = (zs, ze)" by fastforce
  with longest_zero_run_span [of "(255, 255)" ?gs "[0..<8]"] consider "zs = 255" | "zero_span ?gs (zs, ze)" by auto
  then show ?thesis
  proof cases
    case 1
    then show ?thesis using parse_plain [OF gs(2,3)] gs(1) by (simp add: v6_string_def run)
  next
    case 2
    then have z: "zs + 2 \<le> ze" "ze \<le> 8" by (simp_all add: zero_span_def gs(2))
    let ?a = "take zs ?gs" and ?b = "drop ze ?gs"
    have len: "length ?a = zs" "length ?b = 8 - ze" using z gs(2) by simp_all
    have "list_all (\<lambda>g. g < 65536) (?a @ ?b)"
      using gs(3) set_take_subset [of zs ?gs] set_drop_subset [of ze ?gs] by (auto simp: list_all_iff)
    from parse_shortened [OF _ this] z len
    have "parseIPv6 (v6_string ip) = Some (bytes_of ?a @ replicate (16 - 2 * (zs + (8 - ze))) 0 @ bytes_of ?b)"
      by (simp add: v6_string_def run Let_def)
    moreover have "ip = bytes_of (?a @ replicate (ze - zs) 0 @ ?b)"
      using zero_span_split [OF 2] gs(1) by metis
    moreover have "16 - 2 * (zs + (8 - ze)) = 2 * (ze - zs)" using z by simp
    ultimately show ?thesis by simp
  qed
qed

section \<open>The round trip\<close>

lemma set_Join: "set (Join ss sep) \<subseteq> \<Union> (set ` set ss) \<union> set sep"
  by (induction ss sep rule: Join.induct) auto

lemma v4_string_chars:
  assumes "length b = 4"
  shows "CHR ''.'' \<in> set (v4_string b) \<and> set (v4_string b) \<inter> {CHR '':'', CHR ''%''} = {}"
proof -
  obtain p q r s where b: "b = [p, q, r, s]" using length_4 [OF assms] by blast
  have "set (v4_string b) \<subseteq> Collect is_digit \<union> {CHR ''.''}"
    using set_Join [of "map Itoa b" "''.''"] Itoa_digits by (fastforce simp: v4_string_def list_all_iff)
  moreover have "CHR ''.'' \<in> set (v4_string b)" by (simp add: b v4_string_def)
  ultimately show ?thesis by (auto simp: is_digit_def)
qed

lemma v6_string_chars:
  assumes "length (groups_of ip) = 8"
  shows "CHR '':'' \<in> set (v6_string ip) \<and> set (v6_string ip) \<inter> {CHR ''.'', CHR ''%''} = {}"
proof -
  let ?gs = "groups_of ip"
  have hex: "set (Join (map hex_string gs) '':'') \<subseteq> Collect is_hex \<union> {CHR '':''}" for gs
    using set_Join [of "map hex_string gs" "'':''"] hex_string_hex by (fastforce simp: list_all_iff)
  obtain g g' gs where "?gs = g # g' # gs" using assms by (cases ?gs; cases "tl ?gs") auto
  then have "CHR '':'' \<in> set (Join (map hex_string ?gs) '':'')" by simp
  moreover obtain zs ze where "longest_zero_run ?gs [0..<8] (255, 255) = (zs, ze)" by fastforce
  ultimately have "CHR '':'' \<in> set (v6_string ip)" by (simp add: v6_string_def Let_def)
  moreover have "set (v6_string ip) \<subseteq> Collect is_hex \<union> {CHR '':''}"
    using hex by (auto simp: v6_string_def Let_def split: prod.split)
  ultimately show ?thesis by auto
qed

lemma ParseIP_decided_by:
  assumes d: "d = CHR ''.'' \<or> d = CHR '':''" and "d \<in> set s" and none: "set s \<inter> ({CHR ''.'', CHR '':'', CHR ''%''} - {d}) = {}"
  shows "ParseIP s = (if d = CHR ''.'' then map_option (\<lambda>b. v4_prefix @ b) (parseIPv4Fields s) else parseIPv6 s)"
proof -
  let ?f = "filter (\<lambda>c. c \<in> set ''.:%'') s"
  have percent: "CHR ''%'' \<notin> set s" using none d by auto
  have "?f \<noteq> []" using d \<open>d \<in> set s\<close> by (auto simp: filter_empty_conv)
  then have f: "?f = hd ?f # tl ?f" by simp
  have "hd ?f \<in> set ?f" using \<open>?f \<noteq> []\<close> by (rule hd_in_set)
  then have "hd ?f \<in> set s" "hd ?f \<in> {CHR ''.'', CHR '':'', CHR ''%''}" by simp_all
  then have "hd ?f = d" using none by blast
  then obtain cs where "?f = d # cs" using f by metis
  then show ?thesis unfolding ParseIP_def by (simp only: list.case percent if_False)
qed

lemma ParseIP_IP_String:
  assumes "valid_ip ip"
  shows "ParseIP (IP_String ip) = Some (as16 ip)"
proof (cases "To4 ip")
  case (Some b)
  then have b: "length b = 4" "list_all (\<lambda>x. x < 256) b"
    using assms by (auto simp: To4_def valid_ip_def list_all_iff split: if_splits dest: in_set_dropD)
  have b16: "as16 ip = v4_prefix @ b"
  proof (cases "length ip = 4")
    case False
    with Some have "take 12 ip = v4_prefix" "drop 12 ip = b" by (auto simp: To4_def split: if_splits)
    with False append_take_drop_id [of 12 ip] show ?thesis by (simp add: as16_def)
  qed (use Some in \<open>simp add: To4_def as16_def\<close>)
  have s: "IP_String ip = v4_string b" using Some assms by (auto simp: IP_String_def valid_ip_def)
  have "ParseIP (v4_string b) = map_option (\<lambda>b. v4_prefix @ b) (parseIPv4Fields (v4_string b))"
    using ParseIP_decided_by [of "CHR ''.''" "v4_string b"] v4_string_chars [OF b(1)] by auto
  then show ?thesis by (simp add: s b16 parse_v4_string [OF b])
next
  case None
  then have ip: "length ip = 16" "list_all (\<lambda>b. b < 256) ip" using assms by (auto simp: To4_def valid_ip_def)
  have s: "IP_String ip = v6_string ip" using None ip by (auto simp: IP_String_def)
  have "length (groups_of ip) = 8" using groups_of_bytes [OF _ ip(2)] ip(1) by simp
  from v6_string_chars [OF this] have "ParseIP (v6_string ip) = parseIPv6 (v6_string ip)"
    using ParseIP_decided_by [of "CHR '':''" "v6_string ip"] by auto
  then show ?thesis by (simp add: s as16_def ip parse_v6_string [OF ip])
qed

text \<open>So two addresses with one text are the same address.\<close>

lemma IP_String_inject: "valid_ip ip \<Longrightarrow> valid_ip ip' \<Longrightarrow> IP_String ip = IP_String ip' \<longleftrightarrow> as16 ip = as16 ip'"
proof
  assume v: "valid_ip ip" "valid_ip ip'"
  show "IP_String ip = IP_String ip' \<Longrightarrow> as16 ip = as16 ip'"
    using ParseIP_IP_String [OF v(1)] ParseIP_IP_String [OF v(2)] by simp
  have to4: "To4 (as16 a) = To4 a" if "valid_ip a" for a using that by (auto simp: To4_def as16_def valid_ip_def v4_prefix_def)
  have "IP_String a = IP_String (as16 a)" if "valid_ip a" for a
    using that to4 [OF that] by (auto simp: IP_String_def valid_ip_def as16_def v4_prefix_def To4_def)
  then show "as16 ip = as16 ip' \<Longrightarrow> IP_String ip = IP_String ip'" using v by metis
qed

end
