(* ===== verification/Augmentation.thy ===== *)
theory Augmentation
  imports Zone_Probe Address_Text
begin

text \<open>
  Which hosts of a delegation are resolved again. The records of the referral become text in
  \<^verbatim>\<open>extractDelegation\<close> and are parsed again in \<^verbatim>\<open>hostsNeedingAugmentation\<close>; by the round trip of
  \<open>Address_Text\<close> the hosts found are those that lack a glue record of a family.
\<close>

section \<open>Families of the glue records\<close>

text \<open>The addresses the DNS library hands out: 4 bytes in an A record, 16 in an AAAA record.\<close>

fun sized_address :: "rr \<Rightarrow> bool" where
  "sized_address (RR_A n ip) \<longleftrightarrow> length ip = 4 \<and> list_all (\<lambda>b. b < 256) ip"
| "sized_address (RR_AAAA n ip) \<longleftrightarrow> length ip = 16 \<and> list_all (\<lambda>b. b < 256) ip"
| "sized_address _ \<longleftrightarrow> True"

text \<open>An IPv4 address may also come in the 16 bytes of an AAAA record.\<close>

fun glues_v4 :: "string \<Rightarrow> rr \<Rightarrow> bool" where
  "glues_v4 host (RR_A n ip) \<longleftrightarrow> n = host"
| "glues_v4 host (RR_AAAA n ip) \<longleftrightarrow> n = host \<and> take 12 ip = v4_prefix"
| "glues_v4 host _ \<longleftrightarrow> False"

fun glues_v6 :: "string \<Rightarrow> rr \<Rightarrow> bool" where
  "glues_v6 host (RR_AAAA n ip) \<longleftrightarrow> n = host \<and> take 12 ip \<noteq> v4_prefix"
| "glues_v6 host _ \<longleftrightarrow> False"

section \<open>The family of a text\<close>

lemma isIPv6_IP_String:
  assumes "valid_ip ip"
  shows "isIPv6 (IP_String ip) \<longleftrightarrow> length ip = 16 \<and> take 12 ip \<noteq> v4_prefix"
proof -
  have "isIPv6 (IP_String ip) \<longleftrightarrow> To4 (as16 ip) = None" by (simp add: isIPv6_def ParseIP_IP_String [OF assms])
  moreover have "length v4_prefix = 12" by (simp add: v4_prefix_def)
  ultimately show ?thesis using assms by (auto simp: To4_def as16_def valid_ip_def)
qed

lemma sized_valid:
  "sized_address (RR_A n ip) \<Longrightarrow> valid_ip ip" "sized_address (RR_AAAA n ip) \<Longrightarrow> valid_ip ip"
  by (simp_all add: valid_ip_def)

lemma glue_addrs_mem:
  "ip \<in> set (glue_addrs extra host) \<longleftrightarrow>
     (\<exists>a. (RR_A host a \<in> set extra \<or> RR_AAAA host a \<in> set extra) \<and> ip = IP_String a)"
proof
  assume "ip \<in> set (glue_addrs extra host)"
  then obtain rr where "rr \<in> set extra" and
    "(case rr of RR_A n a \<Rightarrow> if n = host then Some (IP_String a) else None
      | RR_AAAA n a \<Rightarrow> if n = host then Some (IP_String a) else None | _ \<Rightarrow> None) = Some ip"
    unfolding glue_addrs_def set_rev set_remdups set_map_filter by blast
  then show "\<exists>a. (RR_A host a \<in> set extra \<or> RR_AAAA host a \<in> set extra) \<and> ip = IP_String a"
    by (cases rr rule: rr.exhaust) (auto split: if_splits)
next
  assume "\<exists>a. (RR_A host a \<in> set extra \<or> RR_AAAA host a \<in> set extra) \<and> ip = IP_String a"
  then show "ip \<in> set (glue_addrs extra host)"
    unfolding glue_addrs_def set_rev set_remdups set_map_filter by force
qed

lemma glue_addrs_Bex:
  "(\<exists>ip \<in> set (glue_addrs extra host). P ip) \<longleftrightarrow>
     (\<exists>a. (RR_A host a \<in> set extra \<or> RR_AAAA host a \<in> set extra) \<and> P (IP_String a))"
  unfolding Bex_def glue_addrs_mem by blast

lemma glue_v4:
  assumes "list_all sized_address extra"
  shows "(\<exists>ip \<in> set (glue_addrs extra host). \<not> isIPv6 ip) \<longleftrightarrow> list_ex (glues_v4 host) extra"
proof
  assume "\<exists>ip \<in> set (glue_addrs extra host). \<not> isIPv6 ip"
  then obtain a where a: "RR_A host a \<in> set extra \<or> RR_AAAA host a \<in> set extra" "\<not> isIPv6 (IP_String a)"
    unfolding glue_addrs_Bex by blast
  then consider "RR_A host a \<in> set extra" | "RR_AAAA host a \<in> set extra" "take 12 a = v4_prefix"
    using assms sized_valid isIPv6_IP_String by (fastforce simp: list_all_iff)
  then show "list_ex (glues_v4 host) extra" by cases (force simp: list_ex_iff)+
next
  assume "list_ex (glues_v4 host) extra"
  then obtain rr where rr: "rr \<in> set extra" "glues_v4 host rr" by (auto simp: list_ex_iff)
  then have "sized_address rr" using assms by (simp add: list_all_iff)
  with rr show "\<exists>ip \<in> set (glue_addrs extra host). \<not> isIPv6 ip"
    unfolding glue_addrs_Bex by (cases rr rule: rr.exhaust) (auto simp: isIPv6_IP_String valid_ip_def)
qed

lemma glue_v6:
  assumes "list_all sized_address extra"
  shows "(\<exists>ip \<in> set (glue_addrs extra host). isIPv6 ip) \<longleftrightarrow> list_ex (glues_v6 host) extra"
proof
  assume "\<exists>ip \<in> set (glue_addrs extra host). isIPv6 ip"
  then obtain a where a: "RR_A host a \<in> set extra \<or> RR_AAAA host a \<in> set extra" "isIPv6 (IP_String a)"
    unfolding glue_addrs_Bex by blast
  then have "RR_AAAA host a \<in> set extra" "take 12 a \<noteq> v4_prefix"
    using assms sized_valid isIPv6_IP_String by (fastforce simp: list_all_iff)+
  then show "list_ex (glues_v6 host) extra" by (force simp: list_ex_iff)
next
  assume "list_ex (glues_v6 host) extra"
  then obtain rr where rr: "rr \<in> set extra" "glues_v6 host rr" by (auto simp: list_ex_iff)
  then have "sized_address rr" using assms by (simp add: list_all_iff)
  with rr show "\<exists>ip \<in> set (glue_addrs extra host). isIPv6 ip"
    unfolding glue_addrs_Bex by (cases rr rule: rr.exhaust) (auto simp: isIPv6_IP_String valid_ip_def)
qed

lemma delegation_entry:
  "n \<in> set (NSRecords (extractDelegation p ns extra zone)) \<longleftrightarrow>
     Hostname n \<in> set (ns_targets ns) \<and>
     (if glue_addrs extra (Hostname n) = [] then NS_IP n = [] else NS_IP n \<in> set (glue_addrs extra (Hostname n)))"
  by (cases n) (auto simp: extractDelegation_NSRecords delegation_entries_def split: if_splits)

lemma lacks_family_glue:
  assumes "list_all sized_address extra"
  shows "lacks_family (NSRecords (extractDelegation p ns extra zone)) host \<longleftrightarrow>
    host \<in> set (ns_targets ns) \<and> (\<not> list_ex (glues_v4 host) extra \<or> \<not> list_ex (glues_v6 host) extra)"
proof -
  let ?nss = "NSRecords (extractDelegation p ns extra zone)"
  have host: "host \<in> Hostname ` set ?nss \<longleftrightarrow> host \<in> set (ns_targets ns)"
  proof
    assume "host \<in> set (ns_targets ns)"
    then have "\<lparr>Hostname = host, NS_IP = (if glue_addrs extra host = [] then [] else hd (glue_addrs extra host))\<rparr> \<in> set ?nss"
      by (simp add: delegation_entry)
    then show "host \<in> Hostname ` set ?nss" by force
  qed (auto simp: delegation_entry)
  have addr: "(\<exists>n. n \<in> set ?nss \<and> Hostname n = host \<and> NS_IP n \<noteq> [] \<and> P (NS_IP n)) \<longleftrightarrow>
      (\<exists>ip \<in> set (glue_addrs extra host). P ip)" if "host \<in> set (ns_targets ns)" for P
  proof
    assume "\<exists>ip \<in> set (glue_addrs extra host). P ip"
    then obtain ip where ip: "ip \<in> set (glue_addrs extra host)" "P ip" by blast
    then have "\<lparr>Hostname = host, NS_IP = ip\<rparr> \<in> set ?nss" "ip \<noteq> []"
      using that glue_addrs_nonempty by (auto simp: delegation_entry)
    then show "\<exists>n. n \<in> set ?nss \<and> Hostname n = host \<and> NS_IP n \<noteq> [] \<and> P (NS_IP n)" using ip by force
  qed (auto simp: delegation_entry split: if_splits)
  show ?thesis
  proof (cases "host \<in> set (ns_targets ns)")
    case True
    from addr [OF True, of "\<lambda>ip. \<not> isIPv6 ip"] addr [OF True, of isIPv6] show ?thesis
      unfolding lacks_family_def host glue_v4 [OF assms] glue_v6 [OF assms] using True by blast
  qed (simp add: lacks_family_def host)
qed

section \<open>The hosts resolved again\<close>

text \<open>The addresses the additional section gives the nameserver targets.\<close>

definition glue_of :: "rr list \<Rightarrow> rr list \<Rightarrow> nameserver set" where
  "glue_of ns extra = {n. Hostname n \<in> set (ns_targets ns) \<and>
     (\<exists>a. (RR_A (Hostname n) a \<in> set extra \<or> RR_AAAA (Hostname n) a \<in> set extra) \<and> NS_IP n = IP_String a)}"

lemma glue_of_delegation: "{n \<in> set (NSRecords (extractDelegation p ns extra zone)). NS_IP n \<noteq> []} = glue_of ns extra"
proof -
  have "n \<in> set (NSRecords (extractDelegation p ns extra zone)) \<and> NS_IP n \<noteq> [] \<longleftrightarrow>
      Hostname n \<in> set (ns_targets ns) \<and> NS_IP n \<in> set (glue_addrs extra (Hostname n))" for n
    using glue_addrs_nonempty by (auto simp: delegation_entry split: if_splits)
  then show ?thesis unfolding glue_of_def glue_addrs_mem by blast
qed

text \<open>C13: If the addresses of the additional section have the sizes of their types, the nameserver targets without an
  IPv4 or without an IPv6 glue record are resolved, each exactly once whatever the order of the map, and nothing else
  is asked; the nameservers to probe are then the glue of the targets together with every address these resolutions
  returned, none twice. When no target lacks a family, they are the glue and no question is asked.\<close>

theorem augmentation_exact:
  assumes "\<And>m. mset (order m) = mset m" and "list_all sized_address extra"
    and "dlg = extractDelegation p ns extra zone"
  shows "(RootServers e \<noteq> [] \<longrightarrow> (\<exists>nss run h'. discoverNameservers e order dlg h = Some (nss, h') \<and>
      resolve_run e h run h' \<and> map fst run = hostsNeedingAugmentation order (NSRecords dlg) \<and>
      distinct (map addr_key nss) \<and> set nss \<subseteq> glue_of ns extra \<union> run_addresses run \<and>
      addr_key ` set nss = addr_key ` (glue_of ns extra \<union> run_addresses run))) \<and>
    distinct (hostsNeedingAugmentation order (NSRecords dlg)) \<and>
    set (hostsNeedingAugmentation order (NSRecords dlg)) =
      {host \<in> set (ns_targets ns). \<not> list_ex (glues_v4 host) extra \<or> \<not> list_ex (glues_v6 host) extra} \<and>
    (list_all (\<lambda>host. list_ex (glues_v4 host) extra \<and> list_ex (glues_v6 host) extra) (ns_targets ns) \<longrightarrow>
      discoverNameservers e order dlg h = Some (fst (buildInitialNameservers (NSRecords dlg)), h))"
proof (intro conjI impI)
  let ?hosts = "hostsNeedingAugmentation order (NSRecords dlg)"
  show "distinct ?hosts" using assms(1) by (rule hostsNeedingAugmentation_spec)
  show set: "set ?hosts = {host \<in> set (ns_targets ns). \<not> list_ex (glues_v4 host) extra \<or> \<not> list_ex (glues_v6 host) extra}"
    unfolding hostsNeedingAugmentation_spec(2) [of order, OF assms(1)] assms(3) using lacks_family_glue [OF assms(2)] by auto
  {
    assume "list_all (\<lambda>host. list_ex (glues_v4 host) extra \<and> list_ex (glues_v6 host) extra) (ns_targets ns)"
    then have "?hosts = []" using set by (auto simp: list_all_iff simp flip: set_empty)
    then show "discoverNameservers e order dlg h = Some (fst (buildInitialNameservers (NSRecords dlg)), h)"
      by (simp add: discoverNameservers_def split: prod.split)
  }
  assume "RootServers e \<noteq> []"
  then obtain nss h' where D: "discoverNameservers e order dlg h = Some (nss, h')"
    using discoverNameservers_runs by fastforce
  from discoverNameservers_run [OF assms(1) D] D
  show "\<exists>nss run h'. discoverNameservers e order dlg h = Some (nss, h') \<and> resolve_run e h run h' \<and>
      map fst run = ?hosts \<and> distinct (map addr_key nss) \<and> set nss \<subseteq> glue_of ns extra \<union> run_addresses run \<and>
      addr_key ` set nss = addr_key ` (glue_of ns extra \<union> run_addresses run)"
    unfolding assms(3) glue_of_delegation by blast
qed

definition glued_ns :: "rr list" where
  "glued_ns = [RR_NS ''z.'' ''a.z.'', RR_NS ''z.'' ''b.z.'', RR_NS ''z.'' ''c.z.'']"

definition glued6 :: ip_bytes where
  "glued6 = [32, 1, 0, 0, 0, 0, 0, 0, 0, 0, 0, 0, 0, 0, 0, 1]"

definition mixed_glue :: "rr list" where
  "mixed_glue = [RR_A ''a.z.'' [10, 0, 0, 1], RR_AAAA ''a.z.'' glued6, RR_AAAA ''b.z.'' (v4_prefix @ [10, 0, 0, 2])]"

lemma glue_texts: "IP_String [10, 0, 0, 1] = ''10.0.0.1''" "IP_String glued6 = ''2001::1''"
proof -
  show "IP_String [10, 0, 0, 1] = ''10.0.0.1''"
    by (simp add: IP_String_def To4_def v4_string_def Itoa.simps digit_char_def)
  have range: "[0..<8] = [0, 1, 2, 3, 4, 5, 6, 7]" by (simp add: upt_rec)
  have run: "longest_zero_run (groups_of glued6) [0..<8] (255, 255) = (1, 7)"
    unfolding range glued6_def by (simp add: zero_run_at_def)
  have hex: "hex_string (Suc 0) = ''1''" "hex_string 8193 = ''2001''" by (simp_all add: hex_string.simps hex_char_def)
  show "IP_String glued6 = ''2001::1''"
    unfolding IP_String_def To4_def v6_string_def Let_def run by (simp add: v4_prefix_def glued6_def hex)
qed

theorem augmentation_exact_witness:
  "(\<exists>nss run h'. discoverNameservers (static_env example_net) rev (extractDelegation ''r'' glued_ns mixed_glue ''z.'') [] =
       Some (nss, h') \<and>
     resolve_run (static_env example_net) [] run h' \<and> fst ` set run = {''b.z.'', ''c.z.''}) \<and>
   discoverNameservers (static_env example_net) rev (extractDelegation ''r'' [RR_NS ''z.'' ''a.z.''] mixed_glue ''z.'') [] =
     Some ([\<lparr>Hostname = ''a.z.'', NS_IP = ''10.0.0.1''\<rparr>, \<lparr>Hostname = ''a.z.'', NS_IP = ''2001::1''\<rparr>], [])"
proof
  have sized: "list_all sized_address mixed_glue" by code_simp
  let ?d = "extractDelegation ''r'' glued_ns mixed_glue ''z.''" and ?e = "static_env example_net"
  have "filter (\<lambda>host. \<not> list_ex (glues_v4 host) mixed_glue \<or> \<not> list_ex (glues_v6 host) mixed_glue) (ns_targets glued_ns) =
      [''b.z.'', ''c.z.'']" by code_simp
  from arg_cong [OF this, of set] have hosts: "set (hostsNeedingAugmentation rev (NSRecords ?d)) = {''b.z.'', ''c.z.''}"
    unfolding set_filter using augmentation_exact [of rev, OF mset_rev sized refl] by (simp only: list.set)
  have root: "RootServers ?e \<noteq> []" by (simp add: static_env_def)
  from augmentation_exact [where order = rev and p = "''r''" and ns = glued_ns and zone = "''z.''" and e = ?e and h = "[]",
      OF mset_rev sized refl, THEN conjunct1, THEN mp, OF root] obtain nss run h'
    where "discoverNameservers ?e rev ?d [] = Some (nss, h')" "resolve_run ?e [] run h'"
      "map fst run = hostsNeedingAugmentation rev (NSRecords ?d)"
    by (elim exE conjE) (rule that; assumption)
  moreover from this(3) have "fst ` set run = {''b.z.'', ''c.z.''}" unfolding hosts [symmetric] by (metis set_map)
  ultimately show "\<exists>nss run h'. discoverNameservers ?e rev ?d [] = Some (nss, h') \<and> resolve_run ?e [] run h' \<and>
      fst ` set run = {''b.z.'', ''c.z.''}" by blast
  let ?dlg = "extractDelegation ''r'' [RR_NS ''z.'' ''a.z.''] mixed_glue ''z.''"
  have "list_all (\<lambda>host. list_ex (glues_v4 host) mixed_glue \<and> list_ex (glues_v6 host) mixed_glue) (ns_targets [RR_NS ''z.'' ''a.z.''])"
    by code_simp
  then have "discoverNameservers ?e rev ?dlg [] = Some (fst (buildInitialNameservers (NSRecords ?dlg)), [])"
    by (intro augmentation_exact [of rev, OF mset_rev sized refl, THEN conjunct2, THEN conjunct2, THEN conjunct2, THEN mp])
  moreover have "NSRecords ?dlg =
      [\<lparr>Hostname = ''a.z.'', NS_IP = ''10.0.0.1''\<rparr>, \<lparr>Hostname = ''a.z.'', NS_IP = ''2001::1''\<rparr>]"
    by (simp add: extractDelegation_def mixed_glue_def glue_texts Let_def del: One_nat_def)
  ultimately show "discoverNameservers ?e rev ?dlg [] =
     Some ([\<lparr>Hostname = ''a.z.'', NS_IP = ''10.0.0.1''\<rparr>, \<lparr>Hostname = ''a.z.'', NS_IP = ''2001::1''\<rparr>], [])"
    by (simp add: buildInitialNameservers_def addr_key_def)
qed

end
