(* ===== verification/Cycle_Metrics.thy ===== *)
theory Cycle_Metrics
  imports Zone_Probe
begin

text \<open>
  The operational metrics of the cycle runner, \<^verbatim>\<open>cycle/runner.go\<close>: the metrics \<open>NewRunner\<close>
  creates and what a cycle does to them once the results are in. Prometheus metrics are a
  library: the model is the sequence of calls the code makes on them. \<open>series_after\<close> reads such
  a sequence by the documented meaning of the calls, and the properties speak of what it reads.
  Durations are in nanoseconds. The orders in which maps are ranged over are parameters.
\<close>

section \<open>The metrics of the runner\<close>

datatype metric =
  CycleDuration | ZonesProbed | DNSQueries | DNSDuration | DNSTimeouts
| DelegationCacheHits | DelegationCacheMisses | ParentDelegation | NSClassificationCount
| MXCount | MXResolvedCount | MXCNAMECount | MXSyntaxValidCount | NullMX | MXHasNullMXRR | MXIsPrimary

datatype metric_kind = Gauge | Counter | CounterVec | GaugeVec

text \<open>The metrics registered, with their names and label names (the help texts are left out).\<close>

definition NewRunner :: "(metric \<times> metric_kind \<times> string \<times> string list) list" where
  "NewRunner =
     [(CycleDuration, Gauge, ''dnshealth_probe_cycle_duration_seconds'', []),
      (ZonesProbed, Gauge, ''dnshealth_probe_zones_total'', []),
      (DNSQueries, CounterVec, ''dnshealth_dns_queries_total'', [''server'']),
      (DNSDuration, CounterVec, ''dnshealth_dns_query_duration_seconds_total'', [''server'']),
      (DNSTimeouts, CounterVec, ''dnshealth_dns_timeouts_total'', [''server'']),
      (DelegationCacheHits, Counter, ''dnshealth_delegation_cache_hits_total'', []),
      (DelegationCacheMisses, Counter, ''dnshealth_delegation_cache_misses_total'', []),
      (ParentDelegation, GaugeVec, ''dnshealth_parent_delegation'', [''zone'']),
      (NSClassificationCount, GaugeVec, ''dnshealth_ns_classification_count'', [''zone'', ''classification'']),
      (MXCount, GaugeVec, ''dnshealth_mx_count'', [''zone'']),
      (MXResolvedCount, GaugeVec, ''dnshealth_mx_resolved_count'', [''zone'']),
      (MXCNAMECount, GaugeVec, ''dnshealth_mx_cname_count'', [''zone'']),
      (MXSyntaxValidCount, GaugeVec, ''dnshealth_mx_syntax_valid_count'', [''zone'']),
      (NullMX, GaugeVec, ''dnshealth_mx_null_mx'', [''zone'']),
      (MXHasNullMXRR, GaugeVec, ''dnshealth_mx_has_null_mx_rr'', [''zone'']),
      (MXIsPrimary, GaugeVec, ''dnshealth_mx_is_primary'', [''zone'', ''target''])]"

datatype metric_op =
  OpReset metric
| OpSet metric "string list" int
| OpAdd metric "string list" int

abbreviation OpInc :: "metric \<Rightarrow> string list \<Rightarrow> metric_op" where
  "OpInc m ls \<equiv> OpAdd m ls 1"

section \<open>The start of a cycle\<close>

definition reset_ops :: "metric_op list" where
  "reset_ops = [OpReset ParentDelegation, OpReset NSClassificationCount, OpReset MXCount, OpReset MXResolvedCount,
     OpReset MXCNAMECount, OpReset MXSyntaxValidCount, OpReset NullMX, OpReset MXHasNullMXRR, OpReset MXIsPrimary]"

section \<open>Counters per server\<close>

definition server_ops :: "ProbeResult list \<Rightarrow> metric_op list" where
  "server_ops allResults = concat (map (\<lambda>res.
     if IP res = [] then []
     else [OpInc DNSQueries [IP res], OpAdd DNSDuration [IP res] (Duration res)] @
          (if TimedOut res then [OpInc DNSTimeouts [IP res]] else [])) allResults)"

section \<open>Classification counts\<close>

definition classification_ops :: "string list \<Rightarrow> ProbeResult list \<Rightarrow> metric_op list" where
  "classification_ops zones allResults =
     concat (map (\<lambda>zone. [OpSet NSClassificationCount [zone, ''parent-only''] 0,
        OpSet NSClassificationCount [zone, ''self-only''] 0, OpSet NSClassificationCount [zone, ''both''] 0]) zones) @
     concat (map (\<lambda>res.
       if Check res \<noteq> ''ns_classification'' then []
       else (case map_of (Labels res) ''classification'' of
          None \<Rightarrow> []
        | Some classification \<Rightarrow> [OpInc NSClassificationCount [Zone res, classification]])) allResults)"

section \<open>MX aggregation\<close>

definition mx_zero_ops :: "string list \<Rightarrow> metric_op list" where
  "mx_zero_ops zones = concat (map (\<lambda>zone. map (\<lambda>m. OpSet m [zone] 0)
     [MXCount, MXResolvedCount, MXCNAMECount, MXSyntaxValidCount, NullMX, MXHasNullMXRR]) zones)"

text \<open>
  \<open>strconv.ParseFloat\<close> on what the MX prober writes into the label, decimal digits. (A sign,
  a fraction or an exponent never occurs there.)
\<close>

definition parse_priority :: "string \<Rightarrow> int option" where
  "parse_priority s = map_option int (ParseDigits s)"

record mxRR =
  mr_zone :: string
  mr_target :: string
  mr_priority :: int

type_synonym min_priorities = "(string \<times> (string \<times> int) list) list"

definition min_of_zone :: "min_priorities \<Rightarrow> string \<Rightarrow> (string \<times> int) list" where
  "min_of_zone m zone = (case map_of m zone of Some t \<Rightarrow> t | None \<Rightarrow> [])"

definition track_min :: "mxRR \<Rightarrow> min_priorities \<Rightarrow> min_priorities" where
  "track_min rr m =
     (let targets = min_of_zone m (mr_zone rr);
          targets' = (case map_of targets (mr_target rr) of
              Some existing \<Rightarrow> if mr_priority rr < existing then AList.update (mr_target rr) (mr_priority rr) targets else targets
            | None \<Rightarrow> AList.update (mr_target rr) (mr_priority rr) targets) in
      AList.update (mr_zone rr) targets' m)"

text \<open>The three validity metrics a result may carry.\<close>

definition mx_validity_ops :: "ProbeResult \<Rightarrow> metric_op list" where
  "mx_validity_ops res =
     (if map_of (Metrics res) ''mx_resolves'' = Some 1 then [OpInc MXResolvedCount [Zone res]] else []) @
     (if map_of (Metrics res) ''mx_is_cname'' = Some 1 then [OpInc MXCNAMECount [Zone res]] else []) @
     (if map_of (Metrics res) ''mx_syntax_valid'' = Some 1 then [OpInc MXSyntaxValidCount [Zone res]] else [])"

definition target_label :: "ProbeResult \<Rightarrow> string" where
  "target_label res = (case map_of (Labels res) ''target'' of Some t \<Rightarrow> t | None \<Rightarrow> [])"

fun mx_collect ::
  "ProbeResult list \<Rightarrow> mxRR list \<Rightarrow> min_priorities \<Rightarrow> metric_op list \<times> mxRR list \<times> min_priorities" where
  "mx_collect [] mxRRs perTarget = ([], mxRRs, perTarget)"
| "mx_collect (res # results) mxRRs perTarget =
     (if Check res \<noteq> ''mx'' then mx_collect results mxRRs perTarget
      else if map_of (Metrics res) ''mx_info'' = None
      then (let (ops, c) = mx_collect results mxRRs perTarget in (mx_validity_ops res @ ops, c))
      else (case map_of (Labels res) ''priority'' of
          None \<Rightarrow> (let (ops, c) = mx_collect results mxRRs perTarget in (OpInc MXCount [Zone res] # ops, c))
        | Some priorityStr \<Rightarrow>
           (case parse_priority priorityStr of
              None \<Rightarrow> (let (ops, c) = mx_collect results mxRRs perTarget in (OpInc MXCount [Zone res] # ops, c))
            | Some p \<Rightarrow>
               (let rr = \<lparr>mr_zone = Zone res, mr_target = target_label res, mr_priority = p\<rparr>;
                    (ops, c) = mx_collect results (mxRRs @ [rr]) (track_min rr perTarget) in
                (OpInc MXCount [Zone res] # mx_validity_ops res @ ops, c)))))"

text \<open>A null MX record: preference 0 and target \<^verbatim>\<open>.\<close>\<close>

definition is_null_rr :: "mxRR \<Rightarrow> bool" where
  "is_null_rr rr \<longleftrightarrow> mr_priority rr = 0 \<and> mr_target rr = ''.''"

fun null_loop ::
  "mxRR list \<Rightarrow> (string \<times> nat) list \<Rightarrow> string list \<Rightarrow> (string \<times> nat) list \<times> string list" where
  "null_loop [] zoneRRCount hasNullMXRR = (zoneRRCount, hasNullMXRR)"
| "null_loop (rr # rrs) zoneRRCount hasNullMXRR =
     (let n = (case map_of zoneRRCount (mr_zone rr) of Some n \<Rightarrow> n | None \<Rightarrow> 0) in
      null_loop rrs (AList.update (mr_zone rr) (n + 1) zoneRRCount)
        (if is_null_rr rr then List.insert (mr_zone rr) hasNullMXRR else hasNullMXRR))"

definition null_ops :: "(string list \<Rightarrow> string list) \<Rightarrow> mxRR list \<Rightarrow> metric_op list" where
  "null_ops order mxRRs =
     (let (zoneRRCount, hasNullMXRR) = null_loop mxRRs [] [] in
      concat (map (\<lambda>zone. OpSet MXHasNullMXRR [zone] 1 #
        (if map_of zoneRRCount zone = Some 1 then [OpSet NullMX [zone] 1] else [])) (order hasNullMXRR)))"

fun zone_min :: "int list \<Rightarrow> int option \<Rightarrow> int option" where
  "zone_min [] m = m"
| "zone_min (p # ps) m = zone_min ps (case m of None \<Rightarrow> Some p | Some q \<Rightarrow> if p < q then Some p else m)"

record map_orders =
  order_null :: "string list \<Rightarrow> string list"
  order_zones :: "min_priorities \<Rightarrow> min_priorities"
  order_targets :: "(string \<times> int) list \<Rightarrow> (string \<times> int) list"

definition primary_ops :: "map_orders \<Rightarrow> min_priorities \<Rightarrow> metric_op list" where
  "primary_ops o' perTarget = concat (map (\<lambda>(zone, targetMinP).
     if targetMinP = [] then []
     else (let zoneMin = zone_min (map snd (order_targets o' targetMinP)) None in
       map (\<lambda>(target, p). OpSet MXIsPrimary [zone, target] (if Some p = zoneMin then 1 else 0))
         (order_targets o' targetMinP))) (order_zones o' perTarget))"

definition mx_ops :: "map_orders \<Rightarrow> string list \<Rightarrow> ProbeResult list \<Rightarrow> metric_op list" where
  "mx_ops o' zones allResults =
     (let (ops, mxRRs, perTarget) = mx_collect allResults [] [] in
      mx_zero_ops zones @ ops @ null_ops (order_null o') mxRRs @ primary_ops o' perTarget)"

text \<open>All that is done to the metrics after the last zone.\<close>

definition aggregate_ops :: "map_orders \<Rightarrow> string list \<Rightarrow> int \<Rightarrow> ProbeResult list \<Rightarrow> metric_op list" where
  "aggregate_ops o' zones duration allResults =
     [OpSet CycleDuration [] duration, OpSet ZonesProbed [] (int (length zones))] @
     server_ops allResults @ classification_ops zones allResults @ mx_ops o' zones allResults"

section \<open>Reading a sequence of operations\<close>

type_synonym series_state = "metric \<Rightarrow> string list \<Rightarrow> int option"

fun apply_op :: "metric_op \<Rightarrow> series_state \<Rightarrow> series_state" where
  "apply_op (OpReset m) s = s(m := Map.empty)"
| "apply_op (OpSet m ls v) s = s(m := (s m)(ls \<mapsto> v))"
| "apply_op (OpAdd m ls v) s = s(m := (s m)(ls \<mapsto> (case s m ls of Some x \<Rightarrow> x | None \<Rightarrow> 0) + v))"

definition series_after :: "metric_op list \<Rightarrow> series_state \<Rightarrow> series_state" where
  "series_after ops s = fold apply_op ops s"

section \<open>One series\<close>

text \<open>What one operation does to one series, and the reading of a sequence restricted to it.\<close>

fun step_series :: "metric \<Rightarrow> string list \<Rightarrow> metric_op \<Rightarrow> int option \<Rightarrow> int option" where
  "step_series m ls (OpReset m') x = (if m' = m then None else x)"
| "step_series m ls (OpSet m' ls' v) x = (if m' = m \<and> ls' = ls then Some v else x)"
| "step_series m ls (OpAdd m' ls' v) x =
     (if m' = m \<and> ls' = ls then Some ((case x of Some y \<Rightarrow> y | None \<Rightarrow> 0) + v) else x)"

definition reads :: "metric \<Rightarrow> string list \<Rightarrow> metric_op list \<Rightarrow> int option \<Rightarrow> int option" where
  "reads m ls ops x = fold (step_series m ls) ops x"

lemma series_after_reads: "series_after ops s m ls = reads m ls ops (s m ls)"
proof (induction ops arbitrary: s)
  case (Cons op ops)
  have "apply_op op s m ls = step_series m ls op (s m ls)" by (cases op) auto
  with Cons show ?case by (simp add: series_after_def reads_def)
qed (simp add: series_after_def reads_def)

lemma reads_simps [simp]:
  "reads m ls [] x = x" "reads m ls (op # ops) x = reads m ls ops (step_series m ls op x)"
  "reads m ls (ops @ ops') x = reads m ls ops' (reads m ls ops x)"
  by (simp_all add: reads_def)

fun mentions :: "metric \<Rightarrow> string list \<Rightarrow> metric_op \<Rightarrow> bool" where
  "mentions m ls (OpReset m') \<longleftrightarrow> m' = m"
| "mentions m ls (OpSet m' ls' v) \<longleftrightarrow> m' = m \<and> ls' = ls"
| "mentions m ls (OpAdd m' ls' v) \<longleftrightarrow> m' = m \<and> ls' = ls"

lemma reads_untouched: "list_all (\<lambda>op. \<not> mentions m ls op) ops \<Longrightarrow> reads m ls ops x = x"
proof (induction ops arbitrary: x)
  case (Cons op ops)
  then have "step_series m ls op x = x" by (cases op) auto
  with Cons show ?case by simp
qed simp

text \<open>The sum of what a sequence adds to a series it neither sets nor resets.\<close>

fun added_by :: "metric \<Rightarrow> string list \<Rightarrow> metric_op \<Rightarrow> int" where
  "added_by m ls (OpAdd m' ls' v) = (if m' = m \<and> ls' = ls then v else 0)"
| "added_by m ls _ = 0"

fun only_adds :: "metric \<Rightarrow> string list \<Rightarrow> metric_op \<Rightarrow> bool" where
  "only_adds m ls (OpReset m') \<longleftrightarrow> m' \<noteq> m"
| "only_adds m ls (OpSet m' ls' v) \<longleftrightarrow> \<not> (m' = m \<and> ls' = ls)"
| "only_adds m ls (OpAdd m' ls' v) \<longleftrightarrow> True"

definition added :: "metric \<Rightarrow> string list \<Rightarrow> metric_op list \<Rightarrow> int" where
  "added m ls ops = sum_list (map (added_by m ls) ops)"

lemma added_simps [simp]:
  "added m ls [] = 0" "added m ls (op # ops) = added_by m ls op + added m ls ops"
  "added m ls (ops @ ops') = added m ls ops + added m ls ops'"
  by (simp_all add: added_def)

lemma added_concat: "added m ls (concat (map f xs)) = sum_list (map (\<lambda>x. added m ls (f x)) xs)"
  by (induction xs) simp_all

lemma reads_adds:
  "list_all (only_adds m ls) ops \<Longrightarrow> reads m ls ops (Some x) = Some (x + added m ls ops)"
proof (induction ops arbitrary: x)
  case (Cons op ops)
  then have "step_series m ls op (Some x) = Some (x + added_by m ls op)" by (cases op) auto
  with Cons show ?case by simp
qed simp

text \<open>Setting the same value any number of times, at least once.\<close>

lemma reads_set:
  assumes "list_all (\<lambda>op. mentions m ls op \<longrightarrow> op = OpSet m ls v) ops" and "list_ex (mentions m ls) ops"
  shows "reads m ls ops x = Some v"
  using assms
proof (induction ops arbitrary: x)
  case (Cons op ops)
  show ?case
  proof (cases "list_ex (mentions m ls) ops")
    case True
    with Cons show ?thesis by simp
  next
    case False
    then have "reads m ls ops y = y" for y by (intro reads_untouched) (simp add: list_all_iff list_ex_iff)
    with False Cons.prems show ?thesis by auto
  qed
qed simp

lemma reads_set_or:
  assumes "list_all (\<lambda>op. mentions m ls op \<longrightarrow> op = OpSet m ls v) ops"
  shows "reads m ls ops x = (if list_ex (mentions m ls) ops then Some v else x)"
  using reads_set [OF assms] reads_untouched [of m ls ops x] by (auto simp: list_ex_iff list_all_iff)

lemma length_filter_sum: "int (length (filter P xs)) = sum_list (map (\<lambda>x. if P x then 1 else 0) xs)"
  by (induction xs) auto

section \<open>What the aggregation of MX results computes\<close>

definition rr_of :: "ProbeResult \<Rightarrow> mxRR option" where
  "rr_of res =
     (if Check res = ''mx'' \<and> map_of (Metrics res) ''mx_info'' \<noteq> None
      then Option.bind (map_of (Labels res) ''priority'') (\<lambda>s.
        map_option (\<lambda>p. \<lparr>mr_zone = Zone res, mr_target = target_label res, mr_priority = p\<rparr>) (parse_priority s))
      else None)"

definition mx_result_ops :: "ProbeResult \<Rightarrow> metric_op list" where
  "mx_result_ops res =
     (if Check res \<noteq> ''mx'' then []
      else if map_of (Metrics res) ''mx_info'' = None then mx_validity_ops res
      else OpInc MXCount [Zone res] # (if rr_of res = None then [] else mx_validity_ops res))"

lemma mx_collect_step:
  "mx_collect (r # rs) rrs m =
     (let new = (case rr_of r of None \<Rightarrow> [] | Some rr \<Rightarrow> [rr]);
          (ops, c) = mx_collect rs (rrs @ new) (fold track_min new m) in (mx_result_ops r @ ops, c))"
  by (cases "map_of (Metrics r) ''mx_info''"; cases "map_of (Labels r) ''priority''";
      cases "parse_priority (the (map_of (Labels r) ''priority''))")
    (auto simp: rr_of_def mx_result_ops_def Let_def split: prod.splits)

lemma mx_collect_eq:
  "mx_collect rs rrs m = (concat (map mx_result_ops rs), rrs @ List.map_filter rr_of rs,
     fold track_min (List.map_filter rr_of rs) m)"
proof (induction rs arbitrary: rrs m)
  case (Cons r rs)
  show ?case unfolding mx_collect_step by (simp add: Cons Let_def map_filter_simps split: option.split)
qed (simp add: map_filter_simps)

lemma null_loop_spec:
  assumes "null_loop rrs cnt nulls = (cnt', nulls')"
  shows "set nulls' = set nulls \<union> {mr_zone rr | rr. rr \<in> set rrs \<and> is_null_rr rr} \<and>
    (\<forall>z. (case map_of cnt' z of Some n \<Rightarrow> n | None \<Rightarrow> 0) =
       (case map_of cnt z of Some n \<Rightarrow> n | None \<Rightarrow> 0) + length (filter (\<lambda>rr. mr_zone rr = z) rrs))"
  using assms
proof (induction rrs arbitrary: cnt nulls)
  case (Cons rr rrs)
  let ?n = "case map_of cnt (mr_zone rr) of Some n \<Rightarrow> n | None \<Rightarrow> 0"
  have "null_loop rrs (AList.update (mr_zone rr) (?n + 1) cnt)
      (if is_null_rr rr then List.insert (mr_zone rr) nulls else nulls) = (cnt', nulls')"
    using Cons.prems by (simp add: Let_def)
  from Cons.IH [OF this] show ?case by (auto simp: update_conv')
qed auto

lemma zone_min_Some: "zone_min ps (Some q) = Some (Min (insert q (set ps)))"
proof (induction ps arbitrary: q)
  case (Cons p ps)
  have "zone_min (p # ps) (Some q) = zone_min ps (Some (min p q))" by (simp add: min_def)
  then show ?case by (cases "ps = []") (simp_all add: Cons insert_commute [of q p] min.assoc min.commute)
qed simp

lemma zone_min_spec: "ps \<noteq> [] \<Longrightarrow> zone_min ps None = Some (Min (set ps))"
  by (cases ps) (simp_all add: zone_min_Some)

text \<open>The priorities of a (zone, target), and what the runner keeps of them.\<close>

definition priorities :: "mxRR list \<Rightarrow> string \<Rightarrow> string \<Rightarrow> int set" where
  "priorities rrs z t = {mr_priority rr | rr. rr \<in> set rrs \<and> mr_zone rr = z \<and> mr_target rr = t}"

definition min_ok :: "min_priorities \<Rightarrow> mxRR list \<Rightarrow> bool" where
  "min_ok m rrs \<longleftrightarrow> distinct (map fst m) \<and> fst ` set m = mr_zone ` set rrs \<and>
     (\<forall>z. distinct (map fst (min_of_zone m z)) \<and> (\<forall>t. map_of (min_of_zone m z) t =
        (if priorities rrs z t = {} then None else Some (Min (priorities rrs z t)))))"

lemma finite_priorities [simp]: "finite (priorities rrs z t)"
  by (simp add: priorities_def setcompr_eq_image)

lemma priorities_snoc:
  "priorities (rrs @ [rr]) z t = (if mr_zone rr = z \<and> mr_target rr = t then insert (mr_priority rr) (priorities rrs z t)
     else priorities rrs z t)"
  by (auto simp: priorities_def)

lemma track_min_ok:
  assumes "min_ok m rrs"
  shows "min_ok (track_min rr m) (rrs @ [rr])"
proof -
  let ?z = "mr_zone rr" and ?t = "mr_target rr" and ?p = "mr_priority rr"
  let ?old = "min_of_zone m ?z"
  define new where "new = (case map_of ?old ?t of
      Some existing \<Rightarrow> if ?p < existing then AList.update ?t ?p ?old else ?old
    | None \<Rightarrow> AList.update ?t ?p ?old)"
  have tm: "track_min rr m = AList.update ?z new m" by (simp add: track_min_def new_def Let_def)
  have zone: "min_of_zone (track_min rr m) z = (if z = ?z then new else min_of_zone m z)" for z
    by (simp add: tm min_of_zone_def update_conv')
  have old: "map_of ?old t = (if priorities rrs ?z t = {} then None else Some (Min (priorities rrs ?z t)))" for t
    using assms by (simp add: min_ok_def)
  have d: "distinct (map fst ?old)" using assms by (simp add: min_ok_def)
  have "distinct (map fst new)" using d by (auto simp: new_def distinct_update split: option.split)
  moreover have "map_of new t = (if priorities (rrs @ [rr]) ?z t = {} then None
      else Some (Min (priorities (rrs @ [rr]) ?z t)))" for t
    by (auto simp: new_def old update_conv' priorities_snoc min_def simp del: Min_gr_iff Min_ge_iff split: option.split)
  moreover have "priorities (rrs @ [rr]) z t = priorities rrs z t" if "z \<noteq> ?z" for z t
    using that by (simp add: priorities_snoc)
  ultimately have "distinct (map fst (min_of_zone (track_min rr m) z)) \<and>
      (\<forall>t. map_of (min_of_zone (track_min rr m) z) t = (if priorities (rrs @ [rr]) z t = {} then None
        else Some (Min (priorities (rrs @ [rr]) z t))))" for z
    using assms by (cases "z = ?z") (simp_all add: min_ok_def zone)
  moreover have "distinct (map fst (track_min rr m))" "fst ` set (track_min rr m) = mr_zone ` set (rrs @ [rr])"
    using assms by (simp_all add: min_ok_def tm distinct_update dom_update)
  ultimately show ?thesis unfolding min_ok_def by blast
qed

lemma min_ok_fold: "min_ok m rrs \<Longrightarrow> min_ok (fold track_min rrs' m) (rrs @ rrs')"
  using track_min_ok by (induction rrs' arbitrary: m rrs) fastforce+

section \<open>The MX records of a zone\<close>

text \<open>The (target, preference) pairs the results of one cycle report for a zone, in order.\<close>

definition zone_mx :: "ProbeResult list \<Rightarrow> string \<Rightarrow> (string \<times> int) list" where
  "zone_mx rs z = map (\<lambda>rr. (mr_target rr, mr_priority rr)) (filter (\<lambda>rr. mr_zone rr = z) (List.map_filter rr_of rs))"

definition mx_check_count :: "ProbeResult list \<Rightarrow> string \<Rightarrow> string \<Rightarrow> nat" where
  "mx_check_count rs check z = length (filter (\<lambda>r. Check r = ''mx'' \<and> Zone r = z \<and> map_of (Metrics r) check = Some 1) rs)"

definition mx_ok :: "ProbeResult \<Rightarrow> bool" where
  "mx_ok r \<longleftrightarrow> (Check r = ''mx'' \<longrightarrow> mx_shaped r)"

lemma parse_priority_label: "parse_priority (Sprintf05d (unat (p :: 16 word))) = Some (int (unat p))"
proof -
  have "unat p < 100000" using unsigned_less [of p, where ?'a = nat] by simp
  then show ?thesis by (simp add: parse_priority_def ParseDigits_Sprintf05d)
qed

lemma mx_result_cases:
  assumes "mx_ok r"
  obtains "Check r \<noteq> ''mx''" "rr_of r = None" "mx_result_ops r = []"
  | t p where "r = mx_info (Zone r) t p" "Check r = ''mx''" "mx_validity_ops r = []" "mx_result_ops r = [OpInc MXCount [Zone r]]"
      "rr_of r = Some \<lparr>mr_zone = Zone r, mr_target = t, mr_priority = int (unat p)\<rparr>"
  | "Check r = ''mx''" "rr_of r = None" "mx_result_ops r = mx_validity_ops r"
proof (cases "Check r = ''mx'' \<and> map_of (Metrics r) ''mx_info'' \<noteq> None")
  case True
  then obtain t p where r: "r = mx_info (Zone r) t p" using assms by (auto simp: mx_ok_def mx_shaped_def)
  have m: "Metrics r = [(''mx_info'', 1)]" "Labels r = [(''target'', t), (''priority'', Sprintf05d (unat p))]"
    by (subst r, simp add: mx_info_def)+
  then have v: "mx_validity_ops r = []" by (simp add: mx_validity_ops_def)
  have rr: "rr_of r = Some \<lparr>mr_zone = Zone r, mr_target = t, mr_priority = int (unat p)\<rparr>"
    using True m by (simp add: rr_of_def parse_priority_label target_label_def)
  show ?thesis using True v rr by (intro that(2) [OF r]) (simp_all add: mx_result_ops_def)
next
  case False
  then show ?thesis
    by (cases "Check r = ''mx''") (auto intro: that(1,3) simp: rr_of_def mx_result_ops_def)
qed

section \<open>Which metrics each part touches\<close>

fun op_metric :: "metric_op \<Rightarrow> metric" where
  "op_metric (OpReset m) = m"
| "op_metric (OpSet m ls v) = m"
| "op_metric (OpAdd m ls v) = m"

lemma reads_other: "m \<notin> op_metric ` set ops \<Longrightarrow> reads m ls ops x = x"
proof (rule reads_untouched)
  assume "m \<notin> op_metric ` set ops"
  moreover have "mentions m ls op \<Longrightarrow> op_metric op = m" for op by (cases op) auto
  ultimately show "list_all (\<lambda>op. \<not> mentions m ls op) ops" by (auto simp: list_all_iff)
qed

lemma touched:
  "op_metric ` set (server_ops rs) \<subseteq> {DNSQueries, DNSDuration, DNSTimeouts}"
  "op_metric ` set (classification_ops zones rs) \<subseteq> {NSClassificationCount}"
  "op_metric ` set (mx_zero_ops zones) \<subseteq> {MXCount, MXResolvedCount, MXCNAMECount, MXSyntaxValidCount, NullMX, MXHasNullMXRR}"
  "op_metric ` set (concat (map mx_result_ops rs)) \<subseteq> {MXCount, MXResolvedCount, MXCNAMECount, MXSyntaxValidCount}"
  "op_metric ` set (null_ops order_n rrs) \<subseteq> {NullMX, MXHasNullMXRR}"
  "op_metric ` set (primary_ops o' per) \<subseteq> {MXIsPrimary}"
proof -
  show "op_metric ` set (server_ops rs) \<subseteq> {DNSQueries, DNSDuration, DNSTimeouts}"
    by (auto simp: server_ops_def split: if_splits)
  show "op_metric ` set (classification_ops zones rs) \<subseteq> {NSClassificationCount}"
    by (auto simp: classification_ops_def split: if_splits option.splits)
  show "op_metric ` set (mx_zero_ops zones) \<subseteq> {MXCount, MXResolvedCount, MXCNAMECount, MXSyntaxValidCount, NullMX, MXHasNullMXRR}"
    by (auto simp: mx_zero_ops_def)
  show "op_metric ` set (concat (map mx_result_ops rs)) \<subseteq> {MXCount, MXResolvedCount, MXCNAMECount, MXSyntaxValidCount}"
    by (auto simp: mx_result_ops_def mx_validity_ops_def split: if_splits)
  show "op_metric ` set (null_ops order_n rrs) \<subseteq> {NullMX, MXHasNullMXRR}"
    by (auto simp: null_ops_def split: prod.splits if_splits)
  show "op_metric ` set (primary_ops o' per) \<subseteq> {MXIsPrimary}"
    by (auto simp: primary_ops_def Let_def split: prod.splits if_splits)
qed

lemma reads_parts [simp]:
  "m \<notin> {DNSQueries, DNSDuration, DNSTimeouts} \<Longrightarrow> reads m ls (server_ops rs) x = x"
  "m \<notin> {NSClassificationCount} \<Longrightarrow> reads m ls (classification_ops zones rs) x = x"
  "m \<notin> {MXCount, MXResolvedCount, MXCNAMECount, MXSyntaxValidCount, NullMX, MXHasNullMXRR} \<Longrightarrow>
     reads m ls (mx_zero_ops zones) x = x"
  "m \<notin> {MXCount, MXResolvedCount, MXCNAMECount, MXSyntaxValidCount} \<Longrightarrow>
     reads m ls (concat (map mx_result_ops rs)) x = x"
  "m \<notin> {NullMX, MXHasNullMXRR} \<Longrightarrow> reads m ls (null_ops order_n rrs) x = x"
  "m \<notin> {MXIsPrimary} \<Longrightarrow> reads m ls (primary_ops o' per) x = x"
       apply (erule reads_other [OF contra_subsetD [OF touched(1)]])
      apply (erule reads_other [OF contra_subsetD [OF touched(2)]])
     apply (erule reads_other [OF contra_subsetD [OF touched(3)]])
    apply (erule reads_other [OF contra_subsetD [OF touched(4)]])
   apply (erule reads_other [OF contra_subsetD [OF touched(5)]])
  apply (erule reads_other [OF contra_subsetD [OF touched(6)]])
  done

lemma reads_mx_zero:
  assumes "m \<in> {MXCount, MXResolvedCount, MXCNAMECount, MXSyntaxValidCount, NullMX, MXHasNullMXRR}"
  shows "reads m [z] (mx_zero_ops zones) x = (if z \<in> set zones then Some 0 else x)"
proof -
  have "list_all (\<lambda>op. mentions m [z] op \<longrightarrow> op = OpSet m [z] 0) (mx_zero_ops zones)"
    by (auto simp: mx_zero_ops_def list_all_iff)
  moreover have "list_ex (mentions m [z]) (mx_zero_ops zones) \<longleftrightarrow> z \<in> set zones"
    using assms by (auto simp: mx_zero_ops_def list_ex_iff)
  ultimately show ?thesis using reads_set_or by metis
qed

lemma added_mx_results:
  assumes "list_all mx_ok rs"
  shows "added MXCount [z] (concat (map mx_result_ops rs)) = int (length (zone_mx rs z)) \<and>
    added MXResolvedCount [z] (concat (map mx_result_ops rs)) = int (mx_check_count rs ''mx_resolves'' z) \<and>
    added MXCNAMECount [z] (concat (map mx_result_ops rs)) = int (mx_check_count rs ''mx_is_cname'' z) \<and>
    added MXSyntaxValidCount [z] (concat (map mx_result_ops rs)) = int (mx_check_count rs ''mx_syntax_valid'' z)"
  using assms
proof (induction rs)
  case (Cons r rs)
  have ok: "mx_ok r" and IH: "list_all mx_ok rs" using Cons.prems by simp_all
  have v: "added MXCount [z] (mx_validity_ops r) = 0"
    "added MXResolvedCount [z] (mx_validity_ops r) = (if Zone r = z \<and> map_of (Metrics r) ''mx_resolves'' = Some 1 then 1 else 0)"
    "added MXCNAMECount [z] (mx_validity_ops r) = (if Zone r = z \<and> map_of (Metrics r) ''mx_is_cname'' = Some 1 then 1 else 0)"
    "added MXSyntaxValidCount [z] (mx_validity_ops r) = (if Zone r = z \<and> map_of (Metrics r) ''mx_syntax_valid'' = Some 1 then 1 else 0)"
    by (simp_all add: mx_validity_ops_def)
  note defs = zone_mx_def mx_check_count_def map_filter_simps
  from ok show ?case
  proof (cases rule: mx_result_cases)
    case 1
    with Cons.IH [OF IH] show ?thesis by (simp add: defs)
  next
    case (2 t p)
    have "Metrics r = [(''mx_info'', 1)]" by (subst 2(1), simp add: mx_info_def)
    with 2(2-) Cons.IH [OF IH] show ?thesis by (simp add: defs)
  next
    case 3
    with Cons.IH [OF IH] show ?thesis by (simp add: defs v)
  qed
qed (simp add: zone_mx_def mx_check_count_def map_filter_simps)

lemma mx_results_only_add: "list_all (only_adds m ls) (concat (map mx_result_ops rs))"
  by (auto simp: list_all_iff mx_result_ops_def mx_validity_ops_def split: if_splits)

section \<open>Null MX and primary targets\<close>

text \<open>A range over a map visits every entry once.\<close>

definition orders_ok :: "map_orders \<Rightarrow> bool" where
  "orders_ok o' \<longleftrightarrow> (\<forall>xs. mset (order_null o' xs) = mset xs) \<and> (\<forall>xs. mset (order_zones o' xs) = mset xs) \<and>
     (\<forall>xs. mset (order_targets o' xs) = mset xs)"

lemma orders_set:
  assumes "orders_ok o'"
  shows "set (order_null o' ns) = set ns" "set (order_zones o' zs) = set zs" "set (order_targets o' ts) = set ts"
  using assms by (auto simp: orders_ok_def dest!: spec mset_eq_setD)

lemma zone_mx_set: "set (zone_mx rs z) =
    {(mr_target rr, mr_priority rr) | rr. rr \<in> set (List.map_filter rr_of rs) \<and> mr_zone rr = z}"
  by (auto simp: zone_mx_def image_iff)

lemma reads_null:
  assumes "orders_ok o'"
  shows "reads MXHasNullMXRR [z] (null_ops (order_null o') (List.map_filter rr_of rs)) x =
      (if (''.'', 0) \<in> set (zone_mx rs z) then Some 1 else x)"
    and "reads NullMX [z] (null_ops (order_null o') (List.map_filter rr_of rs)) x =
      (if zone_mx rs z = [(''.'', 0)] then Some 1 else x)"
proof -
  let ?rrs = "List.map_filter rr_of rs"
  obtain cnt nulls where loop: "null_loop ?rrs [] [] = (cnt, nulls)" by fastforce
  let ?ops = "null_ops (order_null o') ?rrs"
  have ops: "?ops = concat (map (\<lambda>zone. OpSet MXHasNullMXRR [zone] 1 #
      (if map_of cnt zone = Some 1 then [OpSet NullMX [zone] 1] else [])) (order_null o' nulls))"
    by (simp add: null_ops_def loop)
  have nulls: "z \<in> set nulls \<longleftrightarrow> (''.'', 0) \<in> set (zone_mx rs z)"
    using null_loop_spec [OF loop] unfolding zone_mx_set is_null_rr_def by force
  have cnt: "(case map_of cnt z of Some n \<Rightarrow> n | None \<Rightarrow> 0) = length (zone_mx rs z)"
    using null_loop_spec [OF loop] by (simp add: zone_mx_def)
  have single: "z \<in> set nulls \<and> map_of cnt z = Some 1 \<longleftrightarrow> zone_mx rs z = [(''.'', 0)]"
    using cnt nulls by (cases "zone_mx rs z") (auto split: option.splits)
  have all: "list_all (\<lambda>op. mentions m [z] op \<longrightarrow> op = OpSet m [z] 1) ?ops" for m
    by (auto simp: ops list_all_iff)
  have "list_ex (mentions MXHasNullMXRR [z]) ?ops \<longleftrightarrow> z \<in> set nulls"
    by (auto simp: ops list_ex_iff orders_set [OF assms])
  then show "reads MXHasNullMXRR [z] ?ops x = (if (''.'', 0) \<in> set (zone_mx rs z) then Some 1 else x)"
    using reads_set_or [OF all, of MXHasNullMXRR x] nulls by simp
  have "list_ex (mentions NullMX [z]) ?ops \<longleftrightarrow> z \<in> set nulls \<and> map_of cnt z = Some 1"
    by (auto simp: ops list_ex_iff orders_set [OF assms])
  then show "reads NullMX [z] ?ops x = (if zone_mx rs z = [(''.'', 0)] then Some 1 else x)"
    using reads_set_or [OF all, of NullMX x] single by simp
qed

text \<open>Whether a target has the lowest preference of the zone; no value for a name that is no target.\<close>

definition is_primary :: "(string \<times> int) list \<Rightarrow> string \<Rightarrow> int option" where
  "is_primary records t =
     (if t \<notin> fst ` set records then None
      else Some (if (t, Min (snd ` set records)) \<in> set records then 1 else 0))"

lemma priorities_records: "priorities (List.map_filter rr_of rs) z t = {p. (t, p) \<in> set (zone_mx rs z)}"
  by (auto simp: priorities_def zone_mx_set)

lemma Min_of_mins:
  fixes R :: "(string \<times> int) set"
  assumes "finite R" and "R \<noteq> {}"
  shows "Min {Min {p. (t, p) \<in> R} | t. t \<in> fst ` R} = Min (snd ` R)"
proof (rule antisym)
  let ?P = "\<lambda>t. {p. (t, p) \<in> R}"
  have fin: "finite (?P t)" for t by (rule finite_subset [of _ "snd ` R"]) (use assms in \<open>force+\<close>)
  have img: "{Min (?P t) | t. t \<in> fst ` R} = (\<lambda>t. Min (?P t)) ` fst ` R" by auto
  have mem: "Min (?P t) \<in> ?P t" if "t \<in> fst ` R" for t
    using fin that by (intro Min_in) auto
  show "Min {Min (?P t) | t. t \<in> fst ` R} \<le> Min (snd ` R)"
  proof (rule Min.boundedI)
    fix q assume "q \<in> snd ` R"
    then obtain t where t: "(t, q) \<in> R" by auto
    then have "Min {Min (?P t) | t. t \<in> fst ` R} \<le> Min (?P t)"
      unfolding img using assms(1) by (intro Min_le) (auto intro: rev_image_eqI)
    also have "\<dots> \<le> q" using fin t by (intro Min_le) auto
    finally show "Min {Min (?P t) | t. t \<in> fst ` R} \<le> q" .
  qed (use assms in auto)
  show "Min (snd ` R) \<le> Min {Min (?P t) | t. t \<in> fst ` R}"
    unfolding img using assms mem by (intro Min_antimono) force+
qed

lemma primary_ops_set:
  assumes "orders_ok o'"
  shows "set (primary_ops o' per) = (\<Union>e \<in> set per. (\<lambda>tp. OpSet MXIsPrimary [fst e, fst tp]
     (if Some (snd tp) = zone_min (map snd (order_targets o' (snd e))) None then 1 else 0)) ` set (snd e))"
proof -
  have "set (case e of (zone, targetMinP) \<Rightarrow> if targetMinP = [] then []
       else (let zoneMin = zone_min (map snd (order_targets o' targetMinP)) None in
         map (\<lambda>(target, p). OpSet MXIsPrimary [zone, target] (if Some p = zoneMin then 1 else 0))
           (order_targets o' targetMinP))) =
    (\<lambda>tp. OpSet MXIsPrimary [fst e, fst tp]
     (if Some (snd tp) = zone_min (map snd (order_targets o' (snd e))) None then 1 else 0)) ` set (snd e)" for e
    by (cases e) (simp add: Let_def case_prod_beta orders_set [OF assms])
  then show ?thesis by (simp only: primary_ops_def set_concat set_map image_image orders_set [OF assms])
qed

lemma reads_primary:
  assumes "orders_ok o'"
  shows "reads MXIsPrimary [z, t] (primary_ops o' (fold track_min (List.map_filter rr_of rs) [])) None =
    is_primary (zone_mx rs z) t"
proof -
  let ?rrs = "List.map_filter rr_of rs" and ?R = "zone_mx rs z"
  define per where "per = fold track_min ?rrs []"
  have ok: "min_ok per ?rrs"
    using min_ok_fold [of "[]" "[]" ?rrs] by (simp add: per_def min_ok_def min_of_zone_def priorities_def)
  define T where "T = min_of_zone per z"
  have T: "distinct (map fst T)" "\<And>t. map_of T t = (if t \<in> fst ` set ?R then Some (Min {p. (t, p) \<in> set ?R}) else None)"
  proof -
    have dom: "t \<in> fst ` set ?R \<longleftrightarrow> {p. (t, p) \<in> set ?R} \<noteq> {}" for t by force
    show "distinct (map fst T)" using ok by (simp add: T_def min_ok_def)
    show "map_of T t = (if t \<in> fst ` set ?R then Some (Min {p. (t, p) \<in> set ?R}) else None)" for t
      using ok unfolding T_def min_ok_def priorities_records dom by simp
  qed
  have entries: "(z, T') \<in> set per \<longleftrightarrow> T' = T \<and> ?R \<noteq> []" for T'
  proof -
    have "z \<in> fst ` set per \<longleftrightarrow> ?R \<noteq> []" using ok by (auto simp: min_ok_def zone_mx_def filter_empty_conv)
    moreover have uniq: "(z, U) \<in> set per \<Longrightarrow> U = T" for U
      using ok by (auto simp: min_ok_def T_def min_of_zone_def)
    moreover have "z \<in> fst ` set per \<longleftrightarrow> (z, T) \<in> set per"
    proof
      assume "z \<in> fst ` set per"
      then obtain U where "(z, U) \<in> set per" by auto
      with uniq show "(z, T) \<in> set per" by metis
    qed (auto intro: rev_image_eqI)
    ultimately show ?thesis by metis
  qed
  have Tset: "(t, p) \<in> set T \<longleftrightarrow> t \<in> fst ` set ?R \<and> p = Min {p. (t, p) \<in> set ?R}" for t p
    using map_of_eq_Some_iff [OF T(1), of t p] T(2) [of t] by (auto split: if_splits)
  define v where "v = (if (t, Min (snd ` set ?R)) \<in> set ?R then 1 else 0 :: int)"
  have v: "(if Some p = zone_min (map snd (order_targets o' T)) None then 1 else 0) = v" if "(t, p) \<in> set T" for p
  proof -
    have fin: "finite {p. (t, p) \<in> set ?R}"
      by (rule finite_subset [of _ "snd ` set ?R"]) (auto intro: rev_image_eqI)
    have R: "?R \<noteq> []" "t \<in> fst ` set ?R" and p: "p = Min {p. (t, p) \<in> set ?R}" using that Tset by auto
    have "snd ` set T = {Min {p. (t, p) \<in> set ?R} | t. t \<in> fst ` set ?R}"
      using Tset by (force simp: image_iff)
    then have m: "Min (snd ` set T) = Min (snd ` set ?R)" using Min_of_mins [of "set ?R"] R by simp
    have "zone_min (map snd (order_targets o' T)) None = Some (Min (snd ` set T))"
      using zone_min_spec [of "map snd (order_targets o' T)"] that orders_set(3) [OF assms, of T] by force
    moreover have "p = Min (snd ` set ?R) \<longleftrightarrow> (t, Min (snd ` set ?R)) \<in> set ?R"
    proof
      assume "p = Min (snd ` set ?R)"
      moreover have "{p. (t, p) \<in> set ?R} \<noteq> {}" using R(2) by auto
      ultimately show "(t, Min (snd ` set ?R)) \<in> set ?R" using Min_in [OF fin] p by auto
    next
      assume t: "(t, Min (snd ` set ?R)) \<in> set ?R"
      show "p = Min (snd ` set ?R)" unfolding p using t fin
        by (intro Min_eqI) (auto intro!: Min_le intro: rev_image_eqI)
    qed
    ultimately show ?thesis by (simp add: m v_def)
  qed
  let ?ops = "primary_ops o' per"
  have mem: "op \<in> set ?ops \<and> mentions MXIsPrimary [z, t] op \<longleftrightarrow>
      (\<exists>p. (t, p) \<in> set T \<and> op = OpSet MXIsPrimary [z, t] v)" for op
  proof -
    have "op \<in> set ?ops \<and> mentions MXIsPrimary [z, t] op \<longleftrightarrow> (\<exists>T' p'. (z, T') \<in> set per \<and> (t, p') \<in> set T' \<and>
        op = OpSet MXIsPrimary [z, t] (if Some p' = zone_min (map snd (order_targets o' T')) None then 1 else 0))"
      unfolding primary_ops_set [OF assms] by force
    also have "\<dots> \<longleftrightarrow> (\<exists>p'. (t, p') \<in> set T \<and>
        op = OpSet MXIsPrimary [z, t] (if Some p' = zone_min (map snd (order_targets o' T)) None then 1 else 0))"
      using entries Tset by fastforce
    also have "\<dots> \<longleftrightarrow> (\<exists>p. (t, p) \<in> set T \<and> op = OpSet MXIsPrimary [z, t] v)"
      using v by blast
    finally show ?thesis .
  qed
  have all: "list_all (\<lambda>op. mentions MXIsPrimary [z, t] op \<longrightarrow> op = OpSet MXIsPrimary [z, t] v) ?ops"
    using mem by (auto simp: list_all_iff)
  have ex: "list_ex (mentions MXIsPrimary [z, t]) ?ops \<longleftrightarrow> t \<in> fst ` set ?R"
    using mem Tset by (auto simp: list_ex_iff)
  show ?thesis using reads_set_or [OF all, of None] ex by (simp add: is_primary_def v_def per_def)
qed

section \<open>What a cycle leaves in the metrics\<close>

lemma aggregate_parts:
  "reads m ls (aggregate_ops o' zones d rs) x =
     reads m ls (mx_ops o' zones rs) (reads m ls (classification_ops zones rs) (reads m ls (server_ops rs)
       (reads m ls [OpSet CycleDuration [] d, OpSet ZonesProbed [] (int (length zones))] x)))"
  by (simp add: aggregate_ops_def)

lemma mx_parts:
  "reads m ls (mx_ops o' zones rs) x =
     reads m ls (primary_ops o' (fold track_min (List.map_filter rr_of rs) []))
       (reads m ls (null_ops (order_null o') (List.map_filter rr_of rs))
         (reads m ls (concat (map mx_result_ops rs)) (reads m ls (mx_zero_ops zones) x)))"
  by (simp add: mx_ops_def mx_collect_eq)

lemma aggregate_mx_counts:
  assumes "list_all mx_ok rs" and "z \<in> set zones"
  shows "reads MXCount [z] (aggregate_ops o' zones d rs) x = Some (int (length (zone_mx rs z)))"
    and "reads MXResolvedCount [z] (aggregate_ops o' zones d rs) x = Some (int (mx_check_count rs ''mx_resolves'' z))"
    and "reads MXCNAMECount [z] (aggregate_ops o' zones d rs) x = Some (int (mx_check_count rs ''mx_is_cname'' z))"
    and "reads MXSyntaxValidCount [z] (aggregate_ops o' zones d rs) x = Some (int (mx_check_count rs ''mx_syntax_valid'' z))"
  using added_mx_results [OF assms(1), of z] assms(2)
  by (simp_all add: aggregate_parts mx_parts reads_mx_zero reads_adds [OF mx_results_only_add])

lemma aggregate_mx_flags:
  assumes "orders_ok o'" and "z \<in> set zones"
  shows "reads MXHasNullMXRR [z] (aggregate_ops o' zones d rs) x = Some (if (''.'', 0) \<in> set (zone_mx rs z) then 1 else 0)"
    and "reads NullMX [z] (aggregate_ops o' zones d rs) x = Some (if zone_mx rs z = [(''.'', 0)] then 1 else 0)"
    and "reads MXIsPrimary [z, t] (aggregate_ops o' zones d rs) None = is_primary (zone_mx rs z) t"
  using assms(2) by (simp_all add: aggregate_parts mx_parts reads_mx_zero reads_null [OF assms(1)] reads_primary [OF assms(1)])

definition class_count :: "ProbeResult list \<Rightarrow> string \<Rightarrow> string \<Rightarrow> nat" where
  "class_count rs z c = length (filter (\<lambda>r. Check r = ''ns_classification'' \<and> Zone r = z \<and>
     map_of (Labels r) ''classification'' = Some c) rs)"

lemma aggregate_classification:
  assumes "z \<in> set zones" and "c \<in> {''parent-only'', ''self-only'', ''both''}"
  shows "reads NSClassificationCount [z, c] (aggregate_ops o' zones d rs) x = Some (int (class_count rs z c))"
proof -
  define zeros where "zeros = concat (map (\<lambda>zone. [OpSet NSClassificationCount [zone, ''parent-only''] 0,
        OpSet NSClassificationCount [zone, ''self-only''] 0, OpSet NSClassificationCount [zone, ''both''] 0]) zones)"
  define incs where "incs = concat (map (\<lambda>res. if Check res \<noteq> ''ns_classification'' then []
       else (case map_of (Labels res) ''classification'' of
          None \<Rightarrow> [] | Some classification \<Rightarrow> [OpInc NSClassificationCount [Zone res, classification]])) rs)"
  have "list_all (\<lambda>op. mentions NSClassificationCount [z, c] op \<longrightarrow> op = OpSet NSClassificationCount [z, c] 0) zeros"
    by (auto simp: zeros_def list_all_iff)
  moreover have "list_ex (mentions NSClassificationCount [z, c]) zeros"
    unfolding zeros_def list_ex_iff set_concat set_map using assms by fastforce
  ultimately have zero: "reads NSClassificationCount [z, c] zeros y = Some 0" for y by (rule reads_set)
  have "list_all (only_adds NSClassificationCount [z, c]) incs"
    by (auto simp: incs_def list_all_iff split: if_splits option.splits)
  moreover have "added NSClassificationCount [z, c] incs = int (class_count rs z c)"
    unfolding incs_def added_concat class_count_def length_filter_sum
    by (intro arg_cong [where f = sum_list] map_cong refl) (auto split: option.split)
  ultimately have "reads NSClassificationCount [z, c] (classification_ops zones rs) y = Some (int (class_count rs z c))" for y
    using zero by (simp add: classification_ops_def zeros_def [symmetric] incs_def [symmetric] reads_adds)
  then show ?thesis by (simp add: aggregate_parts mx_parts)
qed

text \<open>A zone no result and no configuration entry names is not touched.\<close>

abbreviation zone_metrics :: "metric set" where
  "zone_metrics \<equiv> {NSClassificationCount, MXCount, MXResolvedCount, MXCNAMECount, MXSyntaxValidCount, NullMX,
     MXHasNullMXRR, MXIsPrimary}"

lemma aggregate_other_zone:
  assumes "orders_ok o'" and "z \<notin> set zones" and "\<forall>r \<in> set rs. Zone r \<noteq> z" and "m \<in> zone_metrics"
  shows "reads m (z # ls) (aggregate_ops o' zones d rs) x = x"
proof -
  have skip: "reads m (z # ls) ops y = y" if "\<And>op. op \<in> set ops \<Longrightarrow> \<not> mentions m (z # ls) op" for ops y
    using that by (intro reads_untouched) (simp add: list_all_iff)
  have rr: "mr_zone rr \<noteq> z" if rrs: "rr \<in> set (List.map_filter rr_of rs)" for rr
  proof -
    obtain r where r: "r \<in> set rs" "rr_of r = Some rr" using rrs by (force simp: map_filter_def)
    then have "mr_zone rr = Zone r" by (auto simp: rr_of_def bind_eq_Some_conv split: if_splits)
    with assms(3) r(1) show ?thesis by simp
  qed
  have server: "\<not> mentions m (z # ls) op" if "op \<in> set (server_ops rs)" for op
    using that assms(4) by (auto simp: server_ops_def split: if_splits)
  have cls: "\<not> mentions m (z # ls) op" if "op \<in> set (classification_ops zones rs)" for op
    using that assms(2,3) by (auto simp: classification_ops_def split: if_splits option.splits)
  have zero: "\<not> mentions m (z # ls) op" if "op \<in> set (mx_zero_ops zones)" for op
    using that assms(2) by (auto simp: mx_zero_ops_def)
  have res: "\<not> mentions m (z # ls) op" if "op \<in> set (concat (map mx_result_ops rs))" for op
    using that assms(3) by (auto simp: mx_result_ops_def mx_validity_ops_def split: if_splits)
  obtain cnt nulls where loop: "null_loop (List.map_filter rr_of rs) [] [] = (cnt, nulls)" by fastforce
  then have "z \<notin> set nulls" using null_loop_spec rr by fastforce
  then have null: "\<not> mentions m (z # ls) op" if "op \<in> set (null_ops (order_null o') (List.map_filter rr_of rs))" for op
    using that by (auto simp: null_ops_def loop orders_set [OF assms(1)] split: if_splits)
  have "min_ok (fold track_min (List.map_filter rr_of rs) []) (List.map_filter rr_of rs)"
    using min_ok_fold [of "[]" "[]" "List.map_filter rr_of rs"] by (simp add: min_ok_def min_of_zone_def priorities_def)
  then have "z \<notin> fst ` set (fold track_min (List.map_filter rr_of rs) [])" using rr by (auto simp: min_ok_def)
  then have noz: "(z, b) \<notin> set (fold track_min (List.map_filter rr_of rs) [])" for b by (metis fst_conv imageI)
  have prim: "\<not> mentions m (z # ls) op"
    if "op \<in> set (primary_ops o' (fold track_min (List.map_filter rr_of rs) []))" for op
    using that noz unfolding primary_ops_set [OF assms(1)] by auto
  have "reads m (z # ls) [OpSet CycleDuration [] d, OpSet ZonesProbed [] (int (length zones))] x = x"
    using assms(4) by auto
  then show ?thesis
    unfolding aggregate_parts mx_parts
    by (simp only: skip [OF server] skip [OF cls] skip [OF zero] skip [OF res] skip [OF null] skip [OF prim])
qed

section \<open>Counters per server\<close>

lemma reads_adds_or:
  assumes "list_all (only_adds m ls) ops"
  shows "reads m ls ops x = (if list_ex (mentions m ls) ops then Some ((case x of Some y \<Rightarrow> y | None \<Rightarrow> 0) + added m ls ops) else x)"
  using assms
proof (induction ops arbitrary: x)
  case (Cons op ops)
  show ?case
  proof (cases "mentions m ls op")
    case True
    then obtain v where "op = OpAdd m ls v" using Cons.prems by (cases op) auto
    with Cons.prems show ?thesis by (simp add: reads_adds)
  next
    case False
    then have "step_series m ls op x = x" "added_by m ls op = 0" by (cases op; auto)+
    with Cons False show ?thesis by simp
  qed
qed simp

definition server_results :: "ProbeResult list \<Rightarrow> string \<Rightarrow> ProbeResult list" where
  "server_results rs ip = filter (\<lambda>r. IP r = ip) rs"

lemma server_reads:
  assumes "ip \<noteq> []"
  shows "reads DNSQueries [ip] (aggregate_ops o' zones d rs) x =
      (if server_results rs ip = [] then x
       else Some ((case x of Some y \<Rightarrow> y | None \<Rightarrow> 0) + int (length (server_results rs ip))))"
    and "reads DNSDuration [ip] (aggregate_ops o' zones d rs) x =
      (if server_results rs ip = [] then x
       else Some ((case x of Some y \<Rightarrow> y | None \<Rightarrow> 0) + sum_list (map Duration (server_results rs ip))))"
    and "reads DNSTimeouts [ip] (aggregate_ops o' zones d rs) x =
      (if filter TimedOut (server_results rs ip) = [] then x
       else Some ((case x of Some y \<Rightarrow> y | None \<Rightarrow> 0) + int (length (filter TimedOut (server_results rs ip)))))"
proof -
  have adds: "list_all (only_adds m [ip]) (server_ops rs)" for m
    by (auto simp: server_ops_def list_all_iff split: if_splits)
  have ex: "list_ex (mentions DNSQueries [ip]) (server_ops rs) \<longleftrightarrow> server_results rs ip \<noteq> []"
    "list_ex (mentions DNSDuration [ip]) (server_ops rs) \<longleftrightarrow> server_results rs ip \<noteq> []"
    "list_ex (mentions DNSTimeouts [ip]) (server_ops rs) \<longleftrightarrow> filter TimedOut (server_results rs ip) \<noteq> []"
    using assms by (induction rs) (auto simp: server_ops_def server_results_def)
  have sums: "added DNSQueries [ip] (server_ops rs) = int (length (server_results rs ip))"
    "added DNSDuration [ip] (server_ops rs) = sum_list (map Duration (server_results rs ip))"
    "added DNSTimeouts [ip] (server_ops rs) = int (length (filter TimedOut (server_results rs ip)))"
    using assms by (induction rs) (auto simp: server_ops_def server_results_def)
  show "reads DNSQueries [ip] (aggregate_ops o' zones d rs) x =
      (if server_results rs ip = [] then x
       else Some ((case x of Some y \<Rightarrow> y | None \<Rightarrow> 0) + int (length (server_results rs ip))))"
    by (simp add: aggregate_parts mx_parts reads_adds_or [OF adds] ex sums)
  show "reads DNSDuration [ip] (aggregate_ops o' zones d rs) x =
      (if server_results rs ip = [] then x
       else Some ((case x of Some y \<Rightarrow> y | None \<Rightarrow> 0) + sum_list (map Duration (server_results rs ip))))"
    by (simp add: aggregate_parts mx_parts reads_adds_or [OF adds] ex sums)
  show "reads DNSTimeouts [ip] (aggregate_ops o' zones d rs) x =
      (if filter TimedOut (server_results rs ip) = [] then x
       else Some ((case x of Some y \<Rightarrow> y | None \<Rightarrow> 0) + int (length (filter TimedOut (server_results rs ip)))))"
    by (simp add: aggregate_parts mx_parts reads_adds_or [OF adds] ex sums)
qed

end
