(* ===== verification/Config.thy ===== *)
theory Config
  imports Dns_Model "HOL-Library.AList"
begin

text \<open>
  The configuration, \<^verbatim>\<open>config/config.go\<close>. The file system and the YAML decoder are not this
  program's code: \<open>Load\<close> takes what reading the file gave and the decoder as parameters.
  Durations are nanoseconds. The map of address overrides is the list of its entries in the
  order a range over it visits them; a Go map cannot hold a key twice.
\<close>

section \<open>The configuration\<close>

record config =
  cfg_Zones :: "string list"
  cfg_ProbeInterval :: int
  cfg_DelegationCacheTTL :: int
  cfg_QueryTimeout :: int
  cfg_ZoneDeadline :: int
  cfg_AddressOverrides :: "(string \<times> string) list"
  cfg_RootServers :: "string list"

definition time_Second :: int where
  "time_Second = 1000000000"

text \<open>A nil map and an empty one look up alike.\<close>

definition cfg_ResolveAddress :: "config \<Rightarrow> string \<Rightarrow> string" where
  "cfg_ResolveAddress c ip =
     (let key = (case ParseIP ip of Some parsed \<Rightarrow> IP_String parsed | None \<Rightarrow> ip) in
      case map_of (cfg_AddressOverrides c) key of
        Some override \<Rightarrow> override
      | None \<Rightarrow> JoinHostPort ip ''53'')"

fun canonicalise_loop ::
  "(string \<times> string) list \<Rightarrow> (string \<times> string) list \<Rightarrow> goerror + (string \<times> string) list" where
  "canonicalise_loop [] canonical = Inr canonical"
| "canonicalise_loop ((k, v) # kvs) canonical =
     (case ParseIP k of
        None \<Rightarrow> Inl (PlainError (''config: address_overrides key '' @ Quote k @ '' is not a valid IP address''))
      | Some parsed \<Rightarrow>
          (let key = IP_String parsed in
           case map_of canonical key of
             Some existing \<Rightarrow>
               if existing \<noteq> v
               then Inl (PlainError (''config: address_overrides key '' @ Quote k @
                      '' collides with another entry after canonicalisation (both canonicalise to '' @
                      Quote key @ '' with different values)''))
               else canonicalise_loop kvs (AList.update key v canonical)
           | None \<Rightarrow> canonicalise_loop kvs (AList.update key v canonical)))"

definition canonicaliseOverrideKeys :: "config \<Rightarrow> goerror + config" where
  "canonicaliseOverrideKeys c =
     (if cfg_AddressOverrides c = [] then Inr c
      else map_sum id (\<lambda>canonical. c\<lparr>cfg_AddressOverrides := canonical\<rparr>)
             (canonicalise_loop (cfg_AddressOverrides c) []))"

definition default_duration :: "int \<Rightarrow> int \<Rightarrow> int" where
  "default_duration d x = (if x = 0 then d else x)"

definition applyDefaults :: "config \<Rightarrow> config" where
  "applyDefaults c = c\<lparr>
     cfg_ProbeInterval := default_duration (60 * time_Second) (cfg_ProbeInterval c),
     cfg_DelegationCacheTTL := default_duration (30 * (60 * time_Second)) (cfg_DelegationCacheTTL c),
     cfg_QueryTimeout := default_duration (5 * time_Second) (cfg_QueryTimeout c),
     cfg_ZoneDeadline := default_duration (30 * time_Second) (cfg_ZoneDeadline c)\<rparr>"

text \<open>The loop of \<open>validate\<close> from index \<open>i\<close>: the error of the first bad zone, or the zones trimmed.\<close>

fun validate_zones :: "nat \<Rightarrow> string list \<Rightarrow> goerror + string list" where
  "validate_zones i [] = Inr []"
| "validate_zones i (zone # zones) =
     (let z = TrimSpace zone in
      if z = [] then Inl (PlainError (''config: zone at index '' @ Itoa i @ '' is empty''))
      else if \<not> Contains z ''.''
      then Inl (PlainError (''config: zone '' @ Quote z @ '' does not look like a valid domain name''))
      else map_sum id (\<lambda>zs. z # zs) (validate_zones (Suc i) zones))"

definition validate :: "config \<Rightarrow> goerror + config" where
  "validate c =
     (if cfg_Zones c = [] then Inl (PlainError ''config: zones list is empty, at least one zone is required'')
      else map_sum id (\<lambda>zs. c\<lparr>cfg_Zones := zs\<rparr>) (validate_zones 0 (cfg_Zones c)))"

definition Load :: "goerror + 'bytes \<Rightarrow> ('bytes \<Rightarrow> goerror + config) \<Rightarrow> goerror + config" where
  "Load file unmarshal =
     (case file of
        Inl err \<Rightarrow> Inl (Wrapped ''reading config file'' err)
      | Inr data \<Rightarrow>
          (case unmarshal data of
             Inl err \<Rightarrow> Inl (Wrapped ''parsing config file'' err)
           | Inr cfg \<Rightarrow>
               (case canonicaliseOverrideKeys (applyDefaults cfg) of
                  Inl err \<Rightarrow> Inl err
                | Inr cfg' \<Rightarrow> validate cfg')))"

section \<open>Canonical keys\<close>

definition canonical_key :: "string \<Rightarrow> string option" where
  "canonical_key k = map_option IP_String (ParseIP k)"

text \<open>
  The entries make sense together: every key is an address, and no two keys for the same
  address have different values. This does not depend on the order of the entries.
\<close>

definition overrides_consistent :: "(string \<times> string) set \<Rightarrow> bool" where
  "overrides_consistent es \<longleftrightarrow> (\<forall>k v. (k, v) \<in> es \<longrightarrow> canonical_key k \<noteq> None) \<and>
     (\<forall>k v k' v'. (k, v) \<in> es \<longrightarrow> (k', v') \<in> es \<longrightarrow> canonical_key k = canonical_key k' \<longrightarrow> v = v')"

text \<open>What each canonical key stands for.\<close>

definition override_for :: "(string \<times> string) set \<Rightarrow> string \<Rightarrow> string \<Rightarrow> bool" where
  "override_for es key v \<longleftrightarrow> (\<exists>k. (k, v) \<in> es \<and> canonical_key k = Some key)"

definition represents :: "(string \<times> string) list \<Rightarrow> (string \<times> string) set \<Rightarrow> bool" where
  "represents canonical es \<longleftrightarrow> (\<forall>key v. map_of canonical key = Some v \<longleftrightarrow> override_for es key v)"

lemma represents_consistent:
  assumes "represents canonical es" and "(k, v) \<in> es" "(k', v') \<in> es"
    and "canonical_key k = Some key" "canonical_key k' = Some key"
  shows "v = v'"
proof -
  have "map_of canonical key = Some v" "map_of canonical key = Some v'"
    using assms by (auto simp: represents_def override_for_def)
  then show ?thesis by simp
qed

lemma canonicalise_loop_spec:
  assumes "represents canonical es" and "overrides_consistent es"
  shows "case canonicalise_loop kvs canonical of
     Inl _ \<Rightarrow> \<not> overrides_consistent (es \<union> set kvs)
   | Inr canonical' \<Rightarrow> overrides_consistent (es \<union> set kvs) \<and> represents canonical' (es \<union> set kvs)"
  using assms
proof (induction kvs canonical arbitrary: es rule: canonicalise_loop.induct)
  case (2 k v kvs canonical)
  have all: "es \<union> set ((k, v) # kvs) = insert (k, v) es \<union> set kvs" by auto
  show ?case
  proof (cases "ParseIP k")
    case None
    then have "\<not> overrides_consistent (insert (k, v) es \<union> set kvs)"
      unfolding overrides_consistent_def canonical_key_def by auto
    with None show ?thesis unfolding all by simp
  next
    case (Some parsed)
    let ?key = "IP_String parsed"
    have key: "canonical_key k = Some ?key" using Some by (simp add: canonical_key_def)
    show ?thesis
    proof (cases "\<exists>existing. map_of canonical ?key = Some existing \<and> existing \<noteq> v")
      case True
      then obtain k' v' where "(k', v') \<in> es" "canonical_key k' = Some ?key" "v' \<noteq> v"
        using "2.prems"(1) by (auto simp: represents_def override_for_def)
      then have "\<not> overrides_consistent (insert (k, v) es \<union> set kvs)"
        using key unfolding overrides_consistent_def by (metis UnCI insertCI)
      then show ?thesis using Some True unfolding all by (auto simp: Let_def)
    next
      case False
      have step: "canonicalise_loop ((k, v) # kvs) canonical = canonicalise_loop kvs (AList.update ?key v canonical)"
        using Some False by (auto simp: Let_def split: option.splits)
      have same: "v' = v" if "(k', v') \<in> es" "canonical_key k' = Some ?key" for k' v'
        using False "2.prems"(1) that by (auto simp: represents_def override_for_def)
      have rep: "represents (AList.update ?key v canonical) (insert (k, v) es)"
        using "2.prems"(1) key same unfolding represents_def override_for_def update_conv'
        by (auto; metis)
      have con: "overrides_consistent (insert (k, v) es)"
        using "2.prems"(2) key same unfolding overrides_consistent_def by (auto; metis)
      have IH: "case canonicalise_loop kvs (AList.update ?key v canonical) of
           Inl _ \<Rightarrow> \<not> overrides_consistent (insert (k, v) es \<union> set kvs)
         | Inr c' \<Rightarrow> overrides_consistent (insert (k, v) es \<union> set kvs) \<and> represents c' (insert (k, v) es \<union> set kvs)"
      proof (cases "map_of canonical ?key")
        case None
        show ?thesis by (rule "2.IH"(1) [OF Some refl None rep con])
      next
        case (Some existing)
        with False have "\<not> existing \<noteq> v" by simp
        show ?thesis by (rule "2.IH"(2) [OF \<open>ParseIP k = Some parsed\<close> refl Some \<open>\<not> existing \<noteq> v\<close> rep con])
      qed
      show ?thesis unfolding step all by (rule IH)
    qed
  qed
qed simp

lemma canonicalise_entries:
  "case canonicalise_loop es [] of
     Inl _ \<Rightarrow> \<not> overrides_consistent (set es)
   | Inr canonical \<Rightarrow> overrides_consistent (set es) \<and> represents canonical (set es)"
proof -
  have "represents [] {}" "overrides_consistent {}"
    by (simp_all add: represents_def override_for_def overrides_consistent_def)
  from canonicalise_loop_spec [OF this, of es] show ?thesis by (simp only: Un_empty_left)
qed

lemma canonicaliseOverrideKeys_cases:
  "case canonicaliseOverrideKeys c of
     Inl _ \<Rightarrow> \<not> overrides_consistent (set (cfg_AddressOverrides c))
   | Inr c' \<Rightarrow> overrides_consistent (set (cfg_AddressOverrides c)) \<and>
       c' = c\<lparr>cfg_AddressOverrides := cfg_AddressOverrides c'\<rparr> \<and>
       represents (cfg_AddressOverrides c') (set (cfg_AddressOverrides c))"
proof (cases "cfg_AddressOverrides c = []")
  case True
  then show ?thesis
    by (simp add: canonicaliseOverrideKeys_def overrides_consistent_def represents_def override_for_def)
next
  case False
  then show ?thesis
    using canonicalise_entries [of "cfg_AddressOverrides c"]
    by (auto simp: canonicaliseOverrideKeys_def split: sum.splits)
qed

lemma canonicalise_lookup:
  assumes "canonicaliseOverrideKeys c = Inr c'" and "(k, v) \<in> set (cfg_AddressOverrides c)"
    and "ParseIP k = Some p" and "ParseIP ip = Some q" and "IP_String p = IP_String q"
  shows "cfg_ResolveAddress c' ip = v"
proof -
  have "represents (cfg_AddressOverrides c') (set (cfg_AddressOverrides c))"
    using canonicaliseOverrideKeys_cases [of c] assms(1) by simp
  then have "map_of (cfg_AddressOverrides c') (IP_String q) = Some v"
    using assms(2,3,5) unfolding represents_def override_for_def canonical_key_def by auto
  with assms(4) show ?thesis by (simp add: cfg_ResolveAddress_def)
qed

section \<open>Validation\<close>

definition good_zone :: "string \<Rightarrow> bool" where
  "good_zone z \<longleftrightarrow> z \<noteq> [] \<and> Contains z ''.'' \<and> TrimSpace z = z"

lemma TrimSpace_idem [simp]: "TrimSpace (TrimSpace s) = TrimSpace s"
proof -
  let ?t = "dropWhile is_space s"
  have "dropWhile is_space (TrimSpace s) = TrimSpace s"
  proof (cases "TrimSpace s")
    case (Cons c cs)
    obtain sp where sp: "?t = TrimSpace s @ sp" by (rule TrimSpace_tail)
    then have "hd ?t = c" "?t \<noteq> []" using Cons by auto
    then have "\<not> is_space c" using hd_dropWhile [of is_space s] by auto
    with Cons show ?thesis by simp
  qed simp
  moreover have "dropWhile is_space (rev (TrimSpace s)) = rev (TrimSpace s)"
    by (simp add: TrimSpace_def)
  ultimately show ?thesis by (simp add: TrimSpace_def)
qed

lemma good_zone_trimmed: "good_zone (TrimSpace z) \<longleftrightarrow> TrimSpace z \<noteq> [] \<and> Contains (TrimSpace z) ''.''"
  by (simp add: good_zone_def)

lemma validate_zones_spec:
  "case validate_zones i zones of
     Inl _ \<Rightarrow> \<not> list_all good_zone (map TrimSpace zones)
   | Inr zs \<Rightarrow> zs = map TrimSpace zones \<and> list_all good_zone zs"
proof (induction zones arbitrary: i)
  case (Cons zone zones)
  show ?case
  proof (cases "good_zone (TrimSpace zone)")
    case True
    then have "validate_zones i (zone # zones) = map_sum id (\<lambda>zs. TrimSpace zone # zs) (validate_zones (Suc i) zones)"
      by (simp add: good_zone_trimmed Let_def)
    with True Cons [of "Suc i"] show ?thesis by (auto split: sum.splits)
  next
    case False
    then have "\<exists>err. validate_zones i (zone # zones) = Inl err"
      by (auto simp: good_zone_trimmed Let_def)
    with False show ?thesis by auto
  qed
qed simp

lemma validate_spec:
  "case validate c of
     Inl _ \<Rightarrow> cfg_Zones c = [] \<or> \<not> list_all good_zone (map TrimSpace (cfg_Zones c))
   | Inr c' \<Rightarrow> c' = c\<lparr>cfg_Zones := map TrimSpace (cfg_Zones c)\<rparr> \<and> cfg_Zones c \<noteq> [] \<and>
       list_all good_zone (cfg_Zones c')"
  using validate_zones_spec [where i = 0 and zones = "cfg_Zones c"] by (auto simp: validate_def split: sum.splits)

text \<open>When a decoded configuration is accepted.\<close>

definition acceptable :: "config \<Rightarrow> bool" where
  "acceptable c \<longleftrightarrow> overrides_consistent (set (cfg_AddressOverrides c)) \<and> cfg_Zones c \<noteq> [] \<and>
     list_all good_zone (map TrimSpace (cfg_Zones c))"

text \<open>What every loaded configuration satisfies.\<close>

definition usable_config :: "config \<Rightarrow> bool" where
  "usable_config c \<longleftrightarrow> cfg_Zones c \<noteq> [] \<and> list_all good_zone (cfg_Zones c) \<and>
     cfg_ProbeInterval c \<noteq> 0 \<and> cfg_DelegationCacheTTL c \<noteq> 0 \<and> cfg_QueryTimeout c \<noteq> 0 \<and> cfg_ZoneDeadline c \<noteq> 0"

lemma applyDefaults_sel [simp]:
  "cfg_Zones (applyDefaults c) = cfg_Zones c" "cfg_AddressOverrides (applyDefaults c) = cfg_AddressOverrides c"
  "cfg_RootServers (applyDefaults c) = cfg_RootServers c"
  by (simp_all add: applyDefaults_def)

lemma default_duration_nonzero: "d \<noteq> 0 \<Longrightarrow> default_duration d x \<noteq> 0"
  by (simp add: default_duration_def)

lemma applyDefaults_durations:
  "cfg_ProbeInterval (applyDefaults c) \<noteq> 0" "cfg_DelegationCacheTTL (applyDefaults c) \<noteq> 0"
  "cfg_QueryTimeout (applyDefaults c) \<noteq> 0" "cfg_ZoneDeadline (applyDefaults c) \<noteq> 0"
  by (simp_all add: applyDefaults_def default_duration_nonzero time_Second_def)

lemma load_decoded:
  "case Load (Inr data) (\<lambda>_. Inr cfg) of
     Inl _ \<Rightarrow> \<not> acceptable cfg
   | Inr c \<Rightarrow> acceptable cfg \<and> usable_config c \<and> cfg_Zones c = map TrimSpace (cfg_Zones cfg) \<and>
       represents (cfg_AddressOverrides c) (set (cfg_AddressOverrides cfg)) \<and>
       cfg_RootServers c = cfg_RootServers cfg \<and> cfg_ProbeInterval c = default_duration (60 * time_Second) (cfg_ProbeInterval cfg)"
proof (cases "canonicaliseOverrideKeys (applyDefaults cfg)")
  case (Inl err)
  then show ?thesis
    using canonicaliseOverrideKeys_cases [of "applyDefaults cfg"] by (simp add: Load_def acceptable_def)
next
  case (Inr c1)
  have c1: "overrides_consistent (set (cfg_AddressOverrides cfg))"
    "c1 = (applyDefaults cfg)\<lparr>cfg_AddressOverrides := cfg_AddressOverrides c1\<rparr>"
    "represents (cfg_AddressOverrides c1) (set (cfg_AddressOverrides cfg))"
    using canonicaliseOverrideKeys_cases [of "applyDefaults cfg"] Inr by simp_all
  have sel: "cfg_Zones c1 = cfg_Zones cfg" "cfg_RootServers c1 = cfg_RootServers cfg"
    "cfg_ProbeInterval c1 = cfg_ProbeInterval (applyDefaults cfg)"
    "cfg_ProbeInterval c1 \<noteq> 0 \<and> cfg_DelegationCacheTTL c1 \<noteq> 0 \<and> cfg_QueryTimeout c1 \<noteq> 0 \<and> cfg_ZoneDeadline c1 \<noteq> 0"
    by (subst c1(2), simp add: applyDefaults_durations)+
  have load: "Load (Inr data) (\<lambda>_. Inr cfg) = validate c1" using Inr by (simp add: Load_def)
  show ?thesis
  proof (cases "validate c1")
    case Inl
    then show ?thesis using validate_spec [of c1] sel by (auto simp: load acceptable_def)
  next
    case (Inr c)
    then have "c = c1\<lparr>cfg_Zones := map TrimSpace (cfg_Zones c1)\<rparr>" "cfg_Zones c1 \<noteq> []" "list_all good_zone (cfg_Zones c)"
      using validate_spec [of c1] by auto
    then show ?thesis
      using c1 sel Inr by (simp add: load acceptable_def usable_config_def applyDefaults_def)
  qed
qed

lemma load_usable:
  assumes "Load file' unmarshal = Inr c"
  shows "usable_config c"
proof -
  obtain data cfg where "file' = Inr data" "unmarshal data = Inr cfg"
    using assms by (auto simp: Load_def split: sum.splits)
  then have "Load (Inr ()) (\<lambda>_. Inr cfg) = Inr c" using assms by (simp add: Load_def)
  with load_decoded [of cfg "()"] show ?thesis by simp
qed

section \<open>Properties\<close>

text \<open>C23: loading decides acceptability, and errors are passed on. A read or decode error is reported
  wrapped; a decoded configuration loads exactly when it has zones, each of which, trimmed, is non-empty
  and has a dot, and its override keys are addresses without contradicting values, whatever the order a
  range over the map visits them; and the loaded one has trimmed zones, no zero duration, and the
  overrides keyed canonically.\<close>

theorem load_decides:
  "case Load file unmarshal of
     Inl err \<Rightarrow> (case file of
         Inl e \<Rightarrow> err = Wrapped ''reading config file'' e
       | Inr data \<Rightarrow> (case unmarshal data of
           Inl e \<Rightarrow> err = Wrapped ''parsing config file'' e | Inr cfg \<Rightarrow> \<not> acceptable cfg))
   | Inr c \<Rightarrow> (case file of Inl e \<Rightarrow> False | Inr data \<Rightarrow> (case unmarshal data of
         Inl e \<Rightarrow> False
       | Inr cfg \<Rightarrow> acceptable cfg \<and> usable_config c \<and> cfg_Zones c = map TrimSpace (cfg_Zones cfg) \<and>
           represents (cfg_AddressOverrides c) (set (cfg_AddressOverrides cfg)) \<and>
           cfg_RootServers c = cfg_RootServers cfg))"
proof (cases "file")
  case (Inl e)
  then show ?thesis by (simp add: Load_def)
next
  case (Inr data)
  show ?thesis
  proof (cases "unmarshal data")
    case (Inl e)
    then show ?thesis using \<open>file = Inr data\<close> by (simp add: Load_def)
  next
    case cfg: (Inr cfg)
    have "Load file unmarshal = Load (Inr ()) (\<lambda>_. Inr cfg)" using Inr cfg by (simp add: Load_def)
    then show ?thesis using load_decoded [of cfg "()"] Inr cfg by (auto split: sum.splits)
  qed
qed

text \<open>An override is found under any spelling of its address: after the keys are rewritten, the address
  of an entry resolves to the entry's value in every textual form that parses to an address printed alike.\<close>

lemma override_any_spelling:
  assumes "canonicaliseOverrideKeys c = Inr c'" and "(k, v) \<in> set (cfg_AddressOverrides c)"
    and "ParseIP k = Some p" and "ParseIP ip = Some q" and "IP_String p = IP_String q"
  shows "cfg_ResolveAddress c' ip = v"
  by (rule canonicalise_lookup [OF assms])

definition example_config :: config where
  "example_config = \<lparr>cfg_Zones = ['' example.org ''], cfg_ProbeInterval = - time_Second, cfg_DelegationCacheTTL = 0,
     cfg_QueryTimeout = 0, cfg_ZoneDeadline = 0,
     cfg_AddressOverrides = [(''::1'', ''localhost:5301'')], cfg_RootServers = []\<rparr>"

lemma example_parses:
  "ParseIP ''::1'' = Some (replicate 15 0 @ [1])" "ParseIP ''0:0:0:0:0:0:0:1'' = Some (replicate 15 0 @ [1])"
  by code_simp+

lemma override_any_spelling_example:
  "case canonicaliseOverrideKeys example_config of
     Inr c \<Rightarrow> cfg_ResolveAddress c ''0:0:0:0:0:0:0:1'' = ''localhost:5301'' | Inl _ \<Rightarrow> False"
proof -
  have es: "cfg_AddressOverrides example_config = [(''::1'', ''localhost:5301'')]"
    by (simp add: example_config_def)
  then have "overrides_consistent (set (cfg_AddressOverrides example_config))"
    by (simp add: overrides_consistent_def canonical_key_def example_parses)
  then obtain c where c: "canonicaliseOverrideKeys example_config = Inr c"
    using canonicaliseOverrideKeys_cases [of example_config] by (cases "canonicaliseOverrideKeys example_config") auto
  from override_any_spelling [OF c _ example_parses refl] es show ?thesis by (simp add: c)
qed

text \<open>
  Validation does not look at the durations: a negative probe interval is accepted, and the
  probe loop starts a ticker with it.
\<close>

lemma negative_interval_loads:
  "case Load (Inr ()) (\<lambda>_. Inr (example_config\<lparr>cfg_AddressOverrides := []\<rparr>)) of
     Inr c \<Rightarrow> cfg_ProbeInterval c < 0 | Inl _ \<Rightarrow> False"
  by code_simp

end
