(* ===== verification/Delegation_Cache.thy ===== *)
theory Delegation_Cache
  imports Dns_Model "HOL-Library.AList"
begin

text \<open>
  The delegation cache, \<^verbatim>\<open>cache/delegation.go\<close>. Every operation holds the mutex from start to
  end, so an execution is a sequence of operations; \<open>now\<close> is what the clock shows during one.
  The map of entries is an association list.
\<close>

section \<open>The cache\<close>

record 'd DelegationEntry =
  entry_Data :: 'd
  entry_CachedAt :: int

record 'd DelegationCache =
  cache_entries :: "(string \<times> 'd DelegationEntry) list"
  cache_ttl :: int

definition NewDelegationCache :: "int \<Rightarrow> 'd DelegationCache" where
  "NewDelegationCache ttl = \<lparr>cache_entries = [], cache_ttl = ttl\<rparr>"

definition cache_Get :: "'d DelegationCache \<Rightarrow> string \<Rightarrow> int \<Rightarrow> 'd option" where
  "cache_Get c zone now =
     (case map_of (cache_entries c) zone of
        None \<Rightarrow> None
      | Some entry \<Rightarrow> if now - entry_CachedAt entry > cache_ttl c then None else Some (entry_Data entry))"

definition cache_Set :: "'d DelegationCache \<Rightarrow> string \<Rightarrow> 'd \<Rightarrow> int \<Rightarrow> 'd DelegationCache" where
  "cache_Set c zone data now =
     c\<lparr>cache_entries := AList.update zone \<lparr>entry_Data = data, entry_CachedAt = now\<rparr> (cache_entries c)\<rparr>"

definition cache_Invalidate :: "'d DelegationCache \<Rightarrow> 'd DelegationCache" where
  "cache_Invalidate c = c\<lparr>cache_entries := []\<rparr>"

definition cache_Len :: "'d DelegationCache \<Rightarrow> nat" where
  "cache_Len c = length (cache_entries c)"

section \<open>The interface\<close>

text \<open>
  What the cycle runner and the reload rely on: a value set is found for as long as the time
  to live and not longer, by its own zone only, and nothing survives an invalidation.
\<close>

locale ttl_cache =
  fixes get :: "'c \<Rightarrow> string \<Rightarrow> int \<Rightarrow> 'd option"
    and set_entry :: "'c \<Rightarrow> string \<Rightarrow> 'd \<Rightarrow> int \<Rightarrow> 'c"
    and invalidate :: "'c \<Rightarrow> 'c"
    and ttl :: "'c \<Rightarrow> int"
  assumes get_set: "get (set_entry c z d t) z' now =
      (if z' = z then (if now - t > ttl c then None else Some d) else get c z' now)"
    and get_invalidate: "get (invalidate c) z now = None"
    and ttl_set: "ttl (set_entry c z d t) = ttl c"
    and ttl_invalidate: "ttl (invalidate c) = ttl c"
begin

lemma miss_after_invalidate: "get (invalidate c) z now = None"
  by (rule get_invalidate)

lemma fresh_hit: "now - t \<le> ttl c \<Longrightarrow> get (set_entry c z d t) z now = Some d"
  by (simp add: get_set)

end

text \<open>A sequence of updates, oldest first, and what it stores for a zone last.\<close>

datatype 'd cache_op = CacheSet string 'd int | CacheInvalidate

fun last_stored :: "'d cache_op list \<Rightarrow> string \<Rightarrow> ('d \<times> int) option \<Rightarrow> ('d \<times> int) option" where
  "last_stored [] z r = r"
| "last_stored (CacheSet z' d t # ops) z r = last_stored ops z (if z' = z then Some (d, t) else r)"
| "last_stored (CacheInvalidate # ops) z r = last_stored ops z None"

context ttl_cache
begin

fun run_ops :: "'d cache_op list \<Rightarrow> 'c \<Rightarrow> 'c" where
  "run_ops [] c = c"
| "run_ops (CacheSet z d t # ops) c = run_ops ops (set_entry c z d t)"
| "run_ops (CacheInvalidate # ops) c = run_ops ops (invalidate c)"

definition alive :: "int \<Rightarrow> int \<Rightarrow> ('d \<times> int) option \<Rightarrow> 'd option" where
  "alive life now r = (case r of Some (d, t) \<Rightarrow> if now - t > life then None else Some d | None \<Rightarrow> None)"

lemma run_ops_get:
  assumes "get c z now = alive (ttl c) now r"
  shows "get (run_ops ops c) z now = alive (ttl c) now (last_stored ops z r)"
  using assms
proof (induction ops arbitrary: c r)
  case (Cons op ops)
  show ?case
  proof (cases op)
    case (CacheSet z' d t)
    have "get (set_entry c z' d t) z now =
        alive (ttl (set_entry c z' d t)) now (if z' = z then Some (d, t) else r)"
      using Cons.prems by (auto simp: get_set ttl_set alive_def)
    from Cons.IH [OF this] show ?thesis by (simp add: CacheSet ttl_set)
  next
    case CacheInvalidate
    have "get (invalidate c) z now = alive (ttl (invalidate c)) now None"
      by (simp add: get_invalidate alive_def)
    from Cons.IH [OF this] show ?thesis by (simp add: CacheInvalidate ttl_invalidate)
  qed
qed simp

end

interpretation dcache: ttl_cache cache_Get cache_Set cache_Invalidate cache_ttl
  by unfold_locales (auto simp: cache_Get_def cache_Set_def cache_Invalidate_def update_conv'
      split: option.splits)

section \<open>The number of entries\<close>

definition cache_ok :: "'d DelegationCache \<Rightarrow> bool" where
  "cache_ok c \<longleftrightarrow> distinct (map fst (cache_entries c))"

lemma cache_ok_ops [simp, intro]:
  "cache_ok (NewDelegationCache ttl)" "cache_ok c \<Longrightarrow> cache_ok (cache_Set c z d t)" "cache_ok (cache_Invalidate c)"
  by (simp_all add: cache_ok_def NewDelegationCache_def cache_Set_def cache_Invalidate_def distinct_update)

definition cache_run :: "'d cache_op list \<Rightarrow> 'd DelegationCache \<Rightarrow> 'd DelegationCache" where
  "cache_run ops c = fold (\<lambda>op c. case op of CacheSet z d t \<Rightarrow> cache_Set c z d t | CacheInvalidate \<Rightarrow> cache_Invalidate c) ops c"

lemma cache_run_ops: "cache_run ops c = dcache.run_ops ops c"
proof (induction ops arbitrary: c)
  case (Cons op ops)
  then show ?case by (cases op) (simp_all add: cache_run_def)
qed (simp add: cache_run_def)

lemma cache_run_ok: "cache_ok c \<Longrightarrow> cache_ok (cache_run ops c)"
proof (induction ops arbitrary: c)
  case (Cons op ops)
  then show ?case by (cases op) (simp_all add: cache_run_def)
qed (simp add: cache_run_def)

lemma cache_run_keys:
  "fst ` set (cache_entries (cache_run ops c)) =
     {z. last_stored ops z (map_option (\<lambda>en. (entry_Data en, entry_CachedAt en)) (map_of (cache_entries c) z)) \<noteq> None}"
proof (induction ops arbitrary: c)
  case Nil
  show ?case by (auto simp: cache_run_def map_of_eq_None_iff)
next
  case (Cons op ops)
  show ?case
  proof (cases op)
    case (CacheSet z d t)
    have "cache_run (op # ops) c = cache_run ops (cache_Set c z d t)" by (simp add: cache_run_def CacheSet)
    with Cons [of "cache_Set c z d t"] show ?thesis
      by (simp add: CacheSet cache_Set_def update_conv' if_distrib [of "map_option f" for f] cong: if_cong)
        (auto simp: eq_commute [of z])
  next
    case CacheInvalidate
    have "cache_run (op # ops) c = cache_run ops (cache_Invalidate c)" by (simp add: cache_run_def CacheInvalidate)
    with Cons [of "cache_Invalidate c"] show ?thesis by (simp add: CacheInvalidate cache_Invalidate_def)
  qed
qed

section \<open>Properties\<close>

text \<open>After any sequence of operations a lookup gives exactly what was stored last for the zone since
  the last invalidation, while it is not older than the time to live, and nothing otherwise.\<close>

lemma cache_get_exact:
  "cache_Get (cache_run ops (NewDelegationCache ttl)) z now =
     (case last_stored ops z None of
        Some (d, t) \<Rightarrow> if now - t > ttl then None else Some d
      | None \<Rightarrow> None)"
proof -
  have "cache_Get (NewDelegationCache ttl) z now = dcache.alive (cache_ttl (NewDelegationCache ttl)) now None"
    by (simp add: cache_Get_def NewDelegationCache_def dcache.alive_def)
  from dcache.run_ops_get [OF this, of ops] show ?thesis
    by (simp add: cache_run_ops dcache.alive_def NewDelegationCache_def)
qed

text \<open>The number of entries is the number of zones stored since the last invalidation; expired ones
  are still counted.\<close>

lemma cache_len_exact:
  "cache_Len (cache_run ops (NewDelegationCache ttl)) = card {z. last_stored ops z None \<noteq> None}"
proof -
  let ?c = "cache_run ops (NewDelegationCache ttl :: 'a DelegationCache)"
  have "distinct (map fst (cache_entries ?c))" using cache_run_ok [OF cache_ok_ops(1)] by (simp add: cache_ok_def)
  then have "cache_Len ?c = card (fst ` set (cache_entries ?c))"
    unfolding cache_Len_def by (metis distinct_card length_map list.set_map)
  also have "fst ` set (cache_entries ?c) = {z. last_stored ops z None \<noteq> None}"
    unfolding cache_run_keys by (simp add: NewDelegationCache_def)
  finally show ?thesis .
qed

end
