(* ===== verification/Cycle.thy ===== *)
theory Cycle
  imports Cycle_Metrics Config Delegation_Cache
begin

text \<open>
  A probe cycle, \<^verbatim>\<open>cycle/runner.go\<close>: one goroutine per configured zone, all sharing the delegation
  cache, the metrics and the result list. A goroutine is a phase, and a step of it goes from one
  access of shared state to the next; a schedule is the sequence of the goroutines that step. Each
  goroutine has its own environment: what the network and the clock show it is some function of its
  own calls. The goroutines are numbered as the zones are; a zone configured twice has two.
\<close>

section \<open>A goroutine\<close>

record zone_env =
  z_env :: penv
  z_order :: "family_map \<Rightarrow> family_map"
  z_probers :: "(string \<times> probe_fn) list"

datatype phase =
  Starting
| Walking history
| Walked DelegationResult history
| Acquired DelegationResult history
| Reported "ProbeResult list"
| Joined
| Panicked

record cycle_state =
  cs_cache :: "DelegationResult DelegationCache"
  cs_ops :: "metric_op list"
  cs_results :: "ProbeResult list"
  cs_phases :: "phase list"

text \<open>The environment with the timeout of the configuration's client.\<close>

definition client_env :: "config \<Rightarrow> zone_env \<Rightarrow> penv" where
  "client_env cfg ze = (z_env ze)\<lparr>client_Timeout := cfg_QueryTimeout cfg\<rparr>"

definition set_phase :: "nat \<Rightarrow> phase \<Rightarrow> cycle_state \<Rightarrow> cycle_state" where
  "set_phase i p s = s\<lparr>cs_phases := (cs_phases s)[i := p]\<rparr>"

definition emit :: "metric_op \<Rightarrow> cycle_state \<Rightarrow> cycle_state" where
  "emit op s = s\<lparr>cs_ops := cs_ops s @ [op]\<rparr>"

text \<open>
  \<open>probeZone\<close> up to each access of shared state: the cache lookup with the counter of hits or
  misses; the delegation walk, whose failure sets the gauge and ends the zone; storing the
  delegation; the gauge and the probers; appending the results under the mutex.
\<close>

definition zone_step :: "config \<Rightarrow> (nat \<Rightarrow> zone_env) \<Rightarrow> nat \<Rightarrow> cycle_state \<Rightarrow> cycle_state" where
  "zone_step cfg ce i s =
     (if i < length (cs_phases s) \<and> i < length (cfg_Zones cfg) then
        let zone = cfg_Zones cfg ! i; e = client_env cfg (ce i) in
        case cs_phases s ! i of
          Starting \<Rightarrow>
            (let (now, h) = timeNow e [] in
             case cache_Get (cs_cache s) zone now of
               Some delegation \<Rightarrow> set_phase i (Acquired delegation h) (emit (OpInc DelegationCacheHits []) s)
             | None \<Rightarrow> set_phase i (Walking h) (emit (OpInc DelegationCacheMisses []) s))
        | Walking h \<Rightarrow>
            (case WalkDelegation e zone h of
               None \<Rightarrow> set_phase i Panicked s
             | Some (Inl err, h1) \<Rightarrow> set_phase i (Reported []) (emit (OpSet ParentDelegation [zone] 0) s)
             | Some (Inr delegation, h1) \<Rightarrow> set_phase i (Walked delegation h1) s)
        | Walked delegation h \<Rightarrow>
            (let (now, h1) = timeNow e h in
             set_phase i (Acquired delegation h1) (s\<lparr>cs_cache := cache_Set (cs_cache s) zone delegation now\<rparr>))
        | Acquired delegation h \<Rightarrow>
            (case probe_delegation e zone (z_order (ce i)) (z_probers (ce i)) delegation h of
               None \<Rightarrow> set_phase i Panicked (emit (OpSet ParentDelegation [zone] 1) s)
             | Some (results, h1) \<Rightarrow> set_phase i (Reported results) (emit (OpSet ParentDelegation [zone] 1) s))
        | Reported results \<Rightarrow> set_phase i Joined (s\<lparr>cs_results := cs_results s @ results\<rparr>)
        | Joined \<Rightarrow> s
        | Panicked \<Rightarrow> s
      else s)"

section \<open>The cycle\<close>

record CycleResult =
  cr_Results :: "ProbeResult list"
  cr_Duration :: int
  cr_ZoneCount :: nat

text \<open>The metrics are reset, then a goroutine is started for every zone.\<close>

definition cycle_start :: "config \<Rightarrow> DelegationResult DelegationCache \<Rightarrow> cycle_state" where
  "cycle_start cfg c = \<lparr>cs_cache = c, cs_ops = reset_ops, cs_results = [],
     cs_phases = replicate (length (cfg_Zones cfg)) Starting\<rparr>"

definition run_schedule :: "config \<Rightarrow> (nat \<Rightarrow> zone_env) \<Rightarrow> nat list \<Rightarrow> cycle_state \<Rightarrow> cycle_state" where
  "run_schedule cfg ce sched s = fold (zone_step cfg ce) sched s"

definition all_joined :: "cycle_state \<Rightarrow> bool" where
  "all_joined s \<longleftrightarrow> list_all (\<lambda>p. p = Joined) (cs_phases s)"

text \<open>After the last goroutine has joined: the result, and the aggregation over all results.\<close>

definition cycle_finish :: "config \<Rightarrow> map_orders \<Rightarrow> int \<Rightarrow> cycle_state \<Rightarrow> CycleResult \<times> cycle_state" where
  "cycle_finish cfg o' duration s =
     (\<lparr>cr_Results = cs_results s, cr_Duration = duration, cr_ZoneCount = length (cfg_Zones cfg)\<rparr>,
      s\<lparr>cs_ops := cs_ops s @ aggregate_ops o' (cfg_Zones cfg) duration (cs_results s)\<rparr>)"

text \<open>\<open>Run\<close> returns once all goroutines have joined; \<open>None\<close> while the schedule has not got there.\<close>

definition Run ::
  "config \<Rightarrow> (nat \<Rightarrow> zone_env) \<Rightarrow> map_orders \<Rightarrow> int \<Rightarrow> nat list \<Rightarrow> DelegationResult DelegationCache \<Rightarrow>
   (CycleResult \<times> cycle_state) option" where
  "Run cfg ce o' duration sched c =
     (let s = run_schedule cfg ce sched (cycle_start cfg c) in
      if all_joined s then Some (cycle_finish cfg o' duration s) else None)"

section \<open>One goroutine alone\<close>

text \<open>What goroutine \<open>i\<close> reports when its lookup of the cache gives \<open>cached\<close>: all it takes from others.\<close>

definition zone_outcome :: "config \<Rightarrow> (nat \<Rightarrow> zone_env) \<Rightarrow> nat \<Rightarrow> DelegationResult option \<Rightarrow> ProbeResult list option" where
  "zone_outcome cfg ce i cached =
     (let zone = cfg_Zones cfg ! i; e = client_env cfg (ce i); (now, h) = timeNow e [];
          probe = (\<lambda>dlg h. map_option fst (probe_delegation e zone (z_order (ce i)) (z_probers (ce i)) dlg h)) in
      case cached of
        Some dlg \<Rightarrow> probe dlg h
      | None \<Rightarrow>
          (case WalkDelegation e zone h of
             None \<Rightarrow> None
           | Some (Inl err, h1) \<Rightarrow> Some []
           | Some (Inr dlg, h1) \<Rightarrow> probe dlg (snd (timeNow e h1))))"

text \<open>The steps a phase still has to make, at most.\<close>

fun steps_left :: "phase \<Rightarrow> nat" where
  "steps_left Starting = 5"
| "steps_left (Walking _) = 4"
| "steps_left (Walked _ _) = 3"
| "steps_left (Acquired _ _) = 2"
| "steps_left (Reported _) = 1"
| "steps_left Joined = 0"
| "steps_left Panicked = 0"

definition envs_ok :: "config \<Rightarrow> (nat \<Rightarrow> zone_env) \<Rightarrow> bool" where
  "envs_ok cfg ce \<longleftrightarrow> (\<forall>i < length (cfg_Zones cfg). RootServers (z_env (ce i)) \<noteq> [] \<and> mset (z_probers (ce i)) = mset Probers)"

lemma client_env_roots [simp]: "RootServers (client_env cfg ze) = RootServers (z_env ze)"
  by (simp add: client_env_def)

lemma set_phase_sel [simp]:
  "cs_phases (set_phase i p s) = (cs_phases s)[i := p]" "cs_cache (set_phase i p s) = cs_cache s"
  "cs_ops (set_phase i p s) = cs_ops s" "cs_results (set_phase i p s) = cs_results s"
  by (simp_all add: set_phase_def)

lemma emit_sel [simp]:
  "cs_phases (emit op s) = cs_phases s" "cs_cache (emit op s) = cs_cache s"
  "cs_ops (emit op s) = cs_ops s @ [op]" "cs_results (emit op s) = cs_results s"
  by (simp_all add: emit_def)

section \<open>The steps as a relation\<close>

inductive goroutine_step :: "config \<Rightarrow> (nat \<Rightarrow> zone_env) \<Rightarrow> nat \<Rightarrow> cycle_state \<Rightarrow> cycle_state \<Rightarrow> bool"
  for cfg ce i s where
  hit: "i < length (cs_phases s) \<Longrightarrow> i < length (cfg_Zones cfg) \<Longrightarrow> cs_phases s ! i = Starting \<Longrightarrow>
    timeNow (client_env cfg (ce i)) [] = (now, h) \<Longrightarrow> cache_Get (cs_cache s) (cfg_Zones cfg ! i) now = Some dlg \<Longrightarrow>
    goroutine_step cfg ce i s (set_phase i (Acquired dlg h) (emit (OpInc DelegationCacheHits []) s))"
| miss: "i < length (cs_phases s) \<Longrightarrow> i < length (cfg_Zones cfg) \<Longrightarrow> cs_phases s ! i = Starting \<Longrightarrow>
    timeNow (client_env cfg (ce i)) [] = (now, h) \<Longrightarrow> cache_Get (cs_cache s) (cfg_Zones cfg ! i) now = None \<Longrightarrow>
    goroutine_step cfg ce i s (set_phase i (Walking h) (emit (OpInc DelegationCacheMisses []) s))"
| walk_panics: "i < length (cs_phases s) \<Longrightarrow> i < length (cfg_Zones cfg) \<Longrightarrow> cs_phases s ! i = Walking h \<Longrightarrow>
    WalkDelegation (client_env cfg (ce i)) (cfg_Zones cfg ! i) h = None \<Longrightarrow>
    goroutine_step cfg ce i s (set_phase i Panicked s)"
| walk_fails: "i < length (cs_phases s) \<Longrightarrow> i < length (cfg_Zones cfg) \<Longrightarrow> cs_phases s ! i = Walking h \<Longrightarrow>
    WalkDelegation (client_env cfg (ce i)) (cfg_Zones cfg ! i) h = Some (Inl err, h1) \<Longrightarrow>
    goroutine_step cfg ce i s (set_phase i (Reported []) (emit (OpSet ParentDelegation [cfg_Zones cfg ! i] 0) s))"
| walks: "i < length (cs_phases s) \<Longrightarrow> i < length (cfg_Zones cfg) \<Longrightarrow> cs_phases s ! i = Walking h \<Longrightarrow>
    WalkDelegation (client_env cfg (ce i)) (cfg_Zones cfg ! i) h = Some (Inr dlg, h1) \<Longrightarrow>
    goroutine_step cfg ce i s (set_phase i (Walked dlg h1) s)"
| stores: "i < length (cs_phases s) \<Longrightarrow> i < length (cfg_Zones cfg) \<Longrightarrow> cs_phases s ! i = Walked dlg h \<Longrightarrow>
    timeNow (client_env cfg (ce i)) h = (now, h1) \<Longrightarrow>
    goroutine_step cfg ce i s
      (set_phase i (Acquired dlg h1) (s\<lparr>cs_cache := cache_Set (cs_cache s) (cfg_Zones cfg ! i) dlg now\<rparr>))"
| probe_panics: "i < length (cs_phases s) \<Longrightarrow> i < length (cfg_Zones cfg) \<Longrightarrow> cs_phases s ! i = Acquired dlg h \<Longrightarrow>
    probe_delegation (client_env cfg (ce i)) (cfg_Zones cfg ! i) (z_order (ce i)) (z_probers (ce i)) dlg h = None \<Longrightarrow>
    goroutine_step cfg ce i s (set_phase i Panicked (emit (OpSet ParentDelegation [cfg_Zones cfg ! i] 1) s))"
| probes: "i < length (cs_phases s) \<Longrightarrow> i < length (cfg_Zones cfg) \<Longrightarrow> cs_phases s ! i = Acquired dlg h \<Longrightarrow>
    probe_delegation (client_env cfg (ce i)) (cfg_Zones cfg ! i) (z_order (ce i)) (z_probers (ce i)) dlg h = Some (rs, h1) \<Longrightarrow>
    goroutine_step cfg ce i s (set_phase i (Reported rs) (emit (OpSet ParentDelegation [cfg_Zones cfg ! i] 1) s))"
| joins: "i < length (cs_phases s) \<Longrightarrow> i < length (cfg_Zones cfg) \<Longrightarrow> cs_phases s ! i = Reported rs \<Longrightarrow>
    goroutine_step cfg ce i s (set_phase i Joined (s\<lparr>cs_results := cs_results s @ rs\<rparr>))"

inductive_cases goroutine_stepE: "goroutine_step cfg ce i s s'"

text \<open>The function takes a step of the relation, or stutters where the goroutine has ended.\<close>

definition live :: "config \<Rightarrow> nat \<Rightarrow> cycle_state \<Rightarrow> bool" where
  "live cfg i s \<longleftrightarrow> i < length (cs_phases s) \<and> i < length (cfg_Zones cfg) \<and> steps_left (cs_phases s ! i) > 0"

lemma zone_step_refines:
  "if live cfg i s then goroutine_step cfg ce i s (zone_step cfg ce i s) else zone_step cfg ce i s = s"
proof (cases "i < length (cs_phases s) \<and> i < length (cfg_Zones cfg)")
  case True
  then show ?thesis
    by (cases "cs_phases s ! i")
      (auto simp: zone_step_def Let_def live_def split: prod.split option.split sum.split intro: goroutine_step.intros)
qed (auto simp: zone_step_def live_def)

text \<open>An invariant of the steps is one of every schedule.\<close>

lemma schedule_invariant:
  assumes "\<And>i s s'. I s \<Longrightarrow> goroutine_step cfg ce i s s' \<Longrightarrow> I s'" and "I s"
  shows "I (run_schedule cfg ce sched s)"
  using assms(2)
proof (induction sched arbitrary: s)
  case (Cons i sched)
  have "I (zone_step cfg ce i s)"
    using zone_step_refines [of cfg i s ce] assms(1) Cons.prems by (auto split: if_splits)
  from Cons.IH [OF this] show ?case by (simp add: run_schedule_def)
qed (simp add: run_schedule_def)

section \<open>The shape of a cycle's state\<close>

definition cycle_ops :: "config \<Rightarrow> metric_op set" where
  "cycle_ops cfg = {OpInc DelegationCacheHits [], OpInc DelegationCacheMisses []} \<union>
     {OpSet ParentDelegation [z] v | z v. z \<in> set (cfg_Zones cfg) \<and> v \<in> {0, 1}}"

definition phase_ok :: "string \<Rightarrow> phase \<Rightarrow> bool" where
  "phase_ok zone p \<longleftrightarrow> (case p of Reported rs \<Rightarrow> list_all (result_ok zone) rs | _ \<Rightarrow> True)"

definition results_ok :: "config \<Rightarrow> ProbeResult list \<Rightarrow> bool" where
  "results_ok cfg rs \<longleftrightarrow> list_all (\<lambda>r. result_ok (Zone r) r \<and> Zone r \<in> set (cfg_Zones cfg)) rs"

definition ops_ok :: "config \<Rightarrow> metric_op list \<Rightarrow> bool" where
  "ops_ok cfg ops \<longleftrightarrow> (\<exists>rest. ops = reset_ops @ rest \<and> set rest \<subseteq> cycle_ops cfg)"

definition phases_ok :: "config \<Rightarrow> phase list \<Rightarrow> bool" where
  "phases_ok cfg ps \<longleftrightarrow> length ps = length (cfg_Zones cfg) \<and>
     (\<forall>i. i < length (cfg_Zones cfg) \<longrightarrow> phase_ok (cfg_Zones cfg ! i) (ps ! i))"

definition cycle_inv :: "config \<Rightarrow> cycle_state \<Rightarrow> bool" where
  "cycle_inv cfg s \<longleftrightarrow> phases_ok cfg (cs_phases s) \<and> results_ok cfg (cs_results s) \<and> ops_ok cfg (cs_ops s)"

lemma phase_ok_simps [simp]:
  "phase_ok z Starting" "phase_ok z (Walking h)" "phase_ok z (Walked d h)" "phase_ok z (Acquired d h)"
  "phase_ok z Joined" "phase_ok z Panicked" "phase_ok z (Reported rs) \<longleftrightarrow> list_all (result_ok z) rs"
  by (simp_all add: phase_ok_def)

lemma phases_ok_update: "phases_ok cfg ps \<Longrightarrow> phase_ok (cfg_Zones cfg ! i) p \<Longrightarrow> phases_ok cfg (ps[i := p])"
  unfolding phases_ok_def by (metis length_list_update nth_list_update_eq nth_list_update_neq)

lemma ops_ok_snoc: "ops_ok cfg ops \<Longrightarrow> op \<in> cycle_ops cfg \<Longrightarrow> ops_ok cfg (ops @ [op])"
  unfolding ops_ok_def by force

lemma in_cycle_ops [simp]:
  "OpInc DelegationCacheHits [] \<in> cycle_ops cfg" "OpInc DelegationCacheMisses [] \<in> cycle_ops cfg"
  "i < length (cfg_Zones cfg) \<Longrightarrow> OpSet ParentDelegation [cfg_Zones cfg ! i] 0 \<in> cycle_ops cfg"
  "i < length (cfg_Zones cfg) \<Longrightarrow> OpSet ParentDelegation [cfg_Zones cfg ! i] 1 \<in> cycle_ops cfg"
  by (auto simp: cycle_ops_def)

lemma cycle_inv_start: "cycle_inv cfg (cycle_start cfg c)"
  by (simp add: cycle_inv_def cycle_start_def phases_ok_def results_ok_def ops_ok_def)

lemma cycle_inv_step:
  assumes envs: "envs_ok cfg ce" and inv: "cycle_inv cfg s" and step: "goroutine_step cfg ce i s s'"
  shows "cycle_inv cfg s'"
proof -
  have sub: "i < length (cfg_Zones cfg) \<Longrightarrow> set (z_probers (ce i)) \<subseteq> set Probers"
    using envs by (auto simp: envs_ok_def dest!: mset_eq_setD)
  have P: "phases_ok cfg (cs_phases s)" and R: "results_ok cfg (cs_results s)" and Ops: "ops_ok cfg (cs_ops s)"
    using inv by (simp_all add: cycle_inv_def)
  have parts: "phase_ok (cfg_Zones cfg ! i) (cs_phases s' ! i)" "results_ok cfg (cs_results s')"
      "ops_ok cfg (cs_ops s')" "cs_phases s' = (cs_phases s)[i := cs_phases s' ! i]"
  proof -
    show "phase_ok (cfg_Zones cfg ! i) (cs_phases s' ! i)"
      using step by cases (auto intro: probe_delegation_ok [OF _ sub])
    show "results_ok cfg (cs_results s')"
      using step
    proof cases
      case (joins rs)
      then have "list_all (result_ok (cfg_Zones cfg ! i)) rs" using P by (metis phases_ok_def phase_ok_simps(7))
      then have "results_ok cfg rs" using joins by (auto simp: list_all_iff result_ok_def results_ok_def)
      with joins R show ?thesis by (simp add: results_ok_def)
    qed (use R in auto)
    show "ops_ok cfg (cs_ops s')"
      using step by cases (auto intro: ops_ok_snoc [OF Ops] Ops)
    show "cs_phases s' = (cs_phases s)[i := cs_phases s' ! i]"
      using step by cases auto
  qed
  then show ?thesis unfolding cycle_inv_def using phases_ok_update [OF P] by metis
qed

lemma cycle_inv_run: "envs_ok cfg ce \<Longrightarrow> cycle_inv cfg (run_schedule cfg ce sched (cycle_start cfg c))"
  using schedule_invariant [of "cycle_inv cfg" cfg ce] cycle_inv_step cycle_inv_start by blast

section \<open>Progress\<close>

lemma step_other [simp]: "goroutine_step cfg ce i s s' \<Longrightarrow> j \<noteq> i \<Longrightarrow> cs_phases s' ! j = cs_phases s ! j"
  by (erule goroutine_stepE) auto

lemma step_length [simp]: "goroutine_step cfg ce i s s' \<Longrightarrow> length (cs_phases s') = length (cs_phases s)"
  by (erule goroutine_stepE) auto

lemma step_progress: "goroutine_step cfg ce i s s' \<Longrightarrow> steps_left (cs_phases s' ! i) < steps_left (cs_phases s ! i)"
  by (erule goroutine_stepE) auto

lemma step_no_panic:
  assumes "envs_ok cfg ce" and "goroutine_step cfg ce i s s'"
  shows "cs_phases s' ! i \<noteq> Panicked"
proof -
  have i: "i < length (cfg_Zones cfg)" using assms(2) by (rule goroutine_stepE)
  then have roots: "RootServers (client_env cfg (ce i)) \<noteq> []" and sub: "set (z_probers (ce i)) \<subseteq> set Probers"
    using assms(1) by (auto simp: envs_ok_def dest!: mset_eq_setD)
  from assms(2) show ?thesis
    by (rule goroutine_stepE) (use probe_delegation_runs [OF roots sub] WalkDelegation_None roots in auto)
qed

definition no_panic_yet :: "cycle_state \<Rightarrow> bool" where
  "no_panic_yet s \<longleftrightarrow> list_all (\<lambda>p. p \<noteq> Panicked) (cs_phases s)"

lemma no_panic_step:
  assumes "envs_ok cfg ce" and "no_panic_yet s" and "goroutine_step cfg ce i s s'"
  shows "no_panic_yet s'"
  using assms step_no_panic [OF assms(1,3)] step_other [OF assms(3)] step_length [OF assms(3)]
  unfolding no_panic_yet_def list_all_length by metis

lemma no_panic_run: "envs_ok cfg ce \<Longrightarrow> no_panic_yet (run_schedule cfg ce sched (cycle_start cfg c))"
proof (rule schedule_invariant)
  show "no_panic_yet (cycle_start cfg c)" by (simp add: no_panic_yet_def cycle_start_def list_all_iff)
qed (rule no_panic_step)

lemma run_schedule_length: "length (cs_phases (run_schedule cfg ce sched s)) = length (cs_phases s)"
  using schedule_invariant [of "\<lambda>t. length (cs_phases t) = length (cs_phases s)" cfg ce s sched] step_length by auto

lemma schedule_progress:
  assumes "i < length (cs_phases s)" and "i < length (cfg_Zones cfg)"
  shows "steps_left (cs_phases (run_schedule cfg ce sched s) ! i) \<le> steps_left (cs_phases s ! i) - count_list sched i"
  using assms
proof (induction sched arbitrary: s)
  case (Cons j sched)
  define s' where "s' = zone_step cfg ce j s"
  have len: "i < length (cs_phases s')"
    using zone_step_refines [of cfg j s ce] Cons.prems by (auto simp: s'_def split: if_splits)
  have "steps_left (cs_phases s' ! i) \<le> steps_left (cs_phases s ! i) - (if j = i then 1 else 0)"
  proof (cases "live cfg j s")
    case True
    then have "goroutine_step cfg ce j s s'" using zone_step_refines [of cfg j s ce] by (simp add: s'_def)
    then show ?thesis using step_progress step_other by (cases "j = i") fastforce+
  next
    case False
    then have "s' = s" using zone_step_refines [of cfg j s ce] by (simp add: s'_def)
    with False Cons.prems show ?thesis by (auto simp: live_def)
  qed
  with Cons.IH [OF len Cons.prems(2)] show ?case
    by (simp add: run_schedule_def s'_def [symmetric] split: if_splits)
qed (simp add: run_schedule_def)

lemma cycle_joins:
  assumes "envs_ok cfg ce" and "\<forall>i < length (cfg_Zones cfg). 5 \<le> count_list sched i"
  shows "all_joined (run_schedule cfg ce sched (cycle_start cfg c))"
proof -
  let ?s = "run_schedule cfg ce sched (cycle_start cfg c)"
  have len: "length (cs_phases ?s) = length (cfg_Zones cfg)"
    by (simp add: run_schedule_length) (simp add: cycle_start_def)
  have "cs_phases ?s ! i = Joined" if "i < length (cfg_Zones cfg)" for i
  proof -
    have "steps_left (cs_phases ?s ! i) \<le> 5 - count_list sched i"
      using schedule_progress [of i "cycle_start cfg c" cfg ce sched] that by (simp add: cycle_start_def)
    then have "steps_left (cs_phases ?s ! i) = 0" using assms(2) that by fastforce
    moreover have "cs_phases ?s ! i \<noteq> Panicked"
      using no_panic_run [OF assms(1), of sched c] that len by (simp add: no_panic_yet_def list_all_length)
    ultimately show ?thesis by (cases "cs_phases ?s ! i") auto
  qed
  then show ?thesis by (simp add: all_joined_def list_all_length len)
qed

section \<open>Independence of the schedule\<close>

lemma sum_update:
  fixes f :: "nat \<Rightarrow> 'p \<Rightarrow> 'm :: comm_monoid_add"
  assumes "i < length ps"
  shows "(\<Sum>j < length ps. f j (ps[i := p] ! j)) + f i (ps ! i) = (\<Sum>j < length ps. f j (ps ! j)) + f i p"
proof -
  have "(\<Sum>j \<in> {..<length ps} - {i}. f j (ps[i := p] ! j)) = (\<Sum>j \<in> {..<length ps} - {i}. f j (ps ! j))"
    by (rule sum.cong) auto
  then show ?thesis
    using assms sum.remove [of "{..<length ps}" i "\<lambda>j. f j (ps[i := p] ! j)"] sum.remove [of "{..<length ps}" i "\<lambda>j. f j (ps ! j)"]
    by (simp add: ac_simps)
qed

definition first_look :: "config \<Rightarrow> (nat \<Rightarrow> zone_env) \<Rightarrow> DelegationResult DelegationCache \<Rightarrow> nat \<Rightarrow> DelegationResult option" where
  "first_look cfg ce c i = cache_Get c (cfg_Zones cfg ! i) (clock (client_env cfg (ce i)) [])"

definition probe_of :: "config \<Rightarrow> (nat \<Rightarrow> zone_env) \<Rightarrow> nat \<Rightarrow> DelegationResult \<Rightarrow> history \<Rightarrow> ProbeResult list option" where
  "probe_of cfg ce i dlg h = map_option fst
     (probe_delegation (client_env cfg (ce i)) (cfg_Zones cfg ! i) (z_order (ce i)) (z_probers (ce i)) dlg h)"

text \<open>What a goroutine in this phase will report, and whether it has or will have a delegation.\<close>

definition walk_outcome :: "config \<Rightarrow> (nat \<Rightarrow> zone_env) \<Rightarrow> nat \<Rightarrow> history \<Rightarrow> ProbeResult list option \<times> bool" where
  "walk_outcome cfg ce i h =
     (case WalkDelegation (client_env cfg (ce i)) (cfg_Zones cfg ! i) h of
        None \<Rightarrow> (None, False)
      | Some (Inl err, h1) \<Rightarrow> (Some [], False)
      | Some (Inr dlg, h1) \<Rightarrow> (probe_of cfg ce i dlg (snd (timeNow (client_env cfg (ce i)) h1)), True))"

definition start_outcome :: "config \<Rightarrow> (nat \<Rightarrow> zone_env) \<Rightarrow> DelegationResult DelegationCache \<Rightarrow> nat \<Rightarrow> ProbeResult list option \<times> bool" where
  "start_outcome cfg ce c i =
     (let h = snd (timeNow (client_env cfg (ce i)) []) in
      case first_look cfg ce c i of
        Some dlg \<Rightarrow> (probe_of cfg ce i dlg h, True)
      | None \<Rightarrow> walk_outcome cfg ce i h)"

lemma start_outcome_zone: "fst (start_outcome cfg ce c i) = zone_outcome cfg ce i (first_look cfg ce c i)"
  by (auto simp: start_outcome_def zone_outcome_def walk_outcome_def probe_of_def timeNow_def Let_def
      split: option.split sum.split)

text \<open>The value of the delegation gauge of goroutine \<open>i\<close>'s zone, and the outcome its phase still leads to.\<close>

definition goroutine_inv ::
  "config \<Rightarrow> (nat \<Rightarrow> zone_env) \<Rightarrow> DelegationResult DelegationCache \<Rightarrow> DelegationResult DelegationCache \<Rightarrow> int option \<Rightarrow>
   nat \<Rightarrow> phase \<Rightarrow> bool" where
  "goroutine_inv cfg ce c0 c gauge i p \<longleftrightarrow>
     (let out = start_outcome cfg ce c0 i; set_gauge = Some (if snd out then 1 else 0) in
      case p of
        Starting \<Rightarrow> (\<forall>now. cache_Get c (cfg_Zones cfg ! i) now = cache_Get c0 (cfg_Zones cfg ! i) now) \<and> gauge = None
      | Walking h \<Rightarrow> first_look cfg ce c0 i = None \<and> walk_outcome cfg ce i h = out \<and> gauge = None
      | Walked dlg h \<Rightarrow> first_look cfg ce c0 i = None \<and>
          (probe_of cfg ce i dlg (snd (timeNow (client_env cfg (ce i)) h)), True) = out \<and> gauge = None
      | Acquired dlg h \<Rightarrow> (probe_of cfg ce i dlg h, True) = out \<and> gauge = None
      | Reported rs \<Rightarrow> fst out = Some rs \<and> gauge = set_gauge
      | Joined \<Rightarrow> fst out \<noteq> None \<and> gauge = set_gauge
      | Panicked \<Rightarrow> fst out = None)"

definition outcome_inv :: "config \<Rightarrow> (nat \<Rightarrow> zone_env) \<Rightarrow> DelegationResult DelegationCache \<Rightarrow> cycle_state \<Rightarrow> bool" where
  "outcome_inv cfg ce c0 s \<longleftrightarrow> length (cs_phases s) = length (cfg_Zones cfg) \<and>
     (\<forall>i. i < length (cfg_Zones cfg) \<longrightarrow> goroutine_inv cfg ce c0 (cs_cache s)
        (reads ParentDelegation [cfg_Zones cfg ! i] (cs_ops s) None) i (cs_phases s ! i)) \<and>
     mset (cs_results s) = (\<Sum>i < length (cfg_Zones cfg).
       if cs_phases s ! i = Joined then mset (the (fst (start_outcome cfg ce c0 i))) else {#})"

lemma outcome_inv_start: "outcome_inv cfg ce c (cycle_start cfg c)"
  by (simp add: outcome_inv_def cycle_start_def goroutine_inv_def reset_ops_def Let_def)

lemma goroutine_step_own:
  assumes "goroutine_inv cfg ce c0 (cs_cache s) (reads ParentDelegation [cfg_Zones cfg ! i] (cs_ops s) None) i (cs_phases s ! i)"
    and "goroutine_step cfg ce i s s'"
  shows "goroutine_inv cfg ce c0 (cs_cache s') (reads ParentDelegation [cfg_Zones cfg ! i] (cs_ops s') None) i (cs_phases s' ! i)"
  using assms(2)
proof cases
  case (hit now h dlg)
  then show ?thesis using assms(1)
    by (simp add: goroutine_inv_def Let_def start_outcome_def first_look_def timeNow_def)
next
  case (miss now h)
  then show ?thesis using assms(1)
    by (simp add: goroutine_inv_def Let_def start_outcome_def first_look_def timeNow_def)
next
  case (walk_panics h)
  then show ?thesis using assms(1) by (auto simp: goroutine_inv_def Let_def walk_outcome_def dest: sym)
next
  case (walk_fails h err h1)
  then show ?thesis using assms(1) by (auto simp: goroutine_inv_def Let_def walk_outcome_def dest: sym)
next
  case (walks h dlg h1)
  then show ?thesis using assms(1) by (auto simp: goroutine_inv_def Let_def walk_outcome_def)
next
  case (stores dlg h now h1)
  then show ?thesis using assms(1) by (auto simp: goroutine_inv_def Let_def)
next
  case (probe_panics dlg h)
  then show ?thesis using assms(1) by (auto simp: goroutine_inv_def Let_def probe_of_def dest: sym)
next
  case (probes dlg h rs h1)
  then show ?thesis using assms(1) by (auto simp: goroutine_inv_def Let_def probe_of_def dest: sym)
next
  case (joins rs)
  then show ?thesis using assms(1) by (auto simp: goroutine_inv_def Let_def)
qed

lemma goroutine_inv_cong:
  assumes "\<And>now. cache_Get c' (cfg_Zones cfg ! i) now = cache_Get c (cfg_Zones cfg ! i) now"
    and "goroutine_inv cfg ce c0 c gauge i p"
  shows "goroutine_inv cfg ce c0 c' gauge i p"
  using assms by (cases p) (simp_all add: goroutine_inv_def Let_def)

lemma goroutine_step_others:
  assumes "goroutine_step cfg ce i s s'" and "j < length (cfg_Zones cfg)" and "cfg_Zones cfg ! j \<noteq> cfg_Zones cfg ! i"
    and "goroutine_inv cfg ce c0 (cs_cache s) (reads ParentDelegation [cfg_Zones cfg ! j] (cs_ops s) None) j (cs_phases s ! j)"
  shows "goroutine_inv cfg ce c0 (cs_cache s') (reads ParentDelegation [cfg_Zones cfg ! j] (cs_ops s') None) j (cs_phases s' ! j)"
proof -
  have "cache_Get (cs_cache s') (cfg_Zones cfg ! j) now = cache_Get (cs_cache s) (cfg_Zones cfg ! j) now" for now
    using assms(1,3) by cases (simp_all add: dcache.get_set)
  moreover have "reads ParentDelegation [cfg_Zones cfg ! j] (cs_ops s') None =
      reads ParentDelegation [cfg_Zones cfg ! j] (cs_ops s) None"
    using assms(1,3) by cases simp_all
  moreover have "cs_phases s' ! j = cs_phases s ! j" using assms(1,3) by (metis step_other)
  ultimately show ?thesis using assms(4) goroutine_inv_cong by metis
qed

lemma goroutine_step_joins:
  assumes "goroutine_step cfg ce i s s'"
  shows "\<exists>rs p. cs_results s' = cs_results s @ rs \<and> cs_phases s' = (cs_phases s)[i := p] \<and> cs_phases s ! i \<noteq> Joined \<and>
     i < length (cs_phases s) \<and> i < length (cfg_Zones cfg) \<and>
     (if p = Joined then cs_phases s ! i = Reported rs else rs = [])"
  using assms by cases auto

lemma outcome_inv_step:
  assumes "distinct (cfg_Zones cfg)" and inv: "outcome_inv cfg ce c0 s" and step: "goroutine_step cfg ce i s s'"
  shows "outcome_inv cfg ce c0 s'"
proof -
  let ?n = "length (cfg_Zones cfg)"
  let ?f = "\<lambda>j p. if p = Joined then mset (the (fst (start_outcome cfg ce c0 j))) else {#}"
  have len: "length (cs_phases s) = ?n" using inv by (simp add: outcome_inv_def)
  have gor: "goroutine_inv cfg ce c0 (cs_cache s) (reads ParentDelegation [cfg_Zones cfg ! j] (cs_ops s) None) j (cs_phases s ! j)"
    if "j < ?n" for j using inv that by (simp add: outcome_inv_def)
  from goroutine_step_joins [OF step] obtain rs p where J: "cs_results s' = cs_results s @ rs"
    "cs_phases s' = (cs_phases s)[i := p]" "cs_phases s ! i \<noteq> Joined" "i < ?n"
    "if p = Joined then cs_phases s ! i = Reported rs else rs = []" by blast
  have "goroutine_inv cfg ce c0 (cs_cache s') (reads ParentDelegation [cfg_Zones cfg ! j] (cs_ops s') None) j (cs_phases s' ! j)"
    if j: "j < ?n" for j
  proof (cases "j = i")
    case True
    then show ?thesis using goroutine_step_own [OF gor step] J(4) by simp
  next
    case False
    then have "cfg_Zones cfg ! j \<noteq> cfg_Zones cfg ! i" using assms(1) j J(4) by (simp add: nth_eq_iff_index_eq)
    with goroutine_step_others [OF step j _ gor [OF j]] show ?thesis by blast
  qed
  moreover have "mset (cs_results s') = (\<Sum>j < ?n. ?f j (cs_phases s' ! j))"
  proof -
    have "(\<Sum>j < ?n. ?f j (cs_phases s' ! j)) = (\<Sum>j < ?n. ?f j (cs_phases s ! j)) + ?f i p"
      using sum_update [of i "cs_phases s" ?f p] J(2-4) len by simp
    moreover have "?f i p = mset rs"
      using J(5) gor [OF J(4)] by (auto simp: goroutine_inv_def Let_def split: if_splits)
    ultimately show ?thesis using inv J(1) by (simp add: outcome_inv_def)
  qed
  ultimately show ?thesis using len J(2) by (simp add: outcome_inv_def)
qed

lemma outcome_inv_run:
  assumes "distinct (cfg_Zones cfg)"
  shows "outcome_inv cfg ce c (run_schedule cfg ce sched (cycle_start cfg c))"
  by (rule schedule_invariant [where I = "outcome_inv cfg ce c", OF outcome_inv_step [OF assms] outcome_inv_start])

lemma all_joined_outcomes:
  assumes "outcome_inv cfg ce c s" and "all_joined s"
  shows "mset (cs_results s) = (\<Sum>i < length (cfg_Zones cfg). mset (the (fst (start_outcome cfg ce c i))))"
    and "i < length (cfg_Zones cfg) \<Longrightarrow> fst (start_outcome cfg ce c i) \<noteq> None \<and>
      reads ParentDelegation [cfg_Zones cfg ! i] (cs_ops s) None = Some (if snd (start_outcome cfg ce c i) then 1 else 0)"
proof -
  have J: "cs_phases s ! i = Joined" if "i < length (cfg_Zones cfg)" for i
    using assms that by (auto simp: all_joined_def list_all_length outcome_inv_def)
  show "mset (cs_results s) = (\<Sum>i < length (cfg_Zones cfg). mset (the (fst (start_outcome cfg ce c i))))"
    using assms(1) J by (simp add: outcome_inv_def)
  show "i < length (cfg_Zones cfg) \<Longrightarrow> fst (start_outcome cfg ce c i) \<noteq> None \<and>
      reads ParentDelegation [cfg_Zones cfg ! i] (cs_ops s) None = Some (if snd (start_outcome cfg ce c i) then 1 else 0)"
    using assms(1) J [of i] by (auto simp: outcome_inv_def goroutine_inv_def Let_def dest!: spec [of _ i])
qed

section \<open>The operations of a cycle\<close>

lemma ops_ok_step: "goroutine_step cfg ce i s s' \<Longrightarrow> ops_ok cfg (cs_ops s) \<Longrightarrow> ops_ok cfg (cs_ops s')"
  by (erule goroutine_stepE) (auto intro: ops_ok_snoc)

lemma ops_ok_run: "ops_ok cfg (cs_ops (run_schedule cfg ce sched (cycle_start cfg c)))"
proof (rule schedule_invariant [where I = "\<lambda>s. ops_ok cfg (cs_ops s)"])
  show "ops_ok cfg (cs_ops (cycle_start cfg c))" by (simp add: cycle_start_def ops_ok_def)
qed (rule ops_ok_step)

lemma reads_reset:
  "reads m ls reset_ops x = (if m \<in> insert ParentDelegation zone_metrics then None else x)"
  by (cases m) (simp_all add: reset_ops_def)

lemma reads_during_cycle:
  assumes "ops_ok cfg ops" and "m \<in> zone_metrics"
  shows "reads m ls ops x = None"
proof -
  obtain rest where rest: "ops = reset_ops @ rest" "set rest \<subseteq> cycle_ops cfg" using assms(1) by (auto simp: ops_ok_def)
  have "m \<notin> op_metric ` set rest" using rest(2) assms(2) by (fastforce simp: cycle_ops_def)
  then show ?thesis using assms(2) by (simp add: rest(1) reads_other reads_reset)
qed

lemma reads_parent_other:
  assumes "ops_ok cfg ops" and "z \<notin> set (cfg_Zones cfg)"
  shows "reads ParentDelegation (z # ls) ops x = None"
proof -
  obtain rest where rest: "ops = reset_ops @ rest" "set rest \<subseteq> cycle_ops cfg" using assms(1) by (auto simp: ops_ok_def)
  have "\<not> mentions ParentDelegation (z # ls) op" if "op \<in> set rest" for op
    using rest(2) that assms(2) by (fastforce simp: cycle_ops_def)
  then show ?thesis by (simp add: rest(1) reads_reset reads_untouched list_all_iff)
qed

lemma reads_parent_start:
  assumes "ops_ok cfg ops"
  shows "reads ParentDelegation ls ops x = reads ParentDelegation ls ops None"
  using assms by (auto simp: ops_ok_def reads_reset)

lemma Run_cases:
  assumes "Run cfg ce o' d sched c = Some (res, s')"
  obtains s where "s = run_schedule cfg ce sched (cycle_start cfg c)" and "all_joined s"
    and "res = \<lparr>cr_Results = cs_results s, cr_Duration = d, cr_ZoneCount = length (cfg_Zones cfg)\<rparr>"
    and "cs_ops s' = cs_ops s @ aggregate_ops o' (cfg_Zones cfg) d (cr_Results res)" and "cs_cache s' = cs_cache s"
    and "ops_ok cfg (cs_ops s)"
  using assms ops_ok_run [of cfg ce sched c]
  by (auto simp: Run_def Let_def cycle_finish_def split: if_splits)

lemma series_run:
  assumes "ops_ok cfg ops" and "m \<in> zone_metrics"
  shows "series_after (ops @ aggregate_ops o' zones d rs) v m ls = reads m ls (aggregate_ops o' zones d rs) None"
  using reads_during_cycle [OF assms] by (simp add: series_after_reads)

lemma Run_results:
  assumes "envs_ok cfg ce" and "Run cfg ce o' d sched c = Some (res, s')"
  shows "results_ok cfg (cr_Results res)"
proof (rule Run_cases [OF assms(2)])
  fix t assume "t = run_schedule cfg ce sched (cycle_start cfg c)"
    and "res = \<lparr>cr_Results = cs_results t, cr_Duration = d, cr_ZoneCount = length (cfg_Zones cfg)\<rparr>"
  then show ?thesis using cycle_inv_run [OF assms(1), of sched c] by (simp add: cycle_inv_def)
qed

lemma results_mx_ok: "results_ok cfg rs \<Longrightarrow> list_all mx_ok rs"
  by (auto simp: results_ok_def list_all_iff result_ok_def mx_ok_def)

section \<open>Properties\<close>

text \<open>C21: a cycle ends. Whatever the network answers and however the goroutines are scheduled, once each of
  them has had five steps all zones are probed and \<open>Run\<close> returns; no goroutine panics while there is a
  root server. The result counts the configured zones.\<close>

theorem cycle_completes:
  assumes "envs_ok cfg ce" and "\<forall>i < length (cfg_Zones cfg). 5 \<le> count_list sched i"
  shows "\<exists>res s. Run cfg ce o' d sched c = Some (res, s) \<and> cr_ZoneCount res = length (cfg_Zones cfg)"
  using cycle_joins [OF assms, of c] by (simp add: Run_def Let_def cycle_finish_def)

text \<open>Two zones behind one root, an empty cache, and a schedule that alternates.\<close>

definition example_cfg :: config where
  "example_cfg = \<lparr>cfg_Zones = [''a.z'', ''b.z''], cfg_ProbeInterval = 60, cfg_DelegationCacheTTL = 1800,
     cfg_QueryTimeout = 5, cfg_ZoneDeadline = 30, cfg_AddressOverrides = [], cfg_RootServers = []\<rparr>"

definition example_ce :: "nat \<Rightarrow> zone_env" where
  "example_ce = (\<lambda>_. \<lparr>z_env = static_env example_net, z_order = rev, z_probers = rev Probers\<rparr>)"

definition example_orders :: map_orders where
  "example_orders = \<lparr>order_null = rev, order_zones = rev, order_targets = rev\<rparr>"

definition example_sched :: "nat list" where
  "example_sched = concat (replicate 5 [0, 1])"

lemma example_envs: "envs_ok example_cfg example_ce"
  by (simp add: envs_ok_def example_ce_def static_env_def)

lemma example_orders_ok: "orders_ok example_orders"
  by (simp add: orders_ok_def example_orders_def)

theorem cycle_completes_witness:
  "\<exists>res s. Run example_cfg example_ce example_orders 7 example_sched (NewDelegationCache 1800) = Some (res, s) \<and>
     cr_ZoneCount res = length (cfg_Zones example_cfg)"
proof (rule cycle_completes [OF example_envs])
  have "list_all (\<lambda>i. 5 \<le> count_list example_sched i) [0..<length (cfg_Zones example_cfg)]" by code_simp
  then show "\<forall>i < length (cfg_Zones example_cfg). 5 \<le> count_list example_sched i" by (simp add: list_all_iff)
qed

lemma example_run:
  obtains res s where "Run example_cfg example_ce example_orders 7 example_sched (NewDelegationCache 1800) = Some (res, s)"
proof -
  have "list_all (\<lambda>i. 5 \<le> count_list example_sched i) [0..<length (cfg_Zones example_cfg)]" by code_simp
  then have "all_joined (run_schedule example_cfg example_ce example_sched (cycle_start example_cfg (NewDelegationCache 1800)))"
    by (intro cycle_joins [OF example_envs]) (simp add: list_all_iff)
  then show thesis using that by (simp add: Run_def Let_def) (metis surj_pair)
qed

text \<open>C5: the schedule does not matter. With distinct zones, the results of a finished cycle are, up to
  order, what each zone yields on its own from what the cache held for it when the cycle began, and the
  gauge of its parent delegation is 1 if a delegation was cached or found, 0 if not.\<close>

theorem cycle_schedule_independent:
  assumes "distinct (cfg_Zones cfg)" and "Run cfg ce o' d sched c = Some (res, s)"
  shows "mset (cr_Results res) =
      (\<Sum>i < length (cfg_Zones cfg). mset (the (zone_outcome cfg ce i (first_look cfg ce c i)))) \<and>
    list_all (\<lambda>i. zone_outcome cfg ce i (first_look cfg ce c i) \<noteq> None \<and>
      series_after (cs_ops s) v ParentDelegation [cfg_Zones cfg ! i] =
        Some (if snd (start_outcome cfg ce c i) then 1 else 0)) [0..<length (cfg_Zones cfg)]"
proof (rule Run_cases [OF assms(2)])
  fix t assume t: "t = run_schedule cfg ce sched (cycle_start cfg c)" "all_joined t"
    and res: "res = \<lparr>cr_Results = cs_results t, cr_Duration = d, cr_ZoneCount = length (cfg_Zones cfg)\<rparr>"
    and ops: "cs_ops s = cs_ops t @ aggregate_ops o' (cfg_Zones cfg) d (cr_Results res)" "ops_ok cfg (cs_ops t)"
  have inv: "outcome_inv cfg ce c t" using outcome_inv_run [OF assms(1)] t(1) by simp
  have "reads ParentDelegation ls (cs_ops s) x = reads ParentDelegation ls (cs_ops t) None" for ls x
    using reads_parent_start [OF ops(2), of ls x] by (simp add: ops(1) aggregate_parts mx_parts)
  then show ?thesis using all_joined_outcomes [OF inv t(2)]
    by (simp add: res start_outcome_zone list_all_iff series_after_reads)
qed

theorem cycle_schedule_independent_witness:
  "\<exists>res s. Run example_cfg example_ce example_orders 7 example_sched (NewDelegationCache 1800) = Some (res, s) \<and>
     mset (cr_Results res) = (\<Sum>i < length (cfg_Zones example_cfg). mset (the (zone_outcome example_cfg example_ce i
       (first_look example_cfg example_ce (NewDelegationCache 1800) i))))"
proof (rule example_run)
  fix res s assume run: "Run example_cfg example_ce example_orders 7 example_sched (NewDelegationCache 1800) = Some (res, s)"
  have "distinct (cfg_Zones example_cfg)" by code_simp
  from cycle_schedule_independent [OF this run] run show ?thesis by blast
qed

text \<open>C10: the MX metrics of a configured zone after a cycle: the number of its MX records, of its targets that
  resolve, that are aliases and that are well-formed; whether one of the records is the null MX and whether
  it is the only record; and for each target, and for no other name, whether its lowest preference is the
  lowest of the zone. What earlier cycles left does not matter, nor does the order maps are visited in.\<close>

theorem cycle_mx_metrics:
  assumes "envs_ok cfg ce" and "orders_ok o'" and "Run cfg ce o' d sched c = Some (res, s)"
    and "z \<in> set (cfg_Zones cfg)"
  shows "let rs = cr_Results res; val = series_after (cs_ops s) v in
    val MXCount [z] = Some (int (length (zone_mx rs z))) \<and>
    val MXResolvedCount [z] = Some (int (mx_check_count rs ''mx_resolves'' z)) \<and>
    val MXCNAMECount [z] = Some (int (mx_check_count rs ''mx_is_cname'' z)) \<and>
    val MXSyntaxValidCount [z] = Some (int (mx_check_count rs ''mx_syntax_valid'' z)) \<and>
    val MXHasNullMXRR [z] = Some (if (''.'', 0) \<in> set (zone_mx rs z) then 1 else 0) \<and>
    val NullMX [z] = Some (if zone_mx rs z = [(''.'', 0)] then 1 else 0) \<and>
    (\<forall>t. val MXIsPrimary [z, t] = is_primary (zone_mx rs z) t)"
proof (rule Run_cases [OF assms(3)])
  fix t assume ops: "cs_ops s = cs_ops t @ aggregate_ops o' (cfg_Zones cfg) d (cr_Results res)" "ops_ok cfg (cs_ops t)"
  note mx = results_mx_ok [OF Run_results [OF assms(1,3)]]
  have val: "series_after (cs_ops s) v m ls = reads m ls (aggregate_ops o' (cfg_Zones cfg) d (cr_Results res)) None"
    if "m \<in> zone_metrics" for m ls
    unfolding ops(1) using series_run [OF ops(2) that] .
  show ?thesis
    by (simp add: Let_def val aggregate_mx_counts [OF mx assms(4)] aggregate_mx_flags [OF assms(2,4)])
qed

theorem cycle_mx_metrics_witness:
  "\<exists>res s. Run example_cfg example_ce example_orders 7 example_sched (NewDelegationCache 1800) = Some (res, s) \<and>
     series_after (cs_ops s) (\<lambda>_ _. Some 9) MXCount [''a.z''] = Some (int (length (zone_mx (cr_Results res) ''a.z'')))"
proof (rule example_run)
  fix res s assume run: "Run example_cfg example_ce example_orders 7 example_sched (NewDelegationCache 1800) = Some (res, s)"
  have "''a.z'' \<in> set (cfg_Zones example_cfg)" by code_simp
  from cycle_mx_metrics [OF example_envs example_orders_ok run this] run show ?thesis by (meson)
qed

text \<open>The classification counts of a configured zone after a cycle are the numbers of its nameservers
  reported in each class, zero included.\<close>

lemma cycle_classification_metrics:
  assumes "Run cfg ce o' d sched c = Some (res, s)" and "z \<in> set (cfg_Zones cfg)"
    and "cl \<in> {''parent-only'', ''self-only'', ''both''}"
  shows "series_after (cs_ops s) v NSClassificationCount [z, cl] = Some (int (class_count (cr_Results res) z cl))"
proof (rule Run_cases [OF assms(1)])
  fix t assume ops: "cs_ops s = cs_ops t @ aggregate_ops o' (cfg_Zones cfg) d (cr_Results res)" "ops_ok cfg (cs_ops t)"
  show ?thesis unfolding ops(1) using aggregate_classification [OF assms(2,3)] by (simp add: series_run [OF ops(2)])
qed

text \<open>A zone that is not configured any more leaves no series behind: after a cycle none of the per-zone
  metrics has a series for it, whatever earlier cycles had left.\<close>

lemma cycle_drops_removed_zones:
  assumes "envs_ok cfg ce" and "orders_ok o'" and "Run cfg ce o' d sched c = Some (res, s)"
    and "z \<notin> set (cfg_Zones cfg)"
  shows "series_after (cs_ops s) v ParentDelegation [z] = None \<and>
    list_all (\<lambda>m. series_after (cs_ops s) v m (z # ls) = None)
      [NSClassificationCount, MXCount, MXResolvedCount, MXCNAMECount, MXSyntaxValidCount, NullMX, MXHasNullMXRR, MXIsPrimary]"
proof (rule Run_cases [OF assms(3)])
  fix t assume ops: "cs_ops s = cs_ops t @ aggregate_ops o' (cfg_Zones cfg) d (cr_Results res)" "ops_ok cfg (cs_ops t)"
  have other: "\<forall>r \<in> set (cr_Results res). Zone r \<noteq> z"
    using Run_results [OF assms(1,3)] assms(4) by (auto simp: results_ok_def list_all_iff)
  have "series_after (cs_ops s) v m (z # ls) = None" if "m \<in> zone_metrics" for m
    unfolding ops(1) series_run [OF ops(2) that] by (rule aggregate_other_zone [OF assms(2,4) other that])
  moreover have "series_after (cs_ops s) v ParentDelegation [z] = None"
    using reads_parent_other [OF ops(2) assms(4), of "[]"] by (simp add: ops(1) series_after_reads aggregate_parts mx_parts)
  ultimately show ?thesis by simp
qed

lemma cycle_drops_removed_zones_example:
  "\<exists>res s. Run example_cfg example_ce example_orders 7 example_sched (NewDelegationCache 1800) = Some (res, s) \<and>
     series_after (cs_ops s) (\<lambda>_ _. Some 1) ParentDelegation [''old.z''] = None"
proof (rule example_run)
  fix res s assume run: "Run example_cfg example_ce example_orders 7 example_sched (NewDelegationCache 1800) = Some (res, s)"
  have "''old.z'' \<notin> set (cfg_Zones example_cfg)" by code_simp
  from cycle_drops_removed_zones [OF example_envs example_orders_ok run this] run show ?thesis by blast
qed

text \<open>While a cycle runs, from its reset to its aggregation, none of the per-zone counts has any series,
  for any zone: a scrape in that time does not see them, whatever the previous cycle had found.\<close>

lemma cycle_metrics_gap:
  "list_all (\<lambda>m. series_after (cs_ops (run_schedule cfg ce sched (cycle_start cfg c))) v m ls = None)
     [NSClassificationCount, MXCount, MXResolvedCount, MXCNAMECount, MXSyntaxValidCount, NullMX, MXHasNullMXRR, MXIsPrimary]"
  using reads_during_cycle [OF ops_ok_run] by (simp add: series_after_reads)

text \<open>C38: the counters per server: a cycle adds for each address the number of results that carry it, their
  durations and the number of those that timed out. (They count results, not the queries that were made.)\<close>

theorem cycle_server_counters:
  assumes "Run cfg ce o' d sched c = Some (res, s)" and "ip \<noteq> []"
  shows "let on = server_results (cr_Results res) ip; val = series_after (cs_ops s) v; old = (\<lambda>m. case v m [ip] of Some x \<Rightarrow> x | None \<Rightarrow> 0) in
    val DNSQueries [ip] = (if on = [] then v DNSQueries [ip] else Some (old DNSQueries + int (length on))) \<and>
    val DNSDuration [ip] = (if on = [] then v DNSDuration [ip] else Some (old DNSDuration + sum_list (map Duration on))) \<and>
    val DNSTimeouts [ip] = (if filter TimedOut on = [] then v DNSTimeouts [ip]
      else Some (old DNSTimeouts + int (length (filter TimedOut on))))"
proof (rule Run_cases [OF assms(1)])
  fix t assume ops: "cs_ops s = cs_ops t @ aggregate_ops o' (cfg_Zones cfg) d (cr_Results res)" "ops_ok cfg (cs_ops t)"
  have "reads m [ip] (cs_ops t) x = x" if "m \<in> {DNSQueries, DNSDuration, DNSTimeouts}" for m x
  proof -
    obtain rest where rest: "cs_ops t = reset_ops @ rest" "set rest \<subseteq> cycle_ops cfg" using ops(2) by (auto simp: ops_ok_def)
    have "m \<notin> op_metric ` set rest" using rest(2) that by (fastforce simp: cycle_ops_def)
    then show ?thesis using that by (auto simp: rest(1) reads_other reads_reset)
  qed
  then show ?thesis by (simp add: Let_def series_after_reads ops(1) server_reads [OF assms(2)])
qed

theorem cycle_server_counters_witness:
  "\<exists>res s. Run example_cfg example_ce example_orders 7 example_sched (NewDelegationCache 1800) = Some (res, s) \<and>
     (let on = server_results (cr_Results res) ''7.0.0.1'' in series_after (cs_ops s) (\<lambda>_ _. Some 4) DNSQueries [''7.0.0.1''] =
       (if on = [] then Some 4 else Some (4 + int (length on))))"
proof (rule example_run)
  fix res s assume run: "Run example_cfg example_ce example_orders 7 example_sched (NewDelegationCache 1800) = Some (res, s)"
  have "''7.0.0.1'' \<noteq> []" by simp
  from cycle_server_counters [OF run this, of "\<lambda>_ _. Some 4"] run show ?thesis by (auto simp: Let_def)
qed

section \<open>Metric names and labels\<close>

text \<open>The label values an operation gives, against the label names its metric was created with.\<close>

definition arity_ok :: "metric_op \<Rightarrow> bool" where
  "arity_ok op \<longleftrightarrow> (case op of OpReset m \<Rightarrow> True
     | OpSet m ls v \<Rightarrow> map_option (length \<circ> snd \<circ> snd) (map_of NewRunner m) = Some (length ls)
     | OpAdd m ls v \<Rightarrow> map_option (length \<circ> snd \<circ> snd) (map_of NewRunner m) = Some (length ls))"

lemma arity_simps [simp]:
  "arity_ok (OpReset m)" "arity_ok (OpSet CycleDuration [] v)" "arity_ok (OpSet ZonesProbed [] v)"
  "arity_ok (OpAdd DNSQueries [a] v)" "arity_ok (OpAdd DNSDuration [a] v)" "arity_ok (OpAdd DNSTimeouts [a] v)"
  "arity_ok (OpAdd DelegationCacheHits [] v)" "arity_ok (OpAdd DelegationCacheMisses [] v)"
  "arity_ok (OpSet ParentDelegation [a] v)"
  "arity_ok (OpSet NSClassificationCount [a, b] v)" "arity_ok (OpAdd NSClassificationCount [a, b] v)"
  "arity_ok (OpSet MXCount [a] v)" "arity_ok (OpSet MXResolvedCount [a] v)" "arity_ok (OpSet MXCNAMECount [a] v)"
  "arity_ok (OpSet MXSyntaxValidCount [a] v)" "arity_ok (OpSet NullMX [a] v)" "arity_ok (OpSet MXHasNullMXRR [a] v)"
  "arity_ok (OpAdd MXCount [a] v)" "arity_ok (OpAdd MXResolvedCount [a] v)" "arity_ok (OpAdd MXCNAMECount [a] v)"
  "arity_ok (OpAdd MXSyntaxValidCount [a] v)" "arity_ok (OpSet MXIsPrimary [a, b] v)"
  by (simp_all add: arity_ok_def NewRunner_def)

lemma aggregate_arity:
  assumes "orders_ok o'"
  shows "list_all arity_ok (aggregate_ops o' zones d rs)"
proof -
  have "list_all arity_ok (server_ops rs)" by (auto simp: server_ops_def list_all_iff)
  moreover have "list_all arity_ok (classification_ops zones rs)"
    by (auto simp: classification_ops_def list_all_iff split: option.splits)
  moreover have "list_all arity_ok (mx_zero_ops zones)" by (auto simp: mx_zero_ops_def list_all_iff)
  moreover have "list_all arity_ok (concat (map mx_result_ops rs))"
    by (auto simp: mx_result_ops_def mx_validity_ops_def list_all_iff split: if_splits)
  moreover have "list_all arity_ok (null_ops (order_null o') rrs)" for rrs
    by (auto simp: null_ops_def list_all_iff split: prod.splits if_splits)
  moreover have "list_all arity_ok (primary_ops o' per)" for per
    unfolding list_all_iff primary_ops_set [OF assms] by auto
  ultimately show ?thesis by (simp add: aggregate_ops_def mx_ops_def mx_collect_eq)
qed

text \<open>The runner's metrics are registered under pairwise different names, none of them the build
  information's or one a probe result can have in the registry of a cycle.\<close>

lemma metric_names_distinct:
  "distinct (''dnshealth_build_info'' # map (\<lambda>(m, k, name, ls). name) NewRunner @
     map (\<lambda>m. ''dnshealth_'' @ m) (map fst query_help @ map fst metric_schema))"
  by code_simp

text \<open>Every operation of a cycle gives as many label values as its metric has label names, so that no lookup of a
  series panics.\<close>

lemma cycle_label_values:
  assumes "orders_ok o'"
  shows "list_all arity_ok (cs_ops (snd (cycle_finish cfg o' d (run_schedule cfg ce sched (cycle_start cfg c)))))"
proof -
  obtain rest where "cs_ops (run_schedule cfg ce sched (cycle_start cfg c)) = reset_ops @ rest" "set rest \<subseteq> cycle_ops cfg"
    using ops_ok_run [of cfg ce sched c] by (auto simp: ops_ok_def)
  moreover have "list_all arity_ok reset_ops" by (simp add: reset_ops_def)
  moreover have "arity_ok op" if "op \<in> cycle_ops cfg" for op using that by (auto simp: cycle_ops_def)
  ultimately show ?thesis
    using aggregate_arity [OF assms] by (auto simp: cycle_finish_def list_all_iff)
qed

end
