(* ===== verification/Cycle_Cache.thy ===== *)
theory Cycle_Cache
  imports Cycle
begin

text \<open>
  What a probe cycle (\<^verbatim>\<open>cycle/runner.go\<close>) does to the delegation cache and to its two counters, for every
  schedule of the goroutines: a zone's delegation is stored exactly when the lookup at the start found none and
  the walk succeeded.
\<close>

section \<open>What each zone stores\<close>

text \<open>The delegation goroutine \<open>i\<close> stores, with the time of storing, when the cycle starts with the cache \<open>c\<close>.\<close>

definition stored :: "config \<Rightarrow> (nat \<Rightarrow> zone_env) \<Rightarrow> DelegationResult DelegationCache \<Rightarrow> nat \<Rightarrow> (DelegationResult \<times> int) option" where
  "stored cfg ce c i = (let e = client_env cfg (ce i) in
     case first_look cfg ce c i of
       Some dlg \<Rightarrow> None
     | None \<Rightarrow> (case WalkDelegation e (cfg_Zones cfg ! i) (snd (timeNow e [])) of
         Some (Inr dlg, h) \<Rightarrow> Some (dlg, clock e h)
       | _ \<Rightarrow> None))"

definition view_after :: "config \<Rightarrow> (nat \<Rightarrow> zone_env) \<Rightarrow> DelegationResult DelegationCache \<Rightarrow> nat \<Rightarrow> int \<Rightarrow> DelegationResult option" where
  "view_after cfg ce c i now = (case stored cfg ce c i of
     Some (dlg, t) \<Rightarrow> if now - t > cache_ttl c then None else Some dlg
   | None \<Rightarrow> cache_Get c (cfg_Zones cfg ! i) now)"

section \<open>The invariant\<close>

definition fill_phase ::
  "config \<Rightarrow> (nat \<Rightarrow> zone_env) \<Rightarrow> DelegationResult DelegationCache \<Rightarrow> (int \<Rightarrow> DelegationResult option) \<Rightarrow> nat \<Rightarrow> phase \<Rightarrow> bool" where
  "fill_phase cfg ce c view i p \<longleftrightarrow> (let e = client_env cfg (ce i); before = cache_Get c (cfg_Zones cfg ! i) in
     case p of
       Starting \<Rightarrow> view = before
     | Walking h \<Rightarrow> view = before \<and> first_look cfg ce c i = None \<and> h = snd (timeNow e [])
     | Walked dlg h \<Rightarrow> view = before \<and> stored cfg ce c i = Some (dlg, clock e h)
     | _ \<Rightarrow> view = view_after cfg ce c i)"

text \<open>The lookups that have been made and found a delegation, or none.\<close>

definition lookups :: "config \<Rightarrow> (nat \<Rightarrow> zone_env) \<Rightarrow> DelegationResult DelegationCache \<Rightarrow> bool \<Rightarrow> phase list \<Rightarrow> int" where
  "lookups cfg ce c found ps = (\<Sum>i < length ps. if ps ! i \<noteq> Starting \<and> (first_look cfg ce c i \<noteq> None) = found then 1 else 0)"

definition fill_inv :: "config \<Rightarrow> (nat \<Rightarrow> zone_env) \<Rightarrow> DelegationResult DelegationCache \<Rightarrow> cycle_state \<Rightarrow> bool" where
  "fill_inv cfg ce c s \<longleftrightarrow> length (cs_phases s) = length (cfg_Zones cfg) \<and> cache_ttl (cs_cache s) = cache_ttl c \<and>
     (\<forall>z. z \<notin> set (cfg_Zones cfg) \<longrightarrow> cache_Get (cs_cache s) z = cache_Get c z) \<and>
     (\<forall>i. i < length (cfg_Zones cfg) \<longrightarrow> fill_phase cfg ce c (cache_Get (cs_cache s) (cfg_Zones cfg ! i)) i (cs_phases s ! i)) \<and>
     added DelegationCacheHits [] (cs_ops s) = lookups cfg ce c True (cs_phases s) \<and>
     added DelegationCacheMisses [] (cs_ops s) = lookups cfg ce c False (cs_phases s)"

lemma fill_inv_start: "fill_inv cfg ce c (cycle_start cfg c)"
  by (simp add: fill_inv_def cycle_start_def fill_phase_def lookups_def reset_ops_def added_def Let_def)

lemma get_set_fun: "cache_Get (cache_Set c z d t) z' = (if z' = z then (\<lambda>now. if now - t > cache_ttl c then None else Some d) else cache_Get c z')"
  by (auto simp: fun_eq_iff dcache.get_set)

text \<open>A step of a goroutine in its own zone's view of the cache.\<close>

lemma fill_step_own:
  assumes step: "goroutine_step cfg ce i s s'" and ttl: "cache_ttl (cs_cache s) = cache_ttl c"
    and inv: "fill_phase cfg ce c (cache_Get (cs_cache s) (cfg_Zones cfg ! i)) i (cs_phases s ! i)"
  shows "fill_phase cfg ce c (cache_Get (cs_cache s') (cfg_Zones cfg ! i)) i (cs_phases s' ! i)"
  using step
proof cases
  case (hit now h dlg)
  then have "first_look cfg ce c i = Some dlg"
    using inv by (simp add: fill_phase_def first_look_def timeNow_def Let_def)
  then have "stored cfg ce c i = None" by (simp add: stored_def Let_def)
  with hit inv show ?thesis by (simp add: fill_phase_def view_after_def fun_eq_iff Let_def)
next
  case (miss now h)
  then show ?thesis using inv by (simp add: fill_phase_def first_look_def timeNow_def Let_def)
next
  case (walk_panics h)
  then show ?thesis using inv by (auto simp: fill_phase_def view_after_def stored_def fun_eq_iff Let_def)
next
  case (walk_fails h err h1)
  then show ?thesis using inv by (auto simp: fill_phase_def view_after_def stored_def fun_eq_iff Let_def)
next
  case (walks h dlg h1)
  then show ?thesis using inv by (auto simp: fill_phase_def stored_def Let_def)
next
  case (stores dlg h now h1)
  then show ?thesis
    using inv ttl by (auto simp: fill_phase_def view_after_def get_set_fun timeNow_def fun_eq_iff Let_def)
qed (use inv in \<open>simp_all add: fill_phase_def Let_def\<close>)

lemma step_elsewhere:
  "goroutine_step cfg ce i s s' \<Longrightarrow> z \<noteq> cfg_Zones cfg ! i \<Longrightarrow> cache_Get (cs_cache s') z = cache_Get (cs_cache s) z"
  by (erule goroutine_stepE) (simp_all add: get_set_fun)

lemma step_ttl: "goroutine_step cfg ce i s s' \<Longrightarrow> cache_ttl (cs_cache s') = cache_ttl (cs_cache s)"
  by (erule goroutine_stepE) (simp_all add: dcache.ttl_set)

text \<open>A step adds to a counter what it adds to the lookups made.\<close>

lemma step_lookups:
  assumes step: "goroutine_step cfg ce i s s'" and len: "length (cs_phases s) = length (cfg_Zones cfg)"
    and inv: "fill_phase cfg ce c (cache_Get (cs_cache s) (cfg_Zones cfg ! i)) i (cs_phases s ! i)"
  shows "added (if found then DelegationCacheHits else DelegationCacheMisses) [] (cs_ops s') - lookups cfg ce c found (cs_phases s') =
    added (if found then DelegationCacheHits else DelegationCacheMisses) [] (cs_ops s) - lookups cfg ce c found (cs_phases s)"
proof -
  let ?f = "\<lambda>j p. if p \<noteq> Starting \<and> (first_look cfg ce c j \<noteq> None) = found then 1 else (0 :: int)"
  have i: "i < length (cs_phases s)" using step by (rule goroutine_stepE)
  have phases: "cs_phases s' = (cs_phases s)[i := cs_phases s' ! i]"
    using step by cases (simp_all add: i)
  have "lookups cfg ce c found (cs_phases s') + ?f i (cs_phases s ! i) = lookups cfg ce c found (cs_phases s) + ?f i (cs_phases s' ! i)"
    using sum_update [OF i, of ?f "cs_phases s' ! i"]
    by (simp only: lookups_def phases [symmetric] step_length [OF step])
  moreover have "added (if found then DelegationCacheHits else DelegationCacheMisses) [] (cs_ops s') + ?f i (cs_phases s ! i) =
      added (if found then DelegationCacheHits else DelegationCacheMisses) [] (cs_ops s) + ?f i (cs_phases s' ! i)"
    using step inv by cases (auto simp: fill_phase_def first_look_def timeNow_def Let_def)
  ultimately show ?thesis by simp
qed

lemma fill_inv_step:
  assumes "distinct (cfg_Zones cfg)" and inv: "fill_inv cfg ce c s" and step: "goroutine_step cfg ce i s s'"
  shows "fill_inv cfg ce c s'"
proof -
  have i: "i < length (cfg_Zones cfg)" using step by (rule goroutine_stepE)
  have own: "fill_phase cfg ce c (cache_Get (cs_cache s) (cfg_Zones cfg ! j)) j (cs_phases s ! j)"
    if "j < length (cfg_Zones cfg)" for j using inv that by (simp add: fill_inv_def)
  have ttl: "cache_ttl (cs_cache s) = cache_ttl c" and len: "length (cs_phases s) = length (cfg_Zones cfg)"
    using inv by (simp_all add: fill_inv_def)
  have "fill_phase cfg ce c (cache_Get (cs_cache s') (cfg_Zones cfg ! j)) j (cs_phases s' ! j)"
    if j: "j < length (cfg_Zones cfg)" for j
  proof (cases "j = i")
    case True
    then show ?thesis using fill_step_own [OF step ttl own [OF i]] by simp
  next
    case False
    then have "cfg_Zones cfg ! j \<noteq> cfg_Zones cfg ! i" using assms(1) i j by (simp add: nth_eq_iff_index_eq)
    with own [OF j] show ?thesis using step_elsewhere [OF step] step_other [OF step False] by simp
  qed
  moreover have "cache_Get (cs_cache s') z = cache_Get c z" if "z \<notin> set (cfg_Zones cfg)" for z
    using that inv step_elsewhere [OF step] nth_mem [OF i] unfolding fill_inv_def by metis
  ultimately show ?thesis
    using inv ttl step_ttl [OF step] len step_length [OF step] step_lookups [OF step len own [OF i], of True]
      step_lookups [OF step len own [OF i], of False]
    by (simp add: fill_inv_def)
qed

lemma fill_inv_run:
  assumes "distinct (cfg_Zones cfg)"
  shows "fill_inv cfg ce c (run_schedule cfg ce sched (cycle_start cfg c))"
  by (rule schedule_invariant [where I = "fill_inv cfg ce c", OF fill_inv_step [OF assms] fill_inv_start])

section \<open>After the cycle\<close>

lemma lookups_joined:
  assumes "list_all (\<lambda>p. p = Joined) ps"
  shows "lookups cfg ce c found ps = int (length (filter (\<lambda>i. (first_look cfg ce c i \<noteq> None) = found) [0..<length ps]))"
proof -
  have "lookups cfg ce c found ps = (\<Sum>i < length ps. if (first_look cfg ce c i \<noteq> None) = found then 1 else 0)"
    unfolding lookups_def using assms by (intro sum.cong) (auto simp: list_all_length)
  also have "\<dots> = sum_list (map (\<lambda>i. if (first_look cfg ce c i \<noteq> None) = found then 1 else 0) [0..<length ps])"
    by (simp add: sum_list_sum_nth atLeast0LessThan)
  finally show ?thesis by (simp add: length_filter_sum)
qed

lemma counter_reads:
  assumes "ops_ok cfg ops" and "m \<in> {DelegationCacheHits, DelegationCacheMisses}"
  shows "reads m [] (ops @ aggregate_ops o' zones d rs) (Some x) = Some (x + added m [] ops)"
proof -
  obtain rest where rest: "ops = reset_ops @ rest" "set rest \<subseteq> cycle_ops cfg" using assms(1) by (auto simp: ops_ok_def)
  have "only_adds m [] op" if "op \<in> set rest" for op using that rest(2) assms(2) by (auto simp: cycle_ops_def)
  then have "list_all (only_adds m []) rest" by (simp add: list_all_iff)
  moreover have "list_all (only_adds m []) reset_ops" using assms(2) by (auto simp: reset_ops_def)
  ultimately have "list_all (only_adds m []) ops" by (simp add: rest(1))
  moreover have "reads m [] (aggregate_ops o' zones d rs) y = y" for y
  proof -
    have skip: "reads m [] ops y = y" if "op_metric ` set ops \<subseteq> X" and "X \<inter> {DelegationCacheHits, DelegationCacheMisses} = {}" for ops X y
      using that assms(2) by (intro reads_other) blast
    show ?thesis
      using assms(2) unfolding aggregate_parts mx_parts
      by (auto simp: skip [OF touched(1)] skip [OF touched(2)] skip [OF touched(3)] skip [OF touched(4)]
          skip [OF touched(5)] skip [OF touched(6)])
  qed
  ultimately show ?thesis by (simp add: reads_adds)
qed

text \<open>C11: a cycle leaves the cache exact, however its goroutines are scheduled: the zones of the configuration whose
  lookup found nothing and whose walk succeeded have that delegation, from the time it was stored and for as
  long as the cache keeps one; every other zone has what it had; and the counters of hits and misses have
  grown by the number of zones that had a delegation, and that had none.\<close>

theorem cycle_fills_cache:
  assumes "distinct (cfg_Zones cfg)" and "Run cfg ce o' d sched c = Some (res, s)"
    and "v DelegationCacheHits [] = Some hits" and "v DelegationCacheMisses [] = Some misses"
  shows "let zones = cfg_Zones cfg; found = (\<lambda>i. first_look cfg ce c i \<noteq> None) in
    list_all (\<lambda>i. cache_Get (cs_cache s) (zones ! i) = (\<lambda>now. case stored cfg ce c i of
        Some (dlg, t) \<Rightarrow> if now - t > cache_ttl c then None else Some dlg
      | None \<Rightarrow> cache_Get c (zones ! i) now)) [0..<length zones] \<and>
    (\<forall>z. cache_Get (cs_cache s) z = cache_Get c z \<or> z \<in> set zones) \<and>
    series_after (cs_ops s) v DelegationCacheHits [] = Some (hits + int (length (filter found [0..<length zones]))) \<and>
    series_after (cs_ops s) v DelegationCacheMisses [] = Some (misses + int (length (filter (Not \<circ> found) [0..<length zones])))"
proof (rule Run_cases [OF assms(2)])
  fix t assume t: "t = run_schedule cfg ce sched (cycle_start cfg c)" "all_joined t"
    and ops: "cs_ops s = cs_ops t @ aggregate_ops o' (cfg_Zones cfg) d (cr_Results res)" "ops_ok cfg (cs_ops t)"
    and cache: "cs_cache s = cs_cache t"
  have inv: "fill_inv cfg ce c t" using fill_inv_run [OF assms(1)] t(1) by simp
  have J: "list_all (\<lambda>p. p = Joined) (cs_phases t)" and len: "length (cs_phases t) = length (cfg_Zones cfg)"
    using t(2) inv by (simp_all add: all_joined_def fill_inv_def)
  have "cache_Get (cs_cache s) (cfg_Zones cfg ! i) = view_after cfg ce c i" if "i < length (cfg_Zones cfg)" for i
    using inv that J len by (auto simp: fill_inv_def fill_phase_def cache list_all_length Let_def)
  moreover have "added DelegationCacheHits [] (cs_ops t) = lookups cfg ce c True (cs_phases t)"
    "added DelegationCacheMisses [] (cs_ops t) = lookups cfg ce c False (cs_phases t)"
    using inv by (simp_all add: fill_inv_def)
  moreover have "series_after (cs_ops s) v m [] = Some (x + added m [] (cs_ops t))"
    if "m \<in> {DelegationCacheHits, DelegationCacheMisses}" and "v m [] = Some x" for m x
    using counter_reads [OF ops(2) that(1), of o' "cfg_Zones cfg" d "cr_Results res" x] that(2)
    by (simp add: series_after_reads ops(1))
  moreover have "cache_Get (cs_cache s) z = cache_Get c z \<or> z \<in> set (cfg_Zones cfg)" for z
    using inv by (auto simp: fill_inv_def cache)
  ultimately show ?thesis
    by (simp add: assms(3,4) lookups_joined [OF J] len list_all_iff view_after_def fun_eq_iff comp_def)
qed

lemma cycle_fills_cache_witness:
  "\<exists>res s. Run example_cfg example_ce example_orders 7 example_sched (NewDelegationCache 1800) = Some (res, s) \<and>
     series_after (cs_ops s) (\<lambda>_ _. Some 4) DelegationCacheHits [] = Some 4 \<and>
     series_after (cs_ops s) (\<lambda>_ _. Some 4) DelegationCacheMisses [] = Some 6"
proof (rule example_run)
  fix res s assume run: "Run example_cfg example_ce example_orders 7 example_sched (NewDelegationCache 1800) = Some (res, s)"
  have dist: "distinct (cfg_Zones example_cfg)" and two: "length (cfg_Zones example_cfg) = 2" by code_simp+
  have "first_look example_cfg example_ce (NewDelegationCache 1800) i = None" for i
    by (simp add: first_look_def cache_Get_def NewDelegationCache_def)
  with cycle_fills_cache [OF dist run, of "\<lambda>_ _. Some 4" 4 4] run show ?thesis by (auto simp: two Let_def)
qed

end
