(* ===== verification/Exported_Values.thy ===== *)
theory Exported_Values
  imports Cycle
begin

text \<open>
  From the network to the scrape: what a gauge in the registry of a cycle says of the answers received in that
  cycle. It goes through the prober, the run of the probers over a zone, the goroutines of the cycle and the
  registry, and is stated for the numbers of the SOA prober.
\<close>

section \<open>The calls of a goroutine\<close>

text \<open>All that goroutine \<open>i\<close> asked, when its lookup of the cache gives \<open>cached\<close>.\<close>

definition zone_trace :: "config \<Rightarrow> (nat \<Rightarrow> zone_env) \<Rightarrow> nat \<Rightarrow> DelegationResult option \<Rightarrow> history option" where
  "zone_trace cfg ce i cached =
     (let zone = cfg_Zones cfg ! i; e = client_env cfg (ce i); (now, h) = timeNow e [];
          probe = (\<lambda>dlg h. map_option snd (probe_delegation e zone (z_order (ce i)) (z_probers (ce i)) dlg h)) in
      case cached of
        Some dlg \<Rightarrow> probe dlg h
      | None \<Rightarrow>
          (case WalkDelegation e zone h of
             None \<Rightarrow> None
           | Some (Inl err, h1) \<Rightarrow> Some h1
           | Some (Inr dlg, h1) \<Rightarrow> probe dlg (snd (timeNow e h1))))"

lemma outcome_probed:
  assumes "zone_outcome cfg ce i cached = Some rs" and "r \<in> set rs"
  obtains dlg h h' where "probe_delegation (client_env cfg (ce i)) (cfg_Zones cfg ! i) (z_order (ce i)) (z_probers (ce i)) dlg h = Some (rs, h')"
    and "zone_trace cfg ce i cached = Some h'"
  using assms by (auto simp: zone_outcome_def zone_trace_def Let_def timeNow_def split: option.splits sum.splits)

section \<open>The prober a result is of\<close>

lemma run_probers_from:
  assumes "run_probers e zone nss dlg probers h = Some (rs, h')" and "set probers \<subseteq> set Probers" and "r \<in> set rs"
  shows "\<exists>fn rs1 h1 h2. (Check r, fn) \<in> set probers \<and> fn e zone nss dlg h1 = Some (Inr rs1, h2) \<and>
    r \<in> set rs1 \<and> prefix h2 h'"
  using assms
proof (induction probers arbitrary: h rs)
  case (Cons p probers)
  obtain name fn where p: "p = (name, fn)" by fastforce
  obtain x h1 where x: "fn e zone nss dlg h = Some (x, h1)"
    using Cons.prems(1) by (auto simp: p split: option.splits)
  have mem: "(name, fn) \<in> set Probers" using Cons.prems(2) p by simp
  from prober_results_ok [OF mem x] obtain rs1 where ok: "x = Inr rs1" by blast
  then obtain rs2 where rest: "run_probers e zone nss dlg probers h1 = Some (rs2, h')" "rs = rs1 @ rs2"
    using Cons.prems(1) x by (auto simp: p split: option.splits)
  from Cons.prems(2) have sub: "set probers \<subseteq> set Probers" by simp
  show ?case
  proof (cases "r \<in> set rs1")
    case True
    note named = prober.labelled [OF schema_prober.axioms(1) [OF Probers_schema [OF mem]] x [unfolded ok] True]
    have "prefix h1 h'" using run_probers_ok [OF rest(1) sub] by blast
    with named True x ok p show ?thesis by (intro exI [of _ fn] exI [of _ rs1] exI [of _ h] exI [of _ h1]) simp
  next
    case False
    then have "r \<in> set rs2" using Cons.prems(3) rest(2) by simp
    from Cons.IH [OF rest(1) sub this] show ?thesis unfolding p by (blast intro: list.set_intros(2))
  qed
qed simp

lemma probed_from:
  assumes "probe_delegation e zone order probers dlg h = Some (rs, h')" and "mset probers = mset Probers"
    and "r \<in> set rs" and "Check r = ''soa''"
  obtains nss rs1 h1 h2 where "ProbeSOA e zone nss dlg h1 = Some (Inr rs1, h2)" and "r \<in> set rs1" and "prefix h2 h'"
proof -
  have sub: "set probers \<subseteq> set Probers" using mset_eq_setD [OF assms(2)] by simp
  obtain nss h0 where run: "run_probers e zone nss dlg probers h0 = Some (rs, h')"
    using assms(1,3) by (auto simp: probe_delegation_def split: option.splits if_splits)
  from run_probers_from [OF run sub assms(3)] obtain fn rs1 h1 h2 where fn: "(Check r, fn) \<in> set probers"
    and r: "fn e zone nss dlg h1 = Some (Inr rs1, h2)" "r \<in> set rs1" "prefix h2 h'" by blast
  have "fn = ProbeSOA" using fn sub assms(4) unfolding Probers_eq by auto
  with r that show thesis by blast
qed

section \<open>The gauges of a result\<close>

lemma registered_value:
  assumes "prometheus_rule accepts" and "list_all schema_ok rs" and "value_of (BuildRegistry accepts rs) (n, ls) = Some x"
  obtains r d where "r \<in> set rs" and "(d, x) \<in> set (result_gauges r)" and "g_name d = n" and "set (g_labels d) = ls"
proof -
  have "value_of (all_gauges rs) (n, ls) = Some x"
    using assms BuildRegistry_first_wins [OF assms(1) schema_consistent] by simp
  from map_of_SomeD [OF this [unfolded value_of_def]] that show thesis
    by (auto simp: all_gauges_def series_def)
qed

lemma metric_gauge:
  assumes "(d, x) \<in> set (result_gauges r)" and "g_name d = ''dnshealth_'' @ m" and "map_of query_help m = None"
  obtains v where "(m, v) \<in> set (Metrics r)" and "x = Number v" and "g_labels d = base_labels r"
proof -
  have q: "m \<noteq> ''query_success''" "m \<noteq> ''query_duration_seconds''" using assms(3) by (auto simp: query_help_def)
  have "''dnshealth_query_success'' = ''dnshealth_'' @ ''query_success''"
    "''dnshealth_query_duration_seconds'' = ''dnshealth_'' @ ''query_duration_seconds''" by simp_all
  with q have "g_name d \<noteq> ''dnshealth_query_success''" "g_name d \<noteq> ''dnshealth_query_duration_seconds''"
    using assms(2) by (metis same_append_eq)+
  with assms(1,2) that show thesis by (auto simp: result_gauges_def)
qed

section \<open>SOA data\<close>

text \<open>The numbers of a SOA record that are exported.\<close>

definition soa_fields :: "soa_rdata \<Rightarrow> (string \<times> int) list" where
  "soa_fields soa =
     [(''soa_serial'', uint (soa_Serial soa)), (''soa_refresh_seconds'', uint (soa_Refresh soa)),
      (''soa_retry_seconds'', uint (soa_Retry soa)), (''soa_expire_seconds'', uint (soa_Expire soa)),
      (''soa_minimum_seconds'', uint (soa_Minttl soa))]"

definition soa_numbers :: "string list" where
  "soa_numbers = [''soa_serial'', ''soa_refresh_seconds'', ''soa_retry_seconds'', ''soa_expire_seconds'', ''soa_minimum_seconds'']"

lemma soa_number_facts:
  "m \<in> set soa_numbers \<Longrightarrow> map_of metric_prober m = Some ''soa'' \<and> map_of query_help m = None"
  "m \<in> set soa_numbers \<Longrightarrow> (m, v) \<in> set (soa_metrics soa a b) \<Longrightarrow> map_of (soa_fields soa) m = Some v"
proof -
  have "list_all (\<lambda>m. map_of metric_prober m = Some ''soa'' \<and> map_of query_help m = None) soa_numbers"
    unfolding soa_numbers_def list.pred_inject by (simp add: owner_lookup query_help_def)
  then show "m \<in> set soa_numbers \<Longrightarrow> map_of metric_prober m = Some ''soa'' \<and> map_of query_help m = None"
    by (simp add: list_all_iff)
  have "list_all (\<lambda>(m, v). m \<in> set soa_numbers \<longrightarrow> map_of (soa_fields soa) m = Some v) (soa_metrics soa a b)"
    by (simp add: soa_numbers_def soa_metrics_def soa_fields_def)
  then show "m \<in> set soa_numbers \<Longrightarrow> (m, v) \<in> set (soa_metrics soa a b) \<Longrightarrow> map_of (soa_fields soa) m = Some v"
    by (auto simp: list_all_iff)
qed

text \<open>The series of a nameserver's SOA data.\<close>

definition soa_series :: "penv \<Rightarrow> string \<Rightarrow> nameserver \<Rightarrow> soa_rdata \<Rightarrow> (string \<times> string) set" where
  "soa_series e zone ns soa = {(''zone'', zone), (''nameserver'', Hostname ns), (''ip'', NS_IP ns), (''mname'', dns_Fqdn e (soa_Ns soa))}"

text \<open>Between two histories the nameserver was asked for the SOA record of the zone and answered with this one.\<close>

definition soa_received :: "penv \<Rightarrow> string \<Rightarrow> history \<Rightarrow> history \<Rightarrow> nameserver \<Rightarrow> soa_rdata \<Rightarrow> bool" where
  "soa_received e zone h h' ns soa \<longleftrightarrow> (\<exists>resp. first_SOA (rsp_Answer resp) = Some soa \<and>
     answered e h h' (SetQuestion (dns_Fqdn e zone) TypeSOA) (ResolveAddress e (NS_IP ns)) resp)"

lemma reported_number:
  assumes "soa_reported e zone nsSet c h h' ns r" and "m \<in> set soa_numbers" and "(m, v) \<in> set (Metrics r)"
  obtains soa where "soa_received e zone h h' ns soa" and "map_of (soa_fields soa) m = Some v"
    and "set (base_labels r) = soa_series e zone ns soa"
proof -
  obtain h1 x h2 dur where x: "ExchangeWithRetry e (SetQuestion (dns_Fqdn e zone) TypeSOA) (ResolveAddress e (NS_IP ns)) h1 = (x, h2)"
    and p: "prefix h h1" "prefix h2 h'" and r: "r = soa_result e zone ns nsSet (\<lambda>k. c k = Some True) dur x"
    using assms(1) unfolding soa_reported_def by blast
  then obtain resp soa where resp: "x = Inr resp" and soa: "first_SOA (rsp_Answer resp) = Some soa"
    using assms(3) by (auto simp: soa_result_def Let_def split: sum.splits option.splits)
  have "soa_received e zone h h' ns soa"
    unfolding soa_received_def using soa answered_before [OF p(1) answered_after [OF p(2) answered_retry [OF x [unfolded resp]]]] by blast
  moreover have "map_of (soa_fields soa) m = Some v"
    using assms(2,3) soa_number_facts(2) by (auto simp: r resp soa soa_result_def Let_def)
  moreover have "set (base_labels r) = soa_series e zone ns soa"
    by (auto simp: r resp soa soa_result_def Let_def base_labels_def soa_series_def)
  ultimately show thesis using that by blast
qed

lemma answered_from_start: "answered e h h' msg addr resp \<Longrightarrow> answered e [] h' msg addr resp"
  using answered_before [of "[]" h] by simp

text \<open>The results of a cycle are those of its goroutines.\<close>

lemma cycle_result_iff:
  assumes "distinct (cfg_Zones cfg)" and "Run cfg ce o' d sched c = Some (res, s)"
  shows "r \<in> set (cr_Results res) \<longleftrightarrow>
    (\<exists>i rs. i < length (cfg_Zones cfg) \<and> zone_outcome cfg ce i (first_look cfg ce c i) = Some rs \<and> r \<in> set rs)"
proof (rule Run_cases [OF assms(2)])
  fix t assume t: "t = run_schedule cfg ce sched (cycle_start cfg c)" "all_joined t"
    and res: "res = \<lparr>cr_Results = cs_results t, cr_Duration = d, cr_ZoneCount = length (cfg_Zones cfg)\<rparr>"
  have inv: "outcome_inv cfg ce c t" using outcome_inv_run [OF assms(1)] t(1) by simp
  have "r \<in> set (cr_Results res) \<longleftrightarrow> r \<in># mset (cs_results t)" by (simp add: res)
  also have "\<dots> \<longleftrightarrow> (\<exists>i < length (cfg_Zones cfg). r \<in> set (the (zone_outcome cfg ce i (first_look cfg ce c i))))"
    unfolding all_joined_outcomes(1) [OF inv t(2)] by (auto simp: set_mset_sum start_outcome_zone)
  also have "\<dots> \<longleftrightarrow> (\<exists>i rs. i < length (cfg_Zones cfg) \<and> zone_outcome cfg ce i (first_look cfg ce c i) = Some rs \<and> r \<in> set rs)"
    using all_joined_outcomes(2) [OF inv t(2)] by (fastforce simp: start_outcome_zone)
  finally show ?thesis .
qed

lemma cycle_outcome:
  assumes "distinct (cfg_Zones cfg)" and "Run cfg ce o' d sched c = Some (res, s)" and "i < length (cfg_Zones cfg)"
  shows "zone_outcome cfg ce i (first_look cfg ce c i) \<noteq> None"
proof (rule Run_cases [OF assms(2)])
  fix t assume t: "t = run_schedule cfg ce sched (cycle_start cfg c)" "all_joined t"
  have "outcome_inv cfg ce c t" using outcome_inv_run [OF assms(1)] t(1) by simp
  from all_joined_outcomes(2) [OF this t(2) assms(3)] show ?thesis by (simp add: start_outcome_zone)
qed

lemma soa_number_received:
  assumes "prometheus_rule accepts" and "envs_ok cfg ce" and "distinct (cfg_Zones cfg)"
    and "Run cfg ce o' d sched c = Some (res, s)" and "m \<in> set soa_numbers"
    and "value_of (BuildRegistry accepts (cr_Results res)) (''dnshealth_'' @ m, ls) = Some x"
  shows "\<exists>i ns soa v h. i < length (cfg_Zones cfg) \<and> zone_trace cfg ce i (first_look cfg ce c i) = Some h \<and>
    soa_received (client_env cfg (ce i)) (cfg_Zones cfg ! i) [] h ns soa \<and>
    ls = soa_series (client_env cfg (ce i)) (cfg_Zones cfg ! i) ns soa \<and>
    map_of (soa_fields soa) m = Some v \<and> x = Number v"
proof -
  have ok: "results_ok cfg (cr_Results res)" by (rule Run_results [OF assms(2,4)])
  have proper: "proper r" if "r \<in> set (cr_Results res)" for r
    using ok that by (simp add: results_ok_def result_ok_def list_all_iff)
  then have schema: "list_all schema_ok (cr_Results res)" by (simp add: list_all_iff proper_schema(1))
  note number = soa_number_facts(1) [OF assms(5)]
  obtain r g where r: "r \<in> set (cr_Results res)" and g: "(g, x) \<in> set (result_gauges r)" "g_name g = ''dnshealth_'' @ m" "set (g_labels g) = ls"
    by (rule registered_value [OF assms(1) schema assms(6)])
  obtain v where v: "(m, v) \<in> set (Metrics r)" "x = Number v" "g_labels g = base_labels r"
    by (rule metric_gauge [OF g(1,2) number [THEN conjunct2]])
  have "map_of metric_prober m = Some (Check r)"
    using proper [OF r] v(1) unfolding proper_def list_all_iff by blast
  then have check: "Check r = ''soa''" using number by simp
  obtain i rs where i: "i < length (cfg_Zones cfg)" and out: "zone_outcome cfg ce i (first_look cfg ce c i) = Some rs" "r \<in> set rs"
    using r unfolding cycle_result_iff [OF assms(3,4)] by blast
  let ?e = "client_env cfg (ce i)" and ?z = "cfg_Zones cfg ! i"
  obtain dlg h h' where run: "probe_delegation ?e ?z (z_order (ce i)) (z_probers (ce i)) dlg h = Some (rs, h')"
    and trace: "zone_trace cfg ce i (first_look cfg ce c i) = Some h'" by (rule outcome_probed [OF out])
  have "mset (z_probers (ce i)) = mset Probers" using assms(2) i by (simp add: envs_ok_def)
  then obtain nss rs1 h1 h2 where soa: "ProbeSOA ?e ?z nss dlg h1 = Some (Inr rs1, h2)" "r \<in> set rs1" "prefix h2 h'"
    by (rule probed_from [OF run _ out(2) check])
  obtain rs' k where rs': "Inr rs1 = (Inr rs' :: goerror + ProbeResult list)"
    and reported: "list_all2 (soa_reported ?e ?z (map (\<lambda>ns. hostKey ?e (Hostname ns)) (NSRecords dlg)) k h1 h2) nss rs'"
    by (rule ProbeSOA_reports [OF soa(1)])
  have "r \<in> set rs'" using rs' soa(2) by simp
  then obtain ns where ns: "soa_reported ?e ?z (map (\<lambda>ns. hostKey ?e (Hostname ns)) (NSRecords dlg)) k h1 h2 ns r"
    by (rule list_all2_in [OF reported])
  obtain soa' where s: "soa_received ?e ?z h1 h2 ns soa'" "map_of (soa_fields soa') m = Some v" "set (base_labels r) = soa_series ?e ?z ns soa'"
    by (rule reported_number [OF ns assms(5) v(1)])
  have "soa_received ?e ?z [] h' ns soa'"
    using s(1) unfolding soa_received_def using answered_after [OF soa(3)] answered_from_start by blast
  with i trace s(2,3) v(2,3) g(3) show ?thesis
    by (intro exI [of _ i] exI [of _ ns] exI [of _ soa'] exI [of _ v] exI [of _ h']) simp
qed

section \<open>No answer is lost\<close>

text \<open>The nameservers goroutine \<open>i\<close> probes.\<close>

definition zone_servers :: "config \<Rightarrow> (nat \<Rightarrow> zone_env) \<Rightarrow> nat \<Rightarrow> DelegationResult option \<Rightarrow> nameserver list option" where
  "zone_servers cfg ce i cached =
     (let zone = cfg_Zones cfg ! i; e = client_env cfg (ce i); (now, h) = timeNow e [];
          servers = (\<lambda>dlg h. map_option fst (discoverNameservers e (z_order (ce i)) dlg h)) in
      case cached of
        Some dlg \<Rightarrow> servers dlg h
      | None \<Rightarrow>
          (case WalkDelegation e zone h of
             None \<Rightarrow> None
           | Some (Inl err, h1) \<Rightarrow> Some []
           | Some (Inr dlg, h1) \<Rightarrow> servers dlg (snd (timeNow e h1))))"

text \<open>The exchange with the nameserver about the SOA record failed, or brought none.\<close>

definition soa_missed :: "penv \<Rightarrow> string \<Rightarrow> history \<Rightarrow> nameserver \<Rightarrow> bool" where
  "soa_missed e zone h ns \<longleftrightarrow> (\<exists>h1 x h2.
     ExchangeWithRetry e (SetQuestion (dns_Fqdn e zone) TypeSOA) (ResolveAddress e (NS_IP ns)) h1 = (x, h2) \<and> prefix h2 h \<and>
     (case x of Inl _ \<Rightarrow> True | Inr resp \<Rightarrow> first_SOA (rsp_Answer resp) = None))"

lemma zone_run:
  assumes "zone_outcome cfg ce i cached = Some rs" and "zone_servers cfg ce i cached = Some nss" and "nss \<noteq> []"
  obtains dlg h h' where "run_probers (client_env cfg (ce i)) (cfg_Zones cfg ! i) nss dlg (z_probers (ce i)) h = Some (rs, h')"
    and "zone_trace cfg ce i cached = Some h'"
  using assms by (auto simp: zone_outcome_def zone_trace_def zone_servers_def probe_delegation_def Let_def timeNow_def
      split: option.splits sum.splits)

lemma run_probers_each:
  assumes "run_probers e zone nss dlg probers h = Some (rs, h')" and "set probers \<subseteq> set Probers" and "(name, fn) \<in> set probers"
  shows "\<exists>rs1 h1 h2. fn e zone nss dlg h1 = Some (Inr rs1, h2) \<and> set rs1 \<subseteq> set rs \<and> prefix h2 h'"
  using assms
proof (induction probers arbitrary: h rs)
  case (Cons p probers)
  obtain name' fn' where p: "p = (name', fn')" by fastforce
  obtain x h1 where x: "fn' e zone nss dlg h = Some (x, h1)"
    using Cons.prems(1) by (auto simp: p split: option.splits)
  have mem: "(name', fn') \<in> set Probers" using Cons.prems(2) p by simp
  from prober_results_ok [OF mem x] obtain rs1 where ok: "x = Inr rs1" by blast
  then obtain rs2 where rest: "run_probers e zone nss dlg probers h1 = Some (rs2, h')" "rs = rs1 @ rs2"
    using Cons.prems(1) x by (auto simp: p split: option.splits)
  from Cons.prems(2) have sub: "set probers \<subseteq> set Probers" by simp
  show ?case
  proof (cases "(name, fn) = p")
    case True
    moreover have "prefix h1 h'" using run_probers_ok [OF rest(1) sub] by blast
    ultimately show ?thesis using x ok p rest(2) by (intro exI [of _ rs1] exI [of _ h] exI [of _ h1]) simp
  next
    case False
    then have "(name, fn) \<in> set probers" using Cons.prems(3) by simp
    from Cons.IH [OF rest(1) sub this] rest(2) show ?thesis by fastforce
  qed
qed simp

lemma reported_or_missed:
  assumes "soa_reported e zone nsSet c h h' ns r" and "prefix h' h''" and "m \<in> set soa_numbers"
  shows "soa_missed e zone h'' ns \<or>
    (\<exists>soa v. (m, v) \<in> set (Metrics r) \<and> set (base_labels r) = soa_series e zone ns soa)"
proof -
  obtain h1 x h2 dur where x: "ExchangeWithRetry e (SetQuestion (dns_Fqdn e zone) TypeSOA) (ResolveAddress e (NS_IP ns)) h1 = (x, h2)"
    and p: "prefix h2 h'" and r: "r = soa_result e zone ns nsSet (\<lambda>k. c k = Some True) dur x"
    using assms(1) unfolding soa_reported_def by blast
  show ?thesis
  proof (cases "\<exists>resp soa. x = Inr resp \<and> first_SOA (rsp_Answer resp) = Some soa")
    case True
    then obtain resp soa where resp: "x = Inr resp" and soa: "first_SOA (rsp_Answer resp) = Some soa" by blast
    have "m \<in> fst ` set (Metrics r)"
      using assms(3) by (auto simp: r resp soa soa_result_def soa_metrics_def soa_numbers_def Let_def)
    moreover have "set (base_labels r) = soa_series e zone ns soa"
      by (auto simp: r resp soa soa_result_def Let_def base_labels_def soa_series_def)
    ultimately show ?thesis by auto
  next
    case False
    then have "case x of Inl _ \<Rightarrow> True | Inr resp \<Rightarrow> first_SOA (rsp_Answer resp) = None" by (cases x) auto
    with x prefix_order.trans [OF p assms(2)] show ?thesis unfolding soa_missed_def by blast
  qed
qed

lemma soa_series_inject:
  "soa_series e zone ns soa = soa_series e' zone' ns' soa' \<Longrightarrow> zone = zone' \<and> ns = ns'"
proof -
  assume eq: "soa_series e zone ns soa = soa_series e' zone' ns' soa'"
  have "(''zone'', zone) \<in> soa_series e' zone' ns' soa'" "(''nameserver'', Hostname ns) \<in> soa_series e' zone' ns' soa'"
    "(''ip'', NS_IP ns) \<in> soa_series e' zone' ns' soa'"
    unfolding eq [symmetric] by (simp_all add: soa_series_def)
  then show ?thesis by (auto simp: soa_series_def)
qed

lemma registered_metric:
  assumes "prometheus_rule accepts" and "list_all schema_ok rs" and "r \<in> set rs" and "(m, v) \<in> set (Metrics r)"
  obtains x where "value_of (BuildRegistry accepts rs) (''dnshealth_'' @ m, set (base_labels r)) = Some x"
proof -
  let ?d = "\<lparr>g_name = ''dnshealth_'' @ m, g_help = [], g_labels = base_labels r\<rparr>"
  have "(?d, Number v) \<in> set (result_gauges r)" using assms(4) unfolding result_gauges_def by force
  then have "(?d, Number v) \<in> set (all_gauges rs)" using assms(3) by (auto simp: all_gauges_def)
  then have "value_of (all_gauges rs) (series ?d) \<noteq> None" unfolding value_of_None by force
  then show thesis
    using that unfolding BuildRegistry_first_wins [OF assms(1) schema_consistent [OF assms(2)]] by (auto simp: series_def)
qed

section \<open>Properties\<close>

text \<open>C2: no number is made up. Every SOA number (serial, refresh, retry, expire, minimum) that the registry of a
  finished cycle holds is that of a SOA record which a nameserver at the address of the series' \<open>ip\<close> label sent,
  in this cycle, in answer to the question for the SOA record of the zone of the series, whatever the
  schedule; the series has the labels of that zone, that nameserver and that record.\<close>

theorem exported_soa_received:
  assumes "prometheus_rule accepts" and "envs_ok cfg ce" and "distinct (cfg_Zones cfg)"
    and "Run cfg ce o' d sched c = Some (res, s)" and "m \<in> set soa_numbers"
    and "value_of (BuildRegistry accepts (cr_Results res)) (''dnshealth_'' @ m, ls) = Some x"
  shows "\<exists>i ns soa v h. i < length (cfg_Zones cfg) \<and> zone_trace cfg ce i (first_look cfg ce c i) = Some h \<and>
    soa_received (client_env cfg (ce i)) (cfg_Zones cfg ! i) [] h ns soa \<and>
    ls = soa_series (client_env cfg (ce i)) (cfg_Zones cfg ! i) ns soa \<and>
    map_of (soa_fields soa) m = Some v \<and> x = Number v"
  by (rule soa_number_received [OF assms])

text \<open>C3: no answer is lost. For every nameserver that a goroutine of a finished cycle probes, the registry holds each
  of the SOA numbers of a record the nameserver sent in this cycle, under the labels of the zone, the nameserver
  and that record - or the exchange with the nameserver about the SOA record failed or brought no such record.\<close>

theorem received_soa_exported:
  assumes "prometheus_rule accepts" and "envs_ok cfg ce" and "distinct (cfg_Zones cfg)"
    and "Run cfg ce o' d sched c = Some (res, s)" and "i < length (cfg_Zones cfg)"
    and "zone_servers cfg ce i (first_look cfg ce c i) = Some nss" and "ns \<in> set nss" and "m \<in> set soa_numbers"
  shows "\<exists>h. zone_trace cfg ce i (first_look cfg ce c i) = Some h \<and>
    (soa_missed (client_env cfg (ce i)) (cfg_Zones cfg ! i) h ns \<or>
     (\<exists>soa v. soa_received (client_env cfg (ce i)) (cfg_Zones cfg ! i) [] h ns soa \<and> map_of (soa_fields soa) m = Some v \<and>
        value_of (BuildRegistry accepts (cr_Results res)) (''dnshealth_'' @ m, soa_series (client_env cfg (ce i)) (cfg_Zones cfg ! i) ns soa) =
          Some (Number v)))"
proof -
  let ?e = "client_env cfg (ce i)" and ?z = "cfg_Zones cfg ! i"
  obtain rs where out: "zone_outcome cfg ce i (first_look cfg ce c i) = Some rs"
    using cycle_outcome [OF assms(3-5)] by blast
  obtain dlg h h' where run: "run_probers ?e ?z nss dlg (z_probers (ce i)) h = Some (rs, h')"
    and trace: "zone_trace cfg ce i (first_look cfg ce c i) = Some h'"
    by (rule zone_run [OF out assms(6)]) (use assms(7) in auto)
  have "mset (z_probers (ce i)) = mset Probers" using assms(2,5) by (simp add: envs_ok_def)
  then have sub: "set (z_probers (ce i)) = set Probers" by (rule mset_eq_setD)
  have "(''soa'', ProbeSOA) \<in> set (z_probers (ce i))" unfolding sub Probers_eq by simp
  from run_probers_each [OF run _ this] sub obtain rs1 h1 h2
    where soa: "ProbeSOA ?e ?z nss dlg h1 = Some (Inr rs1, h2)" and rs1: "set rs1 \<subseteq> set rs" and p: "prefix h2 h'" by auto
  obtain rs' k where rs': "Inr rs1 = (Inr rs' :: goerror + ProbeResult list)"
    and reported: "list_all2 (soa_reported ?e ?z (map (\<lambda>ns. hostKey ?e (Hostname ns)) (NSRecords dlg)) k h1 h2) nss rs'"
    by (rule ProbeSOA_reports [OF soa])
  obtain n where n: "n < length nss" "ns = nss ! n" using assms(7) by (auto simp: in_set_conv_nth)
  define r where "r = rs' ! n"
  have r: "r \<in> set rs'" using n(1) list_all2_lengthD [OF reported] by (simp add: r_def)
  have ns: "soa_reported ?e ?z (map (\<lambda>ns. hostKey ?e (Hostname ns)) (NSRecords dlg)) k h1 h2 ns r"
    using list_all2_nthD [OF reported n(1)] by (simp add: r_def n(2))
  from reported_or_missed [OF ns p assms(8)] consider "soa_missed ?e ?z h' ns"
    | soa v where "(m, v) \<in> set (Metrics r)" "set (base_labels r) = soa_series ?e ?z ns soa" by blast
  then show ?thesis
  proof cases
    case 2
    have mem: "r \<in> set (cr_Results res)"
      unfolding cycle_result_iff [OF assms(3,4)] using out rs1 rs' r assms(5) by blast
    have "list_all schema_ok (cr_Results res)"
      using Run_results [OF assms(2,4)] by (auto simp: results_ok_def result_ok_def list_all_iff proper_schema(1))
    then obtain x where x: "value_of (BuildRegistry accepts (cr_Results res)) (''dnshealth_'' @ m, soa_series ?e ?z ns soa) = Some x"
      using registered_metric [OF assms(1) _ mem 2(1)] unfolding 2(2) by blast
    from soa_number_received [OF assms(1-4,8) x] obtain j ns' soa' v' g where j: "j < length (cfg_Zones cfg)"
      "zone_trace cfg ce j (first_look cfg ce c j) = Some g"
      and got: "soa_received (client_env cfg (ce j)) (cfg_Zones cfg ! j) [] g ns' soa'" "map_of (soa_fields soa') m = Some v'" "x = Number v'"
      and same: "soa_series ?e ?z ns soa = soa_series (client_env cfg (ce j)) (cfg_Zones cfg ! j) ns' soa'" by blast
    from soa_series_inject [OF same] have "?z = cfg_Zones cfg ! j" "ns' = ns" by simp_all
    then have ji: "j = i" using assms(3,5) j(1) by (simp add: nth_eq_iff_index_eq)
    have "g = h'" using j(2) trace ji by simp
    with got x same trace ji \<open>ns' = ns\<close> show ?thesis by auto
  qed (use trace in blast)
qed

text \<open>One zone, whose delegation is cached, with one nameserver that has a SOA record.\<close>

definition serial_net :: "dns_msg \<Rightarrow> string \<Rightarrow> goerror + response" where
  "serial_net msg addr =
     (if msg_type msg = TypeSOA
      then Inr (rsp True [RR_SOA ''z.'' \<lparr>soa_Ns = ''n.z.'', soa_Serial = 7, soa_Refresh = 1, soa_Retry = 2,
        soa_Expire = 3, soa_Minttl = 4\<rparr>] [] [])
      else example_net msg addr)"

definition serial_cfg :: config where
  "serial_cfg = example_cfg\<lparr>cfg_Zones := [''z'']\<rparr>"

definition serial_ce :: "nat \<Rightarrow> zone_env" where
  "serial_ce = (\<lambda>_. \<lparr>z_env = static_env serial_net, z_order = rev, z_probers = rev Probers\<rparr>)"

definition serial_delegation :: DelegationResult where
  "serial_delegation = \<lparr>ParentServer = ''r'', NSRecords = [\<lparr>Hostname = ''n.z.'', NS_IP = ''7.0.0.1''\<rparr>],
     Glue = [\<lparr>Hostname = ''n.z.'', NS_IP = ''7.0.0.1''\<rparr>]\<rparr>"

definition serial_cache :: "DelegationResult DelegationCache" where
  "serial_cache = cache_Set (NewDelegationCache 1800) ''z'' serial_delegation 0"

text \<open>Whenever it is asked, the nameserver answers with its record.\<close>

lemma serial_asked:
  "fst (ExchangeWithRetry (client_env serial_cfg (serial_ce 0)) (SetQuestion ''z.'' TypeSOA) addr h) = serial_net (SetQuestion ''z.'' TypeSOA) addr"
  "answered (client_env serial_cfg (serial_ce 0)) h h' (SetQuestion ''z.'' TypeSOA) addr resp \<Longrightarrow>
     serial_net (SetQuestion ''z.'' TypeSOA) addr = Inr resp"
  by (auto simp: answered_def ExchangeWithRetry_def ExchangeContext_def client_env_def serial_ce_def static_env_def serial_net_def SetQuestion_def)

lemma serial_env: "dns_Fqdn (client_env serial_cfg (serial_ce 0)) ''z'' = ''z.''" "ResolveAddress (client_env serial_cfg (serial_ce 0)) a = a"
  "dns_Fqdn (client_env serial_cfg (serial_ce 0)) ''n.z.'' = ''n.z.''"
  by (simp_all add: client_env_def serial_ce_def static_env_def)

lemma serial_look: "first_look serial_cfg serial_ce serial_cache 0 = Some serial_delegation"
  by code_simp

lemma serial_discovered:
  "\<exists>h1. discoverNameservers (client_env serial_cfg (serial_ce 0)) rev serial_delegation [EvNow] = Some (NSRecords serial_delegation, h1)"
proof -
  have "map_option fst (discoverNameservers (client_env serial_cfg (serial_ce 0)) rev serial_delegation [EvNow]) =
      Some (NSRecords serial_delegation)" by code_simp
  then show ?thesis by auto
qed

lemma serial_one: "cfg_Zones serial_cfg = [''z'']"
  by (simp add: serial_cfg_def)

lemma serial_envs: "envs_ok serial_cfg serial_ce"
  by (simp add: envs_ok_def serial_ce_def static_env_def)

lemma serial_distinct: "distinct (cfg_Zones serial_cfg)"
  by (simp add: serial_one)

lemma serial_run:
  obtains res s where "Run serial_cfg serial_ce example_orders 7 [0, 0, 0, 0, 0] serial_cache = Some (res, s)"
proof -
  have "\<forall>i < length (cfg_Zones serial_cfg). 5 \<le> count_list [0, 0, 0, 0, 0] i" by (simp add: serial_one)
  from cycle_joins [OF serial_envs this, of serial_cache] that show thesis by (simp add: Run_def Let_def) (metis surj_pair)
qed

lemma serial_outcome:
  "\<exists>rs r. zone_outcome serial_cfg serial_ce 0 (first_look serial_cfg serial_ce serial_cache 0) = Some rs \<and> r \<in> set rs \<and>
     (''soa_serial'', 7) \<in> set (Metrics r) \<and>
     set (base_labels r) = {(''zone'', ''z''), (''nameserver'', ''n.z.''), (''ip'', ''7.0.0.1''), (''mname'', ''n.z.'')}"
proof -
  let ?e = "client_env serial_cfg (serial_ce 0)"
  obtain h1 where nss: "discoverNameservers ?e rev serial_delegation [EvNow] = Some (NSRecords serial_delegation, h1)"
    using serial_discovered by blast
  have roots: "RootServers ?e \<noteq> []" by (simp add: serial_ce_def static_env_def)
  obtain out h2 where soa: "ProbeSOA ?e ''z'' (NSRecords serial_delegation) serial_delegation h1 = Some (out, h2)"
    using soa.no_panic [OF roots, of "''z''" "NSRecords serial_delegation" serial_delegation h1] by auto
  obtain rs k where out: "out = Inr rs" and reported: "list_all2 (soa_reported ?e ''z''
      (map (\<lambda>ns. hostKey ?e (Hostname ns)) (NSRecords serial_delegation)) k h1 h2) (NSRecords serial_delegation) rs"
    by (rule ProbeSOA_reports [OF soa])
  then obtain r where rs: "rs = [r]" and r: "soa_reported ?e ''z''
      (map (\<lambda>ns. hostKey ?e (Hostname ns)) (NSRecords serial_delegation)) k h1 h2 \<lparr>Hostname = ''n.z.'', NS_IP = ''7.0.0.1''\<rparr> r"
    by (auto simp: serial_delegation_def list_all2_Cons1)
  from r obtain h3 x h4 dur where x: "ExchangeWithRetry ?e (SetQuestion (dns_Fqdn ?e ''z'') TypeSOA) (ResolveAddress ?e ''7.0.0.1'') h3 = (x, h4)"
    and result: "r = soa_result ?e ''z'' \<lparr>Hostname = ''n.z.'', NS_IP = ''7.0.0.1''\<rparr>
      (map (\<lambda>ns. hostKey ?e (Hostname ns)) (NSRecords serial_delegation)) (\<lambda>l. k l = Some True) dur x"
    unfolding soa_reported_def by auto
  have "x = serial_net (SetQuestion ''z.'' TypeSOA) ''7.0.0.1''" using serial_asked(1) [of "''7.0.0.1''" h3] x by (simp add: serial_env)
  then have metrics: "(''soa_serial'', 7) \<in> set (Metrics r)"
    and labels: "set (base_labels r) = {(''zone'', ''z''), (''nameserver'', ''n.z.''), (''ip'', ''7.0.0.1''), (''mname'', ''n.z.'')}"
    by (auto simp: result serial_net_def SetQuestion_def rsp_def soa_result_def soa_metrics_def Let_def base_labels_def
        client_env_def serial_ce_def static_env_def)
  have probers: "rev Probers = (''soa'', ProbeSOA) # rev (butlast Probers)" "set (rev (butlast Probers)) \<subseteq> set Probers"
    by (auto simp: Probers_eq)
  obtain rest h5 where "run_probers ?e ''z'' (NSRecords serial_delegation) serial_delegation (rev (butlast Probers)) h2 = Some (rest, h5)"
    using run_probers_runs [OF roots probers(2)] by fastforce
  then have run: "run_probers ?e ''z'' (NSRecords serial_delegation) serial_delegation (rev Probers) h1 = Some (r # rest, h5)"
    using soa by (simp add: probers(1) out rs)
  have "zone_outcome serial_cfg serial_ce 0 (Some serial_delegation) = Some (r # rest)"
    using nss run by (simp add: zone_outcome_def probe_delegation_def timeNow_def serial_cfg_def serial_delegation_def serial_ce_def Let_def)
  with serial_look metrics labels show ?thesis by auto
qed

lemma exported_soa_received_witness:
  "\<exists>res s x. Run serial_cfg serial_ce example_orders 7 [0, 0, 0, 0, 0] serial_cache = Some (res, s) \<and>
     value_of (BuildRegistry documented_accepts (cr_Results res)) (''dnshealth_soa_serial'',
       {(''zone'', ''z''), (''nameserver'', ''n.z.''), (''ip'', ''7.0.0.1''), (''mname'', ''n.z.'')}) = Some x \<and>
     (\<exists>ns soa v h. soa_received (client_env serial_cfg (serial_ce 0)) ''z'' [] h ns soa \<and>
        map_of (soa_fields soa) ''soa_serial'' = Some v \<and> x = Number v)"
proof -
  obtain res s where run: "Run serial_cfg serial_ce example_orders 7 [0, 0, 0, 0, 0] serial_cache = Some (res, s)"
    by (rule serial_run)
  obtain rs r where r: "zone_outcome serial_cfg serial_ce 0 (first_look serial_cfg serial_ce serial_cache 0) = Some rs" "r \<in> set rs"
    and serial: "(''soa_serial'', 7) \<in> set (Metrics r)"
    and labels: "set (base_labels r) = {(''zone'', ''z''), (''nameserver'', ''n.z.''), (''ip'', ''7.0.0.1''), (''mname'', ''n.z.'')}"
    using serial_outcome by blast
  have mem: "r \<in> set (cr_Results res)"
    unfolding cycle_result_iff [OF serial_distinct run] using r serial_one by (intro exI [of _ 0]) auto
  have schema: "list_all schema_ok (cr_Results res)"
    using Run_results [OF serial_envs run] by (auto simp: results_ok_def result_ok_def list_all_iff dest: proper_schema(1))
  obtain x where x: "value_of (BuildRegistry documented_accepts (cr_Results res))
      (''dnshealth_'' @ ''soa_serial'', {(''zone'', ''z''), (''nameserver'', ''n.z.''), (''ip'', ''7.0.0.1''), (''mname'', ''n.z.'')}) = Some x"
    using registered_metric [OF documented_accepts_rule schema mem serial] unfolding labels by blast
  have "''soa_serial'' \<in> set soa_numbers" by (simp add: soa_numbers_def)
  from exported_soa_received [OF documented_accepts_rule serial_envs serial_distinct run this x] run x serial_one show ?thesis by auto
qed

lemma received_soa_exported_witness:
  "\<exists>res s. Run serial_cfg serial_ce example_orders 7 [0, 0, 0, 0, 0] serial_cache = Some (res, s) \<and>
     value_of (BuildRegistry documented_accepts (cr_Results res)) (''dnshealth_soa_serial'',
       {(''zone'', ''z''), (''nameserver'', ''n.z.''), (''ip'', ''7.0.0.1''), (''mname'', ''n.z.'')}) = Some (Number 7)"
proof -
  let ?e = "client_env serial_cfg (serial_ce 0)" and ?ns = "\<lparr>Hostname = ''n.z.'', NS_IP = ''7.0.0.1''\<rparr>"
  obtain res s where run: "Run serial_cfg serial_ce example_orders 7 [0, 0, 0, 0, 0] serial_cache = Some (res, s)"
    by (rule serial_run)
  have "zone_servers serial_cfg serial_ce 0 (first_look serial_cfg serial_ce serial_cache 0) = Some [?ns]"
    using serial_look serial_discovered by (auto simp: zone_servers_def timeNow_def serial_one Let_def serial_delegation_def serial_ce_def)
  from received_soa_exported [OF documented_accepts_rule serial_envs serial_distinct run _ this, of ?ns "''soa_serial''"]
  obtain h where "soa_missed ?e ''z'' h ?ns \<or>
     (\<exists>soa v. soa_received ?e ''z'' [] h ?ns soa \<and> map_of (soa_fields soa) ''soa_serial'' = Some v \<and>
        value_of (BuildRegistry documented_accepts (cr_Results res)) (''dnshealth_soa_serial'', soa_series ?e ''z'' ?ns soa) = Some (Number v))"
    by (auto simp: serial_one soa_numbers_def)
  moreover have "\<not> soa_missed ?e ''z'' h ?ns"
    using serial_asked(1) unfolding soa_missed_def serial_env
    by (auto simp: serial_net_def SetQuestion_def rsp_def split: sum.splits dest!: arg_cong [where f = fst])
  ultimately obtain soa v where got: "soa_received ?e ''z'' [] h ?ns soa" "map_of (soa_fields soa) ''soa_serial'' = Some v"
    and val: "value_of (BuildRegistry documented_accepts (cr_Results res)) (''dnshealth_soa_serial'', soa_series ?e ''z'' ?ns soa) = Some (Number v)"
    by blast
  from got(1) obtain resp where first: "first_SOA (rsp_Answer resp) = Some soa"
    and "answered ?e [] h (SetQuestion ''z.'' TypeSOA) ''7.0.0.1'' resp"
    unfolding soa_received_def serial_env by auto
  from serial_asked(2) [OF this(2)] first
  have "soa = \<lparr>soa_Ns = ''n.z.'', soa_Serial = 7, soa_Refresh = 1, soa_Retry = 2, soa_Expire = 3, soa_Minttl = 4\<rparr>"
    by (auto simp: serial_net_def SetQuestion_def rsp_def)
  with got(2) val run show ?thesis by (auto simp: soa_fields_def soa_series_def serial_env)
qed

end
