(* ===== verification/Exporter.thy ===== *)
theory Exporter
  imports Cycle
begin

text \<open>
  The exporter process, \<^verbatim>\<open>main.go\<close>: the atomic pointers to the configuration and to the registry of
  the last cycle, the two variables of package \<open>prober\<close> a configuration sets, the delegation
  cache, the probe loop and the HTTP and signal handlers, as a state and the events that change it. A
  reload can come between any two steps of the goroutines of a running cycle. The file system, the
  YAML decoder and the Prometheus registry are parameters; the pages, listening and
  shutdown are in \<open>Exporter_Process\<close>.
\<close>

section \<open>The process\<close>

text \<open>The probe loop: before and during its first cycle, then driven by the ticker, or dead from a panic.\<close>

datatype probe_loop = Booting | FirstCycle | Ticking | Crashed

record exporter =
  x_currentConfig :: config
  x_RootServers :: "string list"
  x_ResolveAddress :: "string \<Rightarrow> string"
  x_cache :: "DelegationResult DelegationCache"
  x_cycleRegistry :: "registry option"
  x_ops :: "metric_op list"
  x_loop :: probe_loop
  x_interval :: int
  x_running :: "(config \<times> cycle_state) option"
  x_started :: nat

text \<open>From a loaded configuration to the start of the probe loop.\<close>

definition startup :: "config \<Rightarrow> exporter" where
  "startup cfg = \<lparr>x_currentConfig = cfg,
     x_RootServers = (if cfg_RootServers cfg \<noteq> [] then cfg_RootServers cfg else DefaultRootServers),
     x_ResolveAddress = (if cfg_AddressOverrides cfg \<noteq> [] then cfg_ResolveAddress cfg else defaultResolveAddress),
     x_cache = NewDelegationCache (cfg_DelegationCacheTTL cfg), x_cycleRegistry = None, x_ops = [],
     x_loop = Booting, x_interval = cfg_ProbeInterval cfg, x_running = None, x_started = 0\<rparr>"

section \<open>Reload\<close>

definition applyReloadedConfig :: "config \<Rightarrow> exporter \<Rightarrow> exporter" where
  "applyReloadedConfig newCfg x = x\<lparr>x_currentConfig := newCfg, x_ResolveAddress := cfg_ResolveAddress newCfg,
     x_RootServers := (if cfg_RootServers newCfg \<noteq> [] then cfg_RootServers newCfg else DefaultRootServers),
     x_cache := cache_Invalidate (x_cache x)\<rparr>"

text \<open>A reply: the status, and for a scrape what was gathered from the two registries.\<close>

datatype http_reply = Reply nat | Gathered "metric_op list" registry

definition reload_handler ::
  "string \<Rightarrow> goerror + 'bytes \<Rightarrow> ('bytes \<Rightarrow> goerror + config) \<Rightarrow> exporter \<Rightarrow> http_reply \<times> exporter" where
  "reload_handler verb file' unmarshal x =
     (if verb \<noteq> ''POST'' then (Reply 405, x)
      else (case Load file' unmarshal of
          Inl err \<Rightarrow> (Reply 500, x)
        | Inr newCfg \<Rightarrow> (Reply 200, applyReloadedConfig newCfg x)))"

definition sighup_handler ::
  "goerror + 'bytes \<Rightarrow> ('bytes \<Rightarrow> goerror + config) \<Rightarrow> exporter \<Rightarrow> exporter" where
  "sighup_handler file' unmarshal x =
     (case Load file' unmarshal of Inl err \<Rightarrow> x | Inr newCfg \<Rightarrow> applyReloadedConfig newCfg x)"

section \<open>Scrape\<close>

text \<open>What has been done to the permanent registry, by the cycle that runs too.\<close>

definition permanent_ops :: "exporter \<Rightarrow> metric_op list" where
  "permanent_ops x = x_ops x @ (case x_running x of None \<Rightarrow> [] | Some (cfg, s) \<Rightarrow> cs_ops s)"

definition metrics_handler :: "exporter \<Rightarrow> http_reply" where
  "metrics_handler x = (case x_cycleRegistry x of None \<Rightarrow> Reply 503 | Some reg \<Rightarrow> Gathered (permanent_ops x) reg)"

section \<open>The probe loop\<close>

text \<open>\<open>runCycle\<close> up to the start of the zones: skipped while a cycle holds the channel's slot.\<close>

definition runCycle_begin :: "exporter \<Rightarrow> exporter" where
  "runCycle_begin x =
     (case x_running x of
        Some _ \<Rightarrow> x
      | None \<Rightarrow> (let cfg = x_currentConfig x in
          x\<lparr>x_running := Some (cfg, cycle_start cfg (x_cache x)), x_started := Suc (x_started x)\<rparr>))"

text \<open>A goroutine sees the two variables of package \<open>prober\<close> as they are when it steps.\<close>

definition current_envs :: "(nat \<Rightarrow> nat \<Rightarrow> zone_env) \<Rightarrow> exporter \<Rightarrow> nat \<Rightarrow> zone_env" where
  "current_envs base x i = (let ze = base (x_started x) i in
     ze\<lparr>z_env := (z_env ze)\<lparr>RootServers := x_RootServers x, ResolveAddress := x_ResolveAddress x\<rparr>\<rparr>)"

definition goroutine_turn :: "(nat \<Rightarrow> nat \<Rightarrow> zone_env) \<Rightarrow> nat \<Rightarrow> exporter \<Rightarrow> exporter" where
  "goroutine_turn base i x =
     (case x_running x of
        None \<Rightarrow> x
      | Some (cfg, s) \<Rightarrow>
          (let s' = zone_step cfg (current_envs base x) i (s\<lparr>cs_cache := x_cache x\<rparr>) in
           x\<lparr>x_running := Some (cfg, s'), x_cache := cs_cache s'\<rparr>))"

text \<open>
  The end of \<open>runCycle\<close>: aggregate, build the registry, publish it, release the slot. After the first
  cycle the loop creates its ticker, which panics if the interval is not positive.
\<close>

definition runCycle_end ::
  "(gauge_desc list \<Rightarrow> gauge_desc \<Rightarrow> bool) \<Rightarrow> map_orders \<Rightarrow> int \<Rightarrow> exporter \<Rightarrow> exporter" where
  "runCycle_end accepts o' duration x =
     (case x_running x of
        None \<Rightarrow> x
      | Some (cfg, s) \<Rightarrow>
          if all_joined s then
            (let (result, s') = cycle_finish cfg o' duration s in
             x\<lparr>x_cycleRegistry := Some (BuildRegistry accepts (cr_Results result)), x_ops := x_ops x @ cs_ops s',
               x_running := None,
               x_loop := (if x_loop x = FirstCycle then (if x_interval x \<le> 0 then Crashed else Ticking) else x_loop x)\<rparr>)
          else x)"

datatype 'bytes x_event =
  Launch
| Tick
| Turn nat
| Finish map_orders int
| HttpReload string "goerror + 'bytes"
| Sighup "goerror + 'bytes"

definition exporter_step ::
  "(gauge_desc list \<Rightarrow> gauge_desc \<Rightarrow> bool) \<Rightarrow> (nat \<Rightarrow> nat \<Rightarrow> zone_env) \<Rightarrow> ('bytes \<Rightarrow> goerror + config) \<Rightarrow>
   'bytes x_event \<Rightarrow> exporter \<Rightarrow> exporter" where
  "exporter_step accepts base unmarshal ev x =
     (if x_loop x = Crashed then x
      else (case ev of
          Launch \<Rightarrow> if x_loop x = Booting then runCycle_begin (x\<lparr>x_loop := FirstCycle\<rparr>) else x
        | Tick \<Rightarrow> if x_loop x = Ticking then runCycle_begin x else x
        | Turn i \<Rightarrow> goroutine_turn base i x
        | Finish o' duration \<Rightarrow> runCycle_end accepts o' duration x
        | HttpReload verb file' \<Rightarrow> snd (reload_handler verb file' unmarshal x)
        | Sighup file' \<Rightarrow> sighup_handler file' unmarshal x))"

text \<open>What a process can reach that was started with a configuration file that loads.\<close>

inductive reachable ::
  "(gauge_desc list \<Rightarrow> gauge_desc \<Rightarrow> bool) \<Rightarrow> (nat \<Rightarrow> nat \<Rightarrow> zone_env) \<Rightarrow> ('bytes \<Rightarrow> goerror + config) \<Rightarrow> exporter \<Rightarrow> bool"
  for accepts base unmarshal where
  start: "Load file' unmarshal = Inr cfg \<Longrightarrow> reachable accepts base unmarshal (startup cfg)"
| step: "reachable accepts base unmarshal x \<Longrightarrow> reachable accepts base unmarshal (exporter_step accepts base unmarshal ev x)"

section \<open>Invariants of the process\<close>

definition globals_match :: "exporter \<Rightarrow> bool" where
  "globals_match x \<longleftrightarrow> (let cfg = x_currentConfig x in
     x_RootServers x = (if cfg_RootServers cfg \<noteq> [] then cfg_RootServers cfg else DefaultRootServers) \<and>
     x_ResolveAddress x = cfg_ResolveAddress cfg)"

definition running_ok :: "exporter \<Rightarrow> bool" where
  "running_ok x \<longleftrightarrow> (case x_running x of
     None \<Rightarrow> x_loop x \<noteq> FirstCycle
   | Some (cfg, s) \<Rightarrow> x_loop x \<in> {FirstCycle, Ticking} \<and> usable_config cfg \<and> cycle_inv cfg s \<and> no_panic_yet s)"

definition exporter_inv :: "exporter \<Rightarrow> bool" where
  "exporter_inv x \<longleftrightarrow> usable_config (x_currentConfig x) \<and> globals_match x \<and> running_ok x \<and>
     (x_cycleRegistry x = None \<longleftrightarrow> x_loop x \<in> {Booting, FirstCycle}) \<and> (x_loop x = Crashed \<longrightarrow> x_interval x \<le> 0)"

definition base_ok :: "(nat \<Rightarrow> nat \<Rightarrow> zone_env) \<Rightarrow> bool" where
  "base_ok base \<longleftrightarrow> (\<forall>k i. mset (z_probers (base k i)) = mset Probers)"

lemma default_resolve: "cfg_AddressOverrides cfg = [] \<Longrightarrow> cfg_ResolveAddress cfg = defaultResolveAddress"
  by (simp add: fun_eq_iff cfg_ResolveAddress_def defaultResolveAddress_def)

lemma startup_inv: "usable_config cfg \<Longrightarrow> exporter_inv (startup cfg)"
  by (simp add: exporter_inv_def startup_def globals_match_def running_ok_def default_resolve Let_def)

lemma reload_inv: "exporter_inv x \<Longrightarrow> usable_config cfg \<Longrightarrow> exporter_inv (applyReloadedConfig cfg x)"
  by (auto simp: exporter_inv_def applyReloadedConfig_def globals_match_def running_ok_def Let_def split: option.splits)

lemma no_panic_start: "no_panic_yet (cycle_start cfg c)"
  by (simp add: no_panic_yet_def cycle_start_def list_all_iff)

lemma begin_inv:
  assumes "exporter_inv x" and "x_loop x = Ticking"
  shows "exporter_inv (runCycle_begin x)"
  using assms
  by (auto simp: exporter_inv_def runCycle_begin_def globals_match_def running_ok_def Let_def cycle_inv_start
      no_panic_start split: option.splits)

lemma launch_inv:
  assumes "exporter_inv x" and "x_loop x = Booting"
  shows "exporter_inv (runCycle_begin (x\<lparr>x_loop := FirstCycle\<rparr>))"
proof -
  have "x_running x = None" using assms by (auto simp: exporter_inv_def running_ok_def split: option.splits)
  then show ?thesis using assms
    by (auto simp: exporter_inv_def runCycle_begin_def globals_match_def running_ok_def Let_def cycle_inv_start
        no_panic_start)
qed

lemma current_envs_ok:
  assumes "base_ok base" and "globals_match x"
  shows "envs_ok cfg (current_envs base x)"
proof -
  have "x_RootServers x \<noteq> []" using assms(2) by (simp add: globals_match_def Let_def DefaultRootServers_def)
  then show ?thesis using assms(1) by (simp add: envs_ok_def current_envs_def base_ok_def Let_def)
qed

lemma zone_step_keeps:
  assumes "envs_ok cfg ce" and "cycle_inv cfg s" and "no_panic_yet s"
  shows "cycle_inv cfg (zone_step cfg ce i s) \<and> no_panic_yet (zone_step cfg ce i s)"
  using zone_step_refines [of cfg i s ce] cycle_inv_step [OF assms(1,2)] no_panic_step [OF assms(1,3)] assms(2,3)
  by (metis (full_types))

lemma cycle_inv_cache [simp]: "cycle_inv cfg (s\<lparr>cs_cache := c\<rparr>) = cycle_inv cfg s"
  "no_panic_yet (s\<lparr>cs_cache := c\<rparr>) = no_panic_yet s"
  by (simp_all add: cycle_inv_def no_panic_yet_def)

lemma turn_inv:
  assumes "base_ok base" and "exporter_inv x"
  shows "exporter_inv (goroutine_turn base i x)"
proof (cases "x_running x")
  case None
  then show ?thesis using assms(2) by (simp add: goroutine_turn_def)
next
  case (Some r)
  obtain cfg s where r: "r = (cfg, s)" by fastforce
  have "cycle_inv cfg s" "no_panic_yet s" and g: "globals_match x"
    using assms(2) Some by (simp_all add: r exporter_inv_def running_ok_def)
  with zone_step_keeps [OF current_envs_ok [OF assms(1) g], of cfg "s\<lparr>cs_cache := x_cache x\<rparr>" i]
  show ?thesis using assms(2) Some
    by (simp add: goroutine_turn_def r Let_def exporter_inv_def globals_match_def running_ok_def)
qed

lemma end_inv:
  assumes "exporter_inv x"
  shows "exporter_inv (runCycle_end accepts o' d x)"
proof (cases "x_running x")
  case None
  then show ?thesis using assms by (simp add: runCycle_end_def)
next
  case (Some r)
  obtain cfg s where r: "r = (cfg, s)" by fastforce
  then have "x_loop x \<in> {FirstCycle, Ticking}" using assms Some by (simp add: exporter_inv_def running_ok_def)
  then show ?thesis using assms Some
    by (auto simp: runCycle_end_def r exporter_inv_def globals_match_def running_ok_def cycle_finish_def)
qed

lemma exporter_step_inv:
  assumes "base_ok base" and "exporter_inv x"
  shows "exporter_inv (exporter_step accepts base unmarshal ev x)"
  using assms(2)
  by (cases ev)
    (auto simp: exporter_step_def reload_handler_def sighup_handler_def dest: load_usable
      intro: launch_inv begin_inv turn_inv [OF assms(1)] end_inv reload_inv split: sum.split)

lemma reachable_inv:
  assumes "base_ok base" and "reachable accepts base unmarshal x"
  shows "exporter_inv x"
  using assms(2) by induction (auto intro: startup_inv load_usable exporter_step_inv [OF assms(1)])

lemma reachable_steps:
  "reachable accepts base unmarshal x \<Longrightarrow> reachable accepts base unmarshal (fold (exporter_step accepts base unmarshal) evs x)"
  by (induction evs arbitrary: x) (auto intro: reachable.step)

section \<open>The running cycle ends\<close>

definition turns :: "(nat \<Rightarrow> nat \<Rightarrow> zone_env) \<Rightarrow> nat list \<Rightarrow> exporter \<Rightarrow> exporter" where
  "turns base sched x = fold (goroutine_turn base) sched x"

lemma steps_are_turns:
  "x_loop x \<noteq> Crashed \<Longrightarrow> fold (exporter_step accepts base unmarshal) (map Turn sched) x = turns base sched x \<and>
     x_loop (turns base sched x) = x_loop x"
proof (induction sched arbitrary: x)
  case (Cons i sched)
  have "x_loop (goroutine_turn base i x) = x_loop x"
    by (simp add: goroutine_turn_def Let_def split: option.split prod.split)
  with Cons.IH [of "goroutine_turn base i x"] Cons.prems show ?case
    by (simp add: exporter_step_def turns_def)
qed (simp add: turns_def)

lemma turns_progress:
  assumes "x_running x = Some (cfg, s)" and "i < length (cs_phases s)" and "i < length (cfg_Zones cfg)"
  shows "\<exists>s'. x_running (turns base sched x) = Some (cfg, s') \<and> length (cs_phases s') = length (cs_phases s) \<and>
    steps_left (cs_phases s' ! i) \<le> steps_left (cs_phases s ! i) - count_list sched i"
  using assms
proof (induction sched arbitrary: x s)
  case (Cons j sched)
  let ?s1 = "zone_step cfg (current_envs base x) j (s\<lparr>cs_cache := x_cache x\<rparr>)"
  have run: "x_running (goroutine_turn base j x) = Some (cfg, ?s1)"
    using Cons.prems(1) by (simp add: goroutine_turn_def Let_def)
  have one: "run_schedule cfg (current_envs base x) [j] (s\<lparr>cs_cache := x_cache x\<rparr>) = ?s1"
    by (simp add: run_schedule_def)
  have len: "length (cs_phases ?s1) = length (cs_phases s)"
    using run_schedule_length [of cfg "current_envs base x" "[j]" "s\<lparr>cs_cache := x_cache x\<rparr>"] by (simp add: one)
  have "steps_left (cs_phases ?s1 ! i) \<le> steps_left (cs_phases s ! i) - count_list [j] i"
    using schedule_progress [of i "s\<lparr>cs_cache := x_cache x\<rparr>" cfg "current_envs base x" "[j]"] Cons.prems(2,3)
    by (simp add: one)
  moreover obtain s' where "x_running (turns base sched (goroutine_turn base j x)) = Some (cfg, s')"
    "length (cs_phases s') = length (cs_phases ?s1)"
    "steps_left (cs_phases s' ! i) \<le> steps_left (cs_phases ?s1 ! i) - count_list sched i"
    using Cons.IH [OF run] Cons.prems(2,3) len by metis
  ultimately show ?case using len by (intro exI [of _ s']) (auto simp: turns_def split: if_splits)
qed (simp add: turns_def)

lemma turns_join:
  assumes "base_ok base" and "exporter_inv x" and "x_running x = Some (cfg, s)"
    and "\<forall>i < length (cfg_Zones cfg). 5 \<le> count_list sched i"
  shows "\<exists>s'. x_running (turns base sched x) = Some (cfg, s') \<and> all_joined s'"
proof -
  have inv: "exporter_inv (turns base sched x)"
    unfolding turns_def using assms(2) by (induction sched arbitrary: x) (auto intro: turn_inv [OF assms(1)])
  have len: "length (cs_phases s) = length (cfg_Zones cfg)" and ne: "cfg_Zones cfg \<noteq> []"
    using assms(2,3) by (auto simp: exporter_inv_def running_ok_def cycle_inv_def phases_ok_def usable_config_def)
  have five: "steps_left p \<le> 5" for p by (cases p) simp_all
  obtain s' where s': "x_running (turns base sched x) = Some (cfg, s')" "length (cs_phases s') = length (cs_phases s)"
    using turns_progress [OF assms(3), of 0] len ne by auto
  have "cs_phases s' ! i = Joined" if "i < length (cfg_Zones cfg)" for i
  proof -
    have "steps_left (cs_phases s' ! i) \<le> steps_left (cs_phases s ! i) - count_list sched i"
      using turns_progress [OF assms(3), of i base sched] that len s' by auto
    then have "steps_left (cs_phases s' ! i) = 0" using assms(4) that five [of "cs_phases s ! i"] by fastforce
    moreover have "cs_phases s' ! i \<noteq> Panicked"
      using inv s' that len by (auto simp: exporter_inv_def running_ok_def no_panic_yet_def list_all_length)
    ultimately show ?thesis by (cases "cs_phases s' ! i") auto
  qed
  then show ?thesis using s' len by (auto simp: all_joined_def list_all_length)
qed

lemma finish_publishes:
  assumes "x_loop x \<noteq> Crashed" and "x_running x = Some (cfg, s)" and "all_joined s"
  shows "let y = exporter_step accepts base unmarshal (Finish o' d) x in x_running y = None \<and>
     x_cycleRegistry y = Some (BuildRegistry accepts (cs_results s)) \<and>
     x_loop y = (if x_loop x = FirstCycle then (if x_interval x \<le> 0 then Crashed else Ticking) else x_loop x)"
  using assms by (simp add: exporter_step_def runCycle_end_def cycle_finish_def Let_def)

lemma reload_sel [simp]:
  "metrics_handler (applyReloadedConfig cfg x) = metrics_handler x" "x_running (applyReloadedConfig cfg x) = x_running x"
  "x_interval (applyReloadedConfig cfg x) = x_interval x" "x_currentConfig (applyReloadedConfig cfg x) = cfg"
  "x_ResolveAddress (applyReloadedConfig cfg x) = cfg_ResolveAddress cfg"
  "x_RootServers (applyReloadedConfig cfg x) = (if cfg_RootServers cfg \<noteq> [] then cfg_RootServers cfg else DefaultRootServers)"
  "x_cache (applyReloadedConfig cfg x) = cache_Invalidate (x_cache x)"
  by (simp_all add: applyReloadedConfig_def metrics_handler_def permanent_ops_def cong: option.case_cong)

text \<open>A process started on a file that names one zone and one root.\<close>

definition demo_cfg :: config where
  "demo_cfg = example_cfg\<lparr>cfg_Zones := [''z.''], cfg_RootServers := [''r'']\<rparr>"

definition demo_base :: "nat \<Rightarrow> nat \<Rightarrow> zone_env" where
  "demo_base = (\<lambda>_. example_ce)"

text \<open>The files: the one started with, one with another root, one with a negative interval.\<close>

definition demo_files :: "nat \<Rightarrow> goerror + config" where
  "demo_files n = Inr (if n = 0 then demo_cfg else if n = 1 then demo_cfg\<lparr>cfg_RootServers := [''q'']\<rparr>
     else demo_cfg\<lparr>cfg_ProbeInterval := -1\<rparr>)"

abbreviation demo_step :: "nat x_event \<Rightarrow> exporter \<Rightarrow> exporter" where
  "demo_step \<equiv> exporter_step documented_accepts demo_base demo_files"

lemma demo_base_ok: "base_ok demo_base"
  by (simp add: base_ok_def demo_base_def example_ce_def)

lemma demo_load: "Load (Inr 0) demo_files = Inr demo_cfg"
  by code_simp

lemma demo_reachable: "reachable documented_accepts demo_base demo_files (fold demo_step evs (startup demo_cfg))"
  by (rule reachable_steps [OF reachable.start [OF demo_load]])

section \<open>Properties\<close>

text \<open>C6: what holds in every state of the process, whatever reloads and scrapes come between the steps of
  its cycles: the current configuration is one that loads, the root servers and the address resolution in
  force are the current configuration's, there is always a root server, so no goroutine of the running cycle
  has panicked; a scrape is refused exactly until the first cycle is over; and the process dies only of an
  interval that is not positive.\<close>

theorem exporter_invariant:
  assumes "base_ok base" and "reachable accepts base unmarshal x"
  shows "usable_config (x_currentConfig x) \<and> x_RootServers x \<noteq> [] \<and>
    x_RootServers x = (if cfg_RootServers (x_currentConfig x) \<noteq> [] then cfg_RootServers (x_currentConfig x) else DefaultRootServers) \<and>
    x_ResolveAddress x = cfg_ResolveAddress (x_currentConfig x) \<and>
    (case x_running x of None \<Rightarrow> True | Some (cfg, s) \<Rightarrow> no_panic_yet s) \<and>
    (metrics_handler x = Reply 503 \<longleftrightarrow> x_loop x \<in> {Booting, FirstCycle}) \<and>
    (if x_loop x = Crashed then x_interval x \<le> 0 else True)"
  using reachable_inv [OF assms]
  by (auto simp: exporter_inv_def globals_match_def running_ok_def Let_def DefaultRootServers_def metrics_handler_def
      split: option.splits)

theorem exporter_invariant_witness:
  "let x = fold demo_step [Launch, HttpReload ''POST'' (Inr 1)] (startup demo_cfg) in
     x_RootServers x \<noteq> [] \<and> (metrics_handler x = Reply 503 \<longleftrightarrow> x_loop x \<in> {Booting, FirstCycle})"
  using exporter_invariant [OF demo_base_ok demo_reachable, of "[Launch, HttpReload ''POST'' (Inr 1)]"]
  unfolding Let_def by blast

text \<open>C35: a cycle that runs is published. Whatever state the process is in while a cycle runs, and whatever
  the network answers, once each goroutine has had five turns all have joined; the end of the cycle frees the slot for
  the next one, and from then on scrapes get the registry built from the results of this cycle, whatever was served
  before, and the permanent registry with the operations of its goroutines and of the aggregation over its results.\<close>

theorem exporter_publishes:
  assumes "base_ok base" and "reachable accepts base unmarshal x" and "x_running x = Some (cfg, s)"
    and "\<forall>i < length (cfg_Zones cfg). 5 \<le> count_list sched i"
  shows "let z = fold (exporter_step accepts base unmarshal) (map Turn sched) x;
             y = exporter_step accepts base unmarshal (Finish o' d) z in
    x_running y = None \<and>
    (\<exists>s'. x_running z = Some (cfg, s') \<and> all_joined s' \<and>
       metrics_handler y = Gathered (x_ops z @ cs_ops s' @ aggregate_ops o' (cfg_Zones cfg) d (cs_results s'))
         (BuildRegistry accepts (cs_results s')))"
proof -
  have inv: "exporter_inv x" by (rule reachable_inv [OF assms(1,2)])
  then have alive: "x_loop x \<noteq> Crashed" using assms(3) by (auto simp: exporter_inv_def running_ok_def)
  obtain s' where s': "x_running (turns base sched x) = Some (cfg, s')" "all_joined s'"
    using turns_join [OF assms(1) inv assms(3,4)] by blast
  note T = steps_are_turns [OF alive, of accepts base unmarshal sched]
  from T alive have "x_loop (turns base sched x) \<noteq> Crashed" by simp
  with s' have "x_running (exporter_step accepts base unmarshal (Finish o' d) (turns base sched x)) = None \<and>
      metrics_handler (exporter_step accepts base unmarshal (Finish o' d) (turns base sched x)) =
        Gathered (x_ops (turns base sched x) @ cs_ops s' @ aggregate_ops o' (cfg_Zones cfg) d (cs_results s'))
          (BuildRegistry accepts (cs_results s'))"
    by (simp add: exporter_step_def runCycle_end_def cycle_finish_def Let_def metrics_handler_def permanent_ops_def)
  with s' show ?thesis unfolding Let_def conjunct1 [OF T] by blast
qed

theorem exporter_publishes_witness:
  "let z = fold demo_step (map Turn [0, 0, 0, 0, 0]) (fold demo_step [Launch] (startup demo_cfg));
       y = demo_step (Finish example_orders 7) z in
    x_running y = None \<and>
    (\<exists>s'. x_running z = Some (demo_cfg, s') \<and> all_joined s' \<and>
       metrics_handler y = Gathered (x_ops z @ cs_ops s' @ aggregate_ops example_orders (cfg_Zones demo_cfg) 7 (cs_results s'))
         (BuildRegistry documented_accepts (cs_results s')))"
proof (rule exporter_publishes [OF demo_base_ok demo_reachable])
  show "x_running (fold demo_step [Launch] (startup demo_cfg)) =
      Some (demo_cfg, cycle_start demo_cfg (NewDelegationCache (cfg_DelegationCacheTTL demo_cfg)))"
    by (simp add: exporter_step_def startup_def runCycle_begin_def Let_def)
  show "\<forall>i < length (cfg_Zones demo_cfg). 5 \<le> count_list [0, 0, 0, 0, 0 :: nat] i"
    by (simp add: demo_cfg_def)
qed

text \<open>C22: a reload is all or nothing. A request that is no POST, and a file that does not load, change nothing
  (405, 500; the signal ignores the file silently); otherwise (200) the new configuration, its root servers
  and its address resolution are in force and no delegation is cached any more, while the registry being
  served, the running cycle, the probe interval and the lifetime of cached delegations stay as they were.\<close>

theorem reload_exact:
  "case reload_handler verb file' unmarshal x of (reply, y) \<Rightarrow>
     (if verb \<noteq> ''POST'' then reply = Reply 405 \<and> y = x
      else y = sighup_handler file' unmarshal x \<and> (case Load file' unmarshal of
         Inl err \<Rightarrow> reply = Reply 500 \<and> y = x
       | Inr cfg \<Rightarrow> reply = Reply 200 \<and> x_currentConfig y = cfg \<and> x_ResolveAddress y = cfg_ResolveAddress cfg \<and>
           x_RootServers y = (if cfg_RootServers cfg \<noteq> [] then cfg_RootServers cfg else DefaultRootServers) \<and>
           (\<forall>z now. cache_Get (x_cache y) z now = None) \<and> metrics_handler y = metrics_handler x \<and>
           x_running y = x_running x \<and> x_interval y = x_interval x \<and> cache_ttl (x_cache y) = cache_ttl (x_cache x)))"
  by (auto simp: reload_handler_def sighup_handler_def dcache.get_invalidate dcache.ttl_invalidate split: sum.split)

text \<open>C40: a delegation outlives the reload that was to discard it. A goroutine that has walked the delegation
  before a reload stores it after the reload has emptied the cache, so the cycles under the new
  configuration, with other root servers say, find the old delegation.\<close>

theorem reload_keeps_stale_delegation:
  assumes "x_loop x \<noteq> Crashed" and "x_running x = Some (cfg, s)"
    and "i < length (cs_phases s)" and "i < length (cfg_Zones cfg)" and "cs_phases s ! i = Walked dlg h"
    and "Load file' unmarshal = Inr newCfg" and "0 \<le> cache_ttl (x_cache x)"
  shows "let y = fold (exporter_step accepts base unmarshal) [HttpReload ''POST'' file', Turn i] x in
    x_currentConfig y = newCfg \<and>
    cache_Get (x_cache y) (cfg_Zones cfg ! i) (clock (client_env cfg (current_envs base x i)) h) = Some dlg"
proof -
  let ?x = "applyReloadedConfig newCfg x"
  have clock: "clock (client_env cfg (current_envs base ?x i)) h = clock (client_env cfg (current_envs base x i)) h"
    by (simp add: current_envs_def client_env_def applyReloadedConfig_def Let_def)
  have one: "exporter_step accepts base unmarshal (HttpReload ''POST'' file') x = ?x"
    using assms(1,6) by (simp add: exporter_step_def reload_handler_def)
  have two: "exporter_step accepts base unmarshal (Turn i) ?x = goroutine_turn base i ?x"
    using assms(1) by (simp add: exporter_step_def applyReloadedConfig_def)
  have "x_cache (goroutine_turn base i ?x) =
      cache_Set (x_cache ?x) (cfg_Zones cfg ! i) dlg (clock (client_env cfg (current_envs base ?x i)) h)"
    using assms(2-5) by (simp add: goroutine_turn_def Let_def zone_step_def timeNow_def)
  moreover have "x_currentConfig (goroutine_turn base i ?x) = newCfg"
    using assms(2) by (simp add: goroutine_turn_def Let_def)
  moreover have "0 \<le> cache_ttl (x_cache ?x)"
    using assms(7) by (simp add: dcache.ttl_invalidate)
  ultimately show ?thesis by (simp add: one two clock dcache.get_set)
qed

theorem reload_keeps_stale_delegation_witness:
  "\<exists>dlg now. ParentServer dlg = ''r'' \<and>
     (let y = fold demo_step [HttpReload ''POST'' (Inr 1), Turn 0] (fold demo_step [Launch, Turn 0, Turn 0] (startup demo_cfg)) in
      x_currentConfig y = demo_cfg\<lparr>cfg_RootServers := [''q'']\<rparr> \<and> cache_Get (x_cache y) ''z.'' now = Some dlg)"
proof -
  let ?x = "fold demo_step [Launch, Turn 0, Turn 0] (startup demo_cfg)"
  have "(case x_running ?x of Some (cfg, s) \<Rightarrow> (case cs_phases s of [Walked d h] \<Rightarrow>
      Some (cfg_Zones cfg, ParentServer d, x_loop ?x = Crashed, cache_ttl (x_cache ?x)) | _ \<Rightarrow> None) | None \<Rightarrow> None) =
      Some ([''z.''], ''r'', False, 1800)" by code_simp
  then obtain cfg s d h where x: "x_running ?x = Some (cfg, s)" "cs_phases s = [Walked d h]" "cfg_Zones cfg = [''z.'']"
    "ParentServer d = ''r''" "x_loop ?x \<noteq> Crashed" "cache_ttl (x_cache ?x) = 1800"
    by (auto split: option.splits list.splits phase.splits)
  have load: "Load (Inr 1) demo_files = Inr (demo_cfg\<lparr>cfg_RootServers := [''q'']\<rparr>)" by code_simp
  from reload_keeps_stale_delegation [OF x(5,1) _ _ _ load, of 0 d h] x show ?thesis
    by (simp add: Let_def) blast
qed

text \<open>A negative probe interval is accepted and kills the process: the file loads, the first cycle runs
  and is published, and then the ticker panics.\<close>

lemma negative_interval_crashes:
  assumes "base_ok base" and "unmarshal data = Inr raw" and "acceptable raw" and "cfg_ProbeInterval raw < 0"
    and "\<forall>i < length (cfg_Zones raw). 5 \<le> count_list sched i"
  shows "\<exists>cfg. Load (Inr data) unmarshal = Inr cfg \<and>
    x_loop (fold (exporter_step accepts base unmarshal) (Launch # map Turn sched @ [Finish o' d]) (startup cfg)) = Crashed"
proof -
  have "Load (Inr data) unmarshal = Load (Inr ()) (\<lambda>_. Inr raw)" using assms(2) by (simp add: Load_def)
  then obtain cfg where load: "Load (Inr data) unmarshal = Inr cfg" and zones: "cfg_Zones cfg = map TrimSpace (cfg_Zones raw)"
    and interval: "cfg_ProbeInterval cfg < 0"
    using load_decoded [of raw "()"] assms(3,4) by (auto simp: default_duration_def split: sum.splits)
  define x where "x = runCycle_begin ((startup cfg)\<lparr>x_loop := FirstCycle\<rparr>)"
  have launch: "exporter_step accepts base unmarshal Launch (startup cfg) = x"
    by (simp add: exporter_step_def startup_def x_def)
  have x: "x_running x = Some (cfg, cycle_start cfg (x_cache (startup cfg)))" "x_loop x = FirstCycle" "x_interval x < 0"
    using interval by (simp_all add: x_def runCycle_begin_def startup_def Let_def)
  have inv: "exporter_inv x" unfolding x_def
    by (rule launch_inv [OF startup_inv [OF load_usable [OF load]]]) (simp add: startup_def)
  obtain s' where s': "x_running (turns base sched x) = Some (cfg, s')" "all_joined s'"
    using turns_join [OF assms(1) inv x(1)] assms(5) zones by auto
  have "x_interval (turns base sched y) = x_interval y" for y
    unfolding turns_def
    by (induction sched arbitrary: y) (simp_all add: goroutine_turn_def Let_def split: option.split prod.split)
  with steps_are_turns [of x accepts base unmarshal sched] x finish_publishes [OF _ s', of accepts base unmarshal o' d]
  show ?thesis using load by (intro exI [of _ cfg]) (simp add: launch Let_def)
qed

lemma negative_interval_crashes_example:
  "\<exists>cfg. Load (Inr 2) demo_files = Inr cfg \<and>
     x_loop (fold demo_step (Launch # map Turn [0, 0, 0, 0, 0] @ [Finish example_orders 7]) (startup cfg)) = Crashed"
proof (rule negative_interval_crashes [OF demo_base_ok])
  show "demo_files 2 = Inr (demo_cfg\<lparr>cfg_ProbeInterval := -1\<rparr>)" by (simp add: demo_files_def)
  show "acceptable (demo_cfg\<lparr>cfg_ProbeInterval := -1\<rparr>)"
    by (simp add: acceptable_def demo_cfg_def example_cfg_def overrides_consistent_def good_zone_def) code_simp
qed (simp_all add: demo_cfg_def)

end
