(* ===== verification/Exporter_Process.thy ===== *)
theory Exporter_Process
  imports Exporter
begin

text \<open>
  The rest of \<^verbatim>\<open>main.go\<close> around the exporter's state: the pages it serves, the start, and the ways the process
  ends. A request comes with the path the library's mux has cleaned and with what the configuration file
  holds at the time; listening, the metrics page itself and the logging are the libraries'.
\<close>

section \<open>Pages\<close>

text \<open>The gauge that names the build; the three values are the library's, set by the linker.\<close>

record build =
  b_Version :: string
  b_Revision :: string
  b_GoVersion :: string

definition buildInfo :: "build \<Rightarrow> gauge_desc \<times> gauge_value" where
  \<open>buildInfo b =
     (\<lparr>g_name = ''dnshealth_build_info'', g_help = ''Build information for the exporter.'',
       g_labels = [(''version'', b_Version b), (''revision'', b_Revision b), (''goversion'', b_GoVersion b)]\<rparr>,
      Number 1)\<close>

text \<open>A page has a status, a content type and a body; the metrics page is made from two registries, the permanent
  one, which holds the build gauge and the runner's metrics, and the one of the cycle.\<close>

datatype page = Page nat string string | MetricsPage "gauge_desc \<times> gauge_value" "metric_op list" registry

definition text_plain :: string where \<open>text_plain = ''text/plain; charset=utf-8''\<close>

definition http_Error :: "string \<Rightarrow> nat \<Rightarrow> page" where
  \<open>http_Error msg code = Page code text_plain (msg @ [CHR 0x0A])\<close>

text \<open>The text of an error; that of a network error is the library's.\<close>

fun error_text :: "(bool \<Rightarrow> string) \<Rightarrow> goerror \<Rightarrow> string" where
  "error_text net (NetError t) = net t"
| "error_text net (PlainError msg) = msg"
| "error_text net (Wrapped msg err) = msg @ '': '' @ error_text net err"

definition metrics_page :: "build \<Rightarrow> exporter \<Rightarrow> page" where
  \<open>metrics_page b x = (case x_cycleRegistry x of
     None \<Rightarrow> http_Error ''Probe cycle not yet complete'' 503
   | Some reg \<Rightarrow> MetricsPage (buildInfo b) (permanent_ops x) reg)\<close>

definition healthy_page :: page where
  \<open>healthy_page = Page 200 text_plain (''OK'' @ [CHR 0x0A])\<close>

definition reload_page ::
  "(bool \<Rightarrow> string) \<Rightarrow> ('bytes \<Rightarrow> goerror + config) \<Rightarrow> string \<Rightarrow> goerror + 'bytes \<Rightarrow> exporter \<Rightarrow> page \<times> exporter" where
  \<open>reload_page net unmarshal verb file' x =
     (if verb \<noteq> ''POST'' then (http_Error ''Method not allowed'' 405, x)
      else (case Load file' unmarshal of
          Inl err \<Rightarrow> (http_Error (''Reload failed: '' @ error_text net err) 500, x)
        | Inr newCfg \<Rightarrow> (Page 200 text_plain (''OK'' @ [CHR 0x0A]), applyReloadedConfig newCfg x)))\<close>

definition index_page :: page where
  \<open>index_page = Page 200 ''text/html; charset=utf-8'' (''<html>'' @ [CHR 0x0A] @ ''<head><title>DNS Health Exporter</title></head>'' @ [CHR 0x0A] @ ''<body>'' @ [CHR 0x0A] @ ''<h1>DNS Health Exporter</h1>'' @ [CHR 0x0A] @ ''<p><a href="/metrics">Metrics</a></p>'' @ [CHR 0x0A] @ ''</body>'' @ [CHR 0x0A] @ ''</html>'')\<close>

text \<open>The mux: a pattern that ends in a slash, as the last one does, takes every path no other pattern has.\<close>

record http_request =
  rq_Method :: string
  rq_Path :: string

definition serve ::
  "build \<Rightarrow> (bool \<Rightarrow> string) \<Rightarrow> ('bytes \<Rightarrow> goerror + config) \<Rightarrow> http_request \<Rightarrow> goerror + 'bytes \<Rightarrow> exporter \<Rightarrow> page \<times> exporter" where
  \<open>serve b net unmarshal r file' x =
     (if rq_Path r = ''/metrics'' then (metrics_page b x, x)
      else if rq_Path r = ''/-/healthy'' then (healthy_page, x)
      else if rq_Path r = ''/-/reload'' then reload_page net unmarshal (rq_Method r) file' x
      else (index_page, x))\<close>

section \<open>The life of the process\<close>

text \<open>
  Serving, waiting for \<^verbatim>\<open>Shutdown\<close> after a signal to terminate, or ended with an exit code: 1 by
  \<^verbatim>\<open>os.Exit\<close>, 2 by a panic. Requests under way are still answered while it shuts down, and its other
  goroutines go on.
\<close>

datatype process_state = Up exporter | Stopping exporter | Exited nat

definition start_process :: "goerror + 'bytes \<Rightarrow> ('bytes \<Rightarrow> goerror + config) \<Rightarrow> process_state" where
  "start_process file' unmarshal = (case Load file' unmarshal of Inl err \<Rightarrow> Exited 1 | Inr cfg \<Rightarrow> Up (startup cfg))"

text \<open>\<open>ServerEnds closed\<close>: \<^verbatim>\<open>ListenAndServe\<close> returns, with no error or \<^verbatim>\<open>ErrServerClosed\<close> if \<open>closed\<close>.\<close>

datatype 'bytes p_event =
  Internal "'bytes x_event"
| Request http_request "goerror + 'bytes"
| ServerEnds bool
| Terminate
| ShutdownReturns

definition on_exporter :: "(exporter \<Rightarrow> exporter) \<Rightarrow> process_state \<Rightarrow> process_state" where
  "on_exporter f p = (let fate = (\<lambda>wrap x. if x_loop (f x) = Crashed then Exited 2 else wrap (f x)) in
     case p of Up x \<Rightarrow> fate Up x | Stopping x \<Rightarrow> fate Stopping x | Exited n \<Rightarrow> Exited n)"

definition process_step ::
  "(gauge_desc list \<Rightarrow> gauge_desc \<Rightarrow> bool) \<Rightarrow> (nat \<Rightarrow> nat \<Rightarrow> zone_env) \<Rightarrow> build \<Rightarrow> (bool \<Rightarrow> string) \<Rightarrow>
   ('bytes \<Rightarrow> goerror + config) \<Rightarrow> 'bytes p_event \<Rightarrow> process_state \<Rightarrow> process_state" where
  "process_step accepts base b net unmarshal ev p = (case ev of
     Internal xev \<Rightarrow> on_exporter (exporter_step accepts base unmarshal xev) p
   | Request r file' \<Rightarrow> on_exporter (\<lambda>x. snd (serve b net unmarshal r file' x)) p
   | ServerEnds closed \<Rightarrow> (case p of Exited n \<Rightarrow> p | _ \<Rightarrow> if closed then p else Exited 1)
   | Terminate \<Rightarrow> (case p of Up x \<Rightarrow> Stopping x | _ \<Rightarrow> p)
   | ShutdownReturns \<Rightarrow> (case p of Stopping x \<Rightarrow> Exited 0 | _ \<Rightarrow> p))"

definition process_run ::
  "(gauge_desc list \<Rightarrow> gauge_desc \<Rightarrow> bool) \<Rightarrow> (nat \<Rightarrow> nat \<Rightarrow> zone_env) \<Rightarrow> build \<Rightarrow> (bool \<Rightarrow> string) \<Rightarrow>
   ('bytes \<Rightarrow> goerror + config) \<Rightarrow> goerror + 'bytes \<Rightarrow> 'bytes p_event list \<Rightarrow> process_state" where
  "process_run accepts base b net unmarshal file' evs = fold (process_step accepts base b net unmarshal) evs (start_process file' unmarshal)"

section \<open>Requests and the state\<close>

text \<open>The pages are those of the handlers, with their texts.\<close>

lemma page_status:
  "metrics_handler x = (case metrics_page b x of Page n _ _ \<Rightarrow> Reply n | MetricsPage g ops reg \<Rightarrow> Gathered ops reg)"
  "reload_handler verb file' unmarshal x = (case reload_page net unmarshal verb file' x of
     (Page n _ _, y) \<Rightarrow> (Reply n, y) | (MetricsPage g ops reg, y) \<Rightarrow> (Gathered ops reg, y))"
  by (auto simp: metrics_handler_def metrics_page_def reload_handler_def reload_page_def http_Error_def
      split: option.split sum.split)

text \<open>Both registries can be gathered together: no name that the results of probers give the registry of a cycle is
  that of the build gauge or of a metric of the runner.\<close>

lemma registered_gauge: "g \<in> set (BuildRegistry accepts rs) \<Longrightarrow> g \<in> set (all_gauges rs)"
proof -
  have one: "set (registerGauge accepts reg g) \<subseteq> insert g (set reg)" for reg g by (auto simp: registerGauge_def)
  have "set (fold (\<lambda>g reg. registerGauge accepts reg g) gs reg) \<subseteq> set reg \<union> set gs" for gs reg
  proof (induction gs arbitrary: reg)
    case (Cons g gs)
    from Cons.IH [of "registerGauge accepts reg g"] one [of reg g] show ?case by auto
  qed simp
  then show "g \<in> set (BuildRegistry accepts rs) \<Longrightarrow> g \<in> set (all_gauges rs)" unfolding BuildRegistry_fold by force
qed

lemma in_schema_name:
  assumes "in_schema d"
  shows "g_name d \<in> set (map (\<lambda>m. ''dnshealth_'' @ m) (map fst query_help @ map fst metric_schema))"
proof -
  obtain m where m: "g_name d = ''dnshealth_'' @ m" and "gauge_schema m \<noteq> None" using assms unfolding in_schema_def by blast
  then have "map_of query_help m \<noteq> None \<or> map_of metric_schema m \<noteq> None" by (auto simp: gauge_schema_def split: option.splits)
  then show ?thesis unfolding m by (auto simp: map_of_eq_None_iff simp del: map_of_eq_None_iff dest!: map_of_SomeD simp: rev_image_eqI)
qed

lemma registries_disjoint:
  assumes "list_all schema_ok rs" and "g \<in> set (BuildRegistry accepts rs)"
  shows "g_name (fst g) \<noteq> g_name (fst (buildInfo b))" "g_name (fst g) \<notin> (\<lambda>(m, k, name, ls). name) ` set NewRunner"
proof -
  obtain r where r: "r \<in> set rs" "g \<in> set (result_gauges r)"
    using registered_gauge [OF assms(2)] by (auto simp: all_gauges_def)
  then have "schema_ok r" using assms(1) by (simp add: list_all_iff)
  from schema_gauges [OF this, of "fst g" "snd g"] r(2) have "in_schema (fst g)" by simp
  note name = in_schema_name [OF this]
  have disjoint: "distinct (x # xs @ ys) \<Longrightarrow> n \<in> set ys \<Longrightarrow> n \<noteq> x \<and> n \<notin> set xs" for n x and xs ys :: "string list" by auto
  from disjoint [OF metric_names_distinct name]
  show "g_name (fst g) \<noteq> g_name (fst (buildInfo b))" "g_name (fst g) \<notin> (\<lambda>(m, k, name, ls). name) ` set NewRunner"
    unfolding buildInfo_def set_map by simp_all
qed

text \<open>Only a \<^verbatim>\<open>POST\<close> to the reload path changes the state, as the reload event does.\<close>

lemma serve_state:
  "snd (serve b net unmarshal r file' x) =
     (if rq_Path r = ''/-/reload'' then snd (reload_handler (rq_Method r) file' unmarshal x) else x)"
  by (auto simp: serve_def reload_handler_def reload_page_def split: sum.split)

lemma serve_step:
  assumes "x_loop x \<noteq> Crashed"
  shows "snd (serve b net unmarshal r file' x) = x \<or>
    snd (serve b net unmarshal r file' x) = exporter_step accepts base unmarshal (HttpReload (rq_Method r) file') x"
  using assms by (simp add: serve_state exporter_step_def)

text \<open>What each request gets: the health page always, the metrics once a cycle is complete, the index for every
  path that has no page of its own.\<close>

lemma serve_answers:
  "fst (serve b net unmarshal r file' x) =
     (if rq_Path r = ''/-/healthy'' then healthy_page
      else if rq_Path r = ''/metrics'' then metrics_page b x
      else if rq_Path r = ''/-/reload'' then fst (reload_page net unmarshal (rq_Method r) file' x)
      else index_page)"
  by (simp add: serve_def)

section \<open>How the process ends\<close>

lemma exporter_step_interval: "x_interval (exporter_step accepts base unmarshal ev x) = x_interval x"
  by (cases ev) (auto simp: exporter_step_def runCycle_begin_def goroutine_turn_def runCycle_end_def reload_handler_def
      sighup_handler_def applyReloadedConfig_def Let_def split: option.splits prod.splits sum.splits)

text \<open>What a process that has not ended is in: a reachable state of an exporter with the interval it started with.\<close>

definition alive_ok ::
  "(gauge_desc list \<Rightarrow> gauge_desc \<Rightarrow> bool) \<Rightarrow> (nat \<Rightarrow> nat \<Rightarrow> zone_env) \<Rightarrow> ('bytes \<Rightarrow> goerror + config) \<Rightarrow> int \<Rightarrow> exporter \<Rightarrow> bool" where
  "alive_ok accepts base unmarshal d x \<longleftrightarrow> reachable accepts base unmarshal x \<and> x_interval x = d \<and> x_loop x \<noteq> Crashed"

definition explained ::
  "(gauge_desc list \<Rightarrow> gauge_desc \<Rightarrow> bool) \<Rightarrow> (nat \<Rightarrow> nat \<Rightarrow> zone_env) \<Rightarrow> ('bytes \<Rightarrow> goerror + config) \<Rightarrow> int \<Rightarrow>
   'bytes p_event list \<Rightarrow> process_state \<Rightarrow> bool" where
  "explained accepts base unmarshal d evs p \<longleftrightarrow> (case p of
     Up x \<Rightarrow> alive_ok accepts base unmarshal d x \<and> Terminate \<notin> set evs
   | Stopping x \<Rightarrow> alive_ok accepts base unmarshal d x \<and> Terminate \<in> set evs
   | Exited n \<Rightarrow> n = 0 \<and> Terminate \<in> set evs \<and> ShutdownReturns \<in> set evs \<or> n = 1 \<and> ServerEnds False \<in> set evs \<or> n = 2 \<and> d \<le> 0)"

lemma on_exporter_explained:
  assumes base: "base_ok base" and p: "explained accepts base unmarshal d evs p" and ev: "ev \<noteq> Terminate"
    and step: "\<And>x. alive_ok accepts base unmarshal d x \<Longrightarrow> f x = x \<or> (\<exists>xev. f x = exporter_step accepts base unmarshal xev x)"
  shows "explained accepts base unmarshal d (evs @ [ev]) (on_exporter f p)"
proof -
  have fate: "(x_loop (f x) = Crashed \<longrightarrow> d \<le> 0) \<and> (x_loop (f x) \<noteq> Crashed \<longrightarrow> alive_ok accepts base unmarshal d (f x))"
    if x: "alive_ok accepts base unmarshal d x" for x
  proof -
    have r: "reachable accepts base unmarshal (f x)" and i: "x_interval (f x) = d"
      using step [OF x] x by (auto simp: alive_ok_def exporter_step_interval intro: reachable.step)
    with reachable_inv [OF base r] show ?thesis by (auto simp: exporter_inv_def alive_ok_def)
  qed
  show ?thesis
    using p ev by (cases p) (auto simp: explained_def on_exporter_def Let_def dest: fate)
qed

lemma process_step_explained:
  assumes base: "base_ok base" and p: "explained accepts base unmarshal d evs p"
  shows "explained accepts base unmarshal d (evs @ [ev]) (process_step accepts base b net unmarshal ev p)"
proof (cases ev)
  case (Internal xev)
  then show ?thesis
    using on_exporter_explained [OF base p, of ev "exporter_step accepts base unmarshal xev"]
    by (auto simp: process_step_def)
next
  case (Request r file')
  have "snd (serve b net unmarshal r file' x) = x \<or> (\<exists>xev. snd (serve b net unmarshal r file' x) = exporter_step accepts base unmarshal xev x)"
    if "alive_ok accepts base unmarshal d x" for x
    using serve_step [of x b net unmarshal r file' accepts base] that by (auto simp: alive_ok_def)
  from on_exporter_explained [OF base p _ this, of ev] Request show ?thesis by (simp add: process_step_def)
qed (use p in \<open>auto simp: process_step_def explained_def split: process_state.splits\<close>)

lemma process_run_explained:
  assumes base: "base_ok base" and load: "Load file' unmarshal = Inr cfg"
  shows "explained accepts base unmarshal (cfg_ProbeInterval cfg) evs (process_run accepts base b net unmarshal file' evs)"
proof (induction evs rule: rev_induct)
  case Nil
  have "alive_ok accepts base unmarshal (cfg_ProbeInterval cfg) (startup cfg)"
    using reachable.start [OF load] by (simp add: alive_ok_def) (simp add: startup_def)
  then show ?case by (simp add: process_run_def start_process_def load explained_def)
next
  case (snoc ev evs)
  then show ?case using process_step_explained [OF base snoc] by (simp add: process_run_def)
qed

lemma process_run_no_config: "Load file' unmarshal = Inl err \<Longrightarrow> process_run accepts base b net unmarshal file' evs = Exited 1"
  unfolding process_run_def start_process_def
  by (simp, induction evs) (auto simp: process_step_def on_exporter_def Let_def split: p_event.split)

text \<open>C36: how the process ends. Without a configuration it exits with 1 at once. With one, it exits with 0 only after
  a signal to terminate, with 1 only after the server failed, and with 2, by a panic, only if the interval it
  started with is not positive; until then, whatever requests, reloads and answers of the network come, it
  serves in a state of the exporter that is reachable.\<close>

theorem process_ends:
  assumes "base_ok base"
  shows "case Load file' unmarshal of
     Inl err \<Rightarrow> process_run accepts base b net unmarshal file' evs = Exited 1
   | Inr cfg \<Rightarrow> (case process_run accepts base b net unmarshal file' evs of
       Up x \<Rightarrow> reachable accepts base unmarshal x \<and> Terminate \<notin> set evs
     | Stopping x \<Rightarrow> reachable accepts base unmarshal x \<and> Terminate \<in> set evs
     | Exited n \<Rightarrow> (if n = 0 then Terminate \<in> set evs \<and> ShutdownReturns \<in> set evs
         else if n = 1 then ServerEnds False \<in> set evs else n = 2 \<and> cfg_ProbeInterval cfg \<le> 0))"
proof (cases "Load file' unmarshal")
  case (Inl err)
  then show ?thesis by (simp add: process_run_no_config)
next
  case (Inr cfg)
  from process_run_explained [OF assms Inr, of accepts evs b net] show ?thesis
    by (auto simp: Inr explained_def alive_ok_def split: process_state.splits)
qed

definition demo_build :: build where
  \<open>demo_build = \<lparr>b_Version = ''1.0'', b_Revision = ''r'', b_GoVersion = ''go''\<rparr>\<close>

lemma process_ends_witness:
  \<open>case process_run documented_accepts demo_base demo_build (\<lambda>_. []) demo_files (Inr 0)
       [Internal Launch, Request \<lparr>rq_Method = ''POST'', rq_Path = ''/-/reload''\<rparr> (Inr 1), ServerEnds True] of
     Up x \<Rightarrow> reachable documented_accepts demo_base demo_files x | _ \<Rightarrow> False\<close>
proof -
  let ?evs = \<open>[Internal Launch, Request \<lparr>rq_Method = ''POST'', rq_Path = ''/-/reload''\<rparr> (Inr 1), ServerEnds True]\<close>
  have "0 < cfg_ProbeInterval demo_cfg" by code_simp
  with process_ends [where file' = "Inr 0" and unmarshal = demo_files and accepts = documented_accepts and
      b = demo_build and net = "\<lambda>_. []" and evs = ?evs, OF demo_base_ok] show ?thesis
    by (auto simp: demo_load split: process_state.splits if_splits)
qed

end
