(* ===== verification/Grafana.thy ===== *)
theory Grafana
  imports Prelude "HOL-Library.Word"
begin

text \<open>
  What the dashboard generator hands to the Grafana SDK, and its helpers
  (\<^verbatim>\<open>demo/dashboard/helpers.go\<close>, \<^verbatim>\<open>transforms.go\<close>, \<^verbatim>\<open>datasource.go\<close>).

  The SDK is not part of the repository. A builder is therefore the sequence of calls the code makes on
  it, with their arguments; its enumerations are constants of \<open>sdk_const\<close>. A value of type
  \<^verbatim>\<open>any\<close> is a JSON value, a Go map an association list in the order of the literal. A panic is
  \<open>None\<close>.
\<close>

section \<open>Arguments of the SDK\<close>

datatype json = JString string | JNumber int | JList "json list" | JObject "(string \<times> json) list"

datatype sdk_const =
  TableCellHeightSm | PromQueryFormatTable | FieldColorModeIdPaletteClassic
| LegendDisplayModeList | LegendDisplayModeTable | LegendPlacementBottom
| TooltipDisplayModeSingle | TooltipDisplayModeMulti | SortOrderNone | SortOrderDescending
| LineInterpolationStepAfter | VisibilityModeAlways | TextModeMarkdown
| VariableRefreshOnDashboardLoad | VariableSortAlphabeticalAsc

record GridPos =
  gridX :: "32 word"
  gridY :: "32 word"
  gridW :: "32 word"
  gridH :: "32 word"

record DataSourceRef =
  ds_Type :: string
  ds_Uid :: string

section \<open>Transformations\<close>

record JoinByFieldOptions =
  ByField :: string
  jb_Mode :: string

record OrganizeOptions =
  RenameByName :: "(string \<times> string) list"
  IndexByName :: "(string \<times> int) list"
  ExcludeByName :: "(string \<times> bool) list"

record FilterByValueMatcherCfg =
  fm_Id :: string
  fm_Options :: "(string \<times> json) list"

record FilterByValueFilter =
  FieldName :: string
  fv_Config :: FilterByValueMatcherCfg

record FilterByValueOptions =
  Filters :: "FilterByValueFilter list"
  fv_Type :: string
  fv_Match :: string

record ReduceOptions =
  Reducers :: "string list"
  rd_Mode :: string

datatype transform_options =
  JoinOptions JoinByFieldOptions | OrganizeOpts OrganizeOptions
| FilterOptions FilterByValueOptions | ReduceOpts ReduceOptions

record DataTransformerConfig =
  tr_Id :: string
  tr_Options :: transform_options

definition transformJoinByField :: string where \<open>transformJoinByField = ''joinByField''\<close>

definition transformOrganize :: string where \<open>transformOrganize = ''organize''\<close>

definition transformFilterByValue :: string where \<open>transformFilterByValue = ''filterByValue''\<close>

definition transformReduce :: string where \<open>transformReduce = ''reduce''\<close>

definition JoinByField :: "JoinByFieldOptions \<Rightarrow> DataTransformerConfig" where
  "JoinByField opts = \<lparr>tr_Id = transformJoinByField, tr_Options = JoinOptions opts\<rparr>"

definition Organize :: "OrganizeOptions \<Rightarrow> DataTransformerConfig" where
  "Organize opts = \<lparr>tr_Id = transformOrganize, tr_Options = OrganizeOpts opts\<rparr>"

definition FilterByValue :: "FilterByValueOptions \<Rightarrow> DataTransformerConfig" where
  "FilterByValue opts = \<lparr>tr_Id = transformFilterByValue, tr_Options = FilterOptions opts\<rparr>"

definition Reduce :: "ReduceOptions \<Rightarrow> DataTransformerConfig" where
  "Reduce opts = \<lparr>tr_Id = transformReduce, tr_Options = ReduceOpts opts\<rparr>"

section \<open>Calls on builders\<close>

datatype query_call = RefId string | Expr string | LegendFormat string | Format sdk_const | Instant

datatype legend_call = DisplayMode sdk_const | Placement sdk_const | ShowLegend bool | Calcs "string list"

datatype tooltip_call = TooltipMode sdk_const | TooltipSort sdk_const

datatype color_call = ColorMode sdk_const

datatype sort_call = DisplayName string

datatype panel_call =
  Title string | Description string | AtGridPos GridPos | Datasource DataSourceRef
| ShowHeader bool | CellHeight sdk_const | WithTransformation DataTransformerConfig
| OverrideByName string "(string \<times> json) list" | SortBy "sort_call list list"
| WithTarget "query_call list" | Unit string | ColorScheme "color_call list"
| Legend "legend_call list" | Tooltip "tooltip_call list"
| LineInterpolation sdk_const | ShowPoints sdk_const | TextMode sdk_const | Content string

datatype panel_kind = TablePanel | TimeseriesPanel | TextPanel

type_synonym panel = "panel_kind \<times> panel_call list"

section \<open>Positions\<close>

definition gridPos :: "32 word \<Rightarrow> 32 word \<Rightarrow> 32 word \<Rightarrow> 32 word \<Rightarrow> GridPos" where
  "gridPos x y w h = \<lparr>gridX = x, gridY = y, gridW = w, gridH = h\<rparr>"

definition subY :: "32 word \<Rightarrow> 32 word \<Rightarrow> 32 word option" where
  "subY base off = (if off > base then None else Some (base - off))"

definition mailHeaderY :: "32 word" where "mailHeaderY = 24"

definition mailRowH :: "32 word" where "mailRowH = 8"

definition mailRowY :: "32 word \<Rightarrow> 32 word" where
  "mailRowY i = mailHeaderY + 1 + i * mailRowH"

text \<open>A panel whose row is \<open>base - off\<close>.\<close>

definition at_row :: "32 word \<Rightarrow> 32 word \<Rightarrow> (32 word \<Rightarrow> panel) \<Rightarrow> panel option" where
  "at_row base off p = map_option p (subY base off)"

section \<open>Mappings of cells\<close>

definition value_option :: "string \<Rightarrow> string \<Rightarrow> string \<Rightarrow> int \<Rightarrow> string \<times> json" where
  \<open>value_option v t color i = (v, JObject [(''text'', JString t), (''color'', JString color), (''index'', JNumber i)])\<close>

definition value_mapping :: "(string \<times> json) list \<Rightarrow> json" where
  \<open>value_mapping options = JObject [(''type'', JString ''value''), (''options'', JObject options)]\<close>

definition statusMappings :: "json list" where
  \<open>statusMappings = [value_mapping
     [value_option ''0'' ''FAIL'' ''red'' 0, value_option ''1'' ''PASS'' ''green'' 1,
      value_option ''2'' ''N/A'' ''text'' 2, value_option ''3'' ''WARN'' ''yellow'' 3]]\<close>

definition nullNAMapping :: json where
  \<open>nullNAMapping = JObject [(''type'', JString ''special''),
     (''options'', JObject [(''match'', JString ''null''), value_option ''result'' ''n/a'' ''text'' 2])]\<close>

definition respondedYesNoMappings :: "json list" where
  \<open>respondedYesNoMappings =
     [value_mapping [value_option ''0'' ''no'' ''red'' 0, value_option ''1'' ''yes'' ''green'' 1], nullNAMapping]\<close>

definition recursionYesNoMappings :: "json list" where
  \<open>recursionYesNoMappings =
     [value_mapping [value_option ''0'' ''no'' ''green'' 0, value_option ''1'' ''RA=1'' ''red'' 1], nullNAMapping]\<close>

definition cnameYesNoMappings :: "json list" where
  \<open>cnameYesNoMappings =
     [value_mapping [value_option ''0'' ''no'' ''green'' 0, value_option ''1'' ''yes'' ''red'' 1], nullNAMapping]\<close>

definition cellOptionsColorBackground :: json where
  \<open>cellOptionsColorBackground = JObject [(''type'', JString ''color-background''), (''mode'', JString ''basic'')]\<close>

definition sortByAsc :: "string \<Rightarrow> sort_call list list" where
  "sortByAsc displayName = [[DisplayName displayName]]"

definition mxRoleMappings :: "json list" where
  \<open>mxRoleMappings =
     [value_mapping [value_option ''0'' ''backup'' ''text'' 0, value_option ''1'' ''primary'' ''green'' 1]]\<close>

definition emptyGlueMapping :: "json list" where
  \<open>emptyGlueMapping = [value_mapping [value_option [] ''(not provided)'' ''text'' 0]]\<close>

text \<open>What a cell shows for a value: the text and the colour of the first mapping that has it.\<close>

definition mapping_result :: "json \<Rightarrow> string \<Rightarrow> (string \<times> string) option" where
  \<open>mapping_result mapping v = (case mapping of
     JObject m \<Rightarrow> (case (map_of m ''type'', map_of m ''options'') of
        (Some (JString ty), Some (JObject options)) \<Rightarrow>
          (case (if ty = ''value'' then map_of options v else None) of
             Some (JObject r) \<Rightarrow>
               (case (map_of r ''text'', map_of r ''color'') of
                  (Some (JString t), Some (JString c)) \<Rightarrow> Some (t, c)
                | _ \<Rightarrow> None)
           | _ \<Rightarrow> None)
      | _ \<Rightarrow> None)
   | _ \<Rightarrow> None)\<close>

fun mapping_lookup :: "json list \<Rightarrow> string \<Rightarrow> (string \<times> string) option" where
  "mapping_lookup [] v = None"
| "mapping_lookup (m # ms) v = (case mapping_result m v of Some r \<Rightarrow> Some r | None \<Rightarrow> mapping_lookup ms v)"

section \<open>The data source and the variables\<close>

definition prometheusDS :: DataSourceRef where
  \<open>prometheusDS = \<lparr>ds_Type = ''prometheus'', ds_Uid = ''${prometheus}''\<rparr>\<close>

datatype variable_call =
  VarLabel string | VarType string | VarDatasource DataSourceRef | VarQuery "(string \<times> json) list"
| VarRefresh sdk_const | VarSort sdk_const | VarCurrent bool string string

datatype variable = DatasourceVariable string "variable_call list" | QueryVariable string "variable_call list"

definition dsVariable :: variable where
  \<open>dsVariable = DatasourceVariable ''prometheus'' [VarLabel ''Prometheus'', VarType ''prometheus'']\<close>

definition zoneVariable :: "string \<Rightarrow> variable" where
  \<open>zoneVariable defaultZone = QueryVariable ''zone''
     ([VarLabel ''Zone'', VarDatasource prometheusDS,
       VarQuery [(''qryType'', JNumber 1), (''query'', JString ''label_values(dnshealth_query_success, zone)''),
         (''refId'', JString ''PrometheusVariableQueryEditor-VariableQuery'')],
       VarRefresh VariableRefreshOnDashboardLoad, VarSort VariableSortAlphabeticalAsc] @
      (if defaultZone \<noteq> [] then [VarCurrent True defaultZone defaultZone] else []))\<close>

section \<open>Legends, tooltips and colours\<close>

definition classicColor :: "color_call list" where
  "classicColor = [ColorMode FieldColorModeIdPaletteClassic]"

definition listLegend :: "legend_call list" where
  "listLegend = [DisplayMode LegendDisplayModeList, Placement LegendPlacementBottom, ShowLegend True]"

definition tableLegend :: "string list \<Rightarrow> legend_call list" where
  "tableLegend calcs = [DisplayMode LegendDisplayModeTable, Placement LegendPlacementBottom, ShowLegend True, Calcs calcs]"

definition singleTooltip :: "tooltip_call list" where
  "singleTooltip = [TooltipMode TooltipDisplayModeSingle, TooltipSort SortOrderNone]"

definition multiTooltip :: "sdk_const \<Rightarrow> tooltip_call list" where
  "multiTooltip order = [TooltipMode TooltipDisplayModeMulti, TooltipSort order]"

section \<open>Reading a builder\<close>

named_theorems panel_simps \<open>reading the calls made on a panel\<close>

fun call_grid :: "panel_call \<Rightarrow> GridPos option" where
  "call_grid (AtGridPos g) = Some g"
| "call_grid _ = None"

definition panel_grids :: "panel \<Rightarrow> GridPos list" where
  "panel_grids p = List.map_filter call_grid (snd p)"

fun query_expr :: "query_call \<Rightarrow> string option" where
  "query_expr (Expr e) = Some e"
| "query_expr _ = None"

fun call_target :: "panel_call \<Rightarrow> query_call list option" where
  "call_target (WithTarget q) = Some q"
| "call_target _ = None"

definition panel_targets :: "panel \<Rightarrow> query_call list list" where
  "panel_targets p = List.map_filter call_target (snd p)"

definition panel_exprs :: "panel \<Rightarrow> string list" where
  "panel_exprs p = concat (map (List.map_filter query_expr) (panel_targets p))"

lemma panel_reading [panel_simps]:
  "panel_grids (k, []) = []"
  "panel_grids (k, c # cs) = (case call_grid c of Some g \<Rightarrow> g # panel_grids (k, cs) | None \<Rightarrow> panel_grids (k, cs))"
  "panel_targets (k, []) = []"
  "panel_targets (k, c # cs) = (case call_target c of Some q \<Rightarrow> q # panel_targets (k, cs) | None \<Rightarrow> panel_targets (k, cs))"
  "panel_exprs (k, []) = []"
  "panel_exprs (k, c # cs) = (case call_target c of Some q \<Rightarrow> List.map_filter query_expr q @ panel_exprs (k, cs) | None \<Rightarrow> panel_exprs (k, cs))"
  by (simp_all add: panel_grids_def panel_targets_def panel_exprs_def map_filter_simps split: option.split)

lemma panel_append [panel_simps]:
  "panel_grids (k, cs @ ds) = panel_grids (k, cs) @ panel_grids (k, ds)"
  "panel_targets (k, cs @ ds) = panel_targets (k, cs) @ panel_targets (k, ds)"
  "panel_exprs (k, cs @ ds) = panel_exprs (k, cs) @ panel_exprs (k, ds)"
  by (simp_all add: panel_grids_def panel_targets_def panel_exprs_def map_filter_def)

text \<open>A table of checks shows four texts in four colours.\<close>

lemma statusMappings_shown:
  \<open>mapping_lookup statusMappings ''0'' = Some (''FAIL'', ''red'')\<close>
  \<open>mapping_lookup statusMappings ''1'' = Some (''PASS'', ''green'')\<close>
  \<open>mapping_lookup statusMappings ''2'' = Some (''N/A'', ''text'')\<close>
  \<open>mapping_lookup statusMappings ''3'' = Some (''WARN'', ''yellow'')\<close>
  by code_simp+

end
