(* ===== verification/Status_Rows.thy ===== *)
theory Status_Rows
  imports Grafana
begin

text \<open>
  The status tables (\<^verbatim>\<open>demo/dashboard/panels_status.go\<close>): the checks with their PromQL
  predicates, and their composition to the four-state expression of a row. One definition per row, in
  the order of the lists of the source. Bytes above 127 are those of the UTF-8 source text.
\<close>

section \<open>The composition\<close>

record statusCheck =
  refId :: string
  expr :: string
  naExpr :: string
  warnExpr :: string
  legendFormat :: string
  detail :: string

definition scalarizeStatusPredicate :: "string \<Rightarrow> string" where
  \<open>scalarizeStatusPredicate p = ''(clamp_max(max('' @ p @ ''), 1) or vector(0))''\<close>

definition composeStatusExpr :: "statusCheck \<Rightarrow> string" where
  \<open>composeStatusExpr c =
     (if naExpr c = [] \<and> warnExpr c = [] then expr c
      else
        let hard = scalarizeStatusPredicate (expr c);
            na = (if naExpr c \<noteq> [] then scalarizeStatusPredicate (naExpr c) else ''vector(0)'');
            warn = (if warnExpr c \<noteq> [] then scalarizeStatusPredicate (warnExpr c) else ''vector(0)'')
        in ''(2 * '' @ na @ '') + ((1 - '' @ na @ '') * '' @ hard @ '' * (1 + (2 * '' @ warn @ '')))'')\<close>

fun description_loop :: "bool \<Rightarrow> statusCheck list \<Rightarrow> string" where
  "description_loop later [] = []"
| \<open>description_loop later (c # checks) =
     (if later then [CHR 0x0A] else []) @ ''### '' @ legendFormat c @ [CHR 0x0A, CHR 0x0A] @ detail c @ [CHR 0x0A] @ description_loop True checks\<close>

definition buildStatusPanelDescription :: "statusCheck list \<Rightarrow> string" where
  "buildStatusPanelDescription checks = description_loop False checks"

definition status_query :: "statusCheck \<Rightarrow> panel_call" where
  "status_query c = WithTarget [RefId (refId c), Expr (composeStatusExpr c), LegendFormat (legendFormat c), Instant]"

definition statusTable :: "string \<Rightarrow> GridPos \<Rightarrow> statusCheck list \<Rightarrow> panel" where
  \<open>statusTable title pos checks = (TablePanel,
     [Title title, Description (buildStatusPanelDescription checks), AtGridPos pos, Datasource prometheusDS,
      ShowHeader True, CellHeight TableCellHeightSm,
      WithTransformation (Reduce \<lparr>Reducers = [''last''], rd_Mode = ''seriesToRows''\<rparr>),
      WithTransformation (Organize
        \<lparr>RenameByName = [(''Field'', ''Test''), (''Last'', ''Result'')],
         IndexByName = [(''Field'', 0), (''Last'', 1)], ExcludeByName = []\<rparr>),
      OverrideByName ''Result''
        [(''mappings'', JList statusMappings), (''custom.cellOptions'', cellOptionsColorBackground),
         (''custom.width'', JNumber 80)]] @
     map status_query checks)\<close>

section \<open>The parent\<close>

definition parent_row_A :: statusCheck where \<open>parent_row_A =
  \<lparr>refId = ''A'',
    expr = ''(count by (zone) (dnshealth_ns_record{source="parent",zone="$zone"}) > bool 0) or on() vector(0)'',
    naExpr = [],
    warnExpr = [],
    legendFormat = ''Parent has NS records for the zone'',
    detail = (''**Metric**: `dnshealth_ns_record{source="parent"}`  '' @ [CHR 0x0A] @
      ''**Why FAIL matters**: The zone may be unreachable '' @ [CHR 0xE2, CHR 0x80, CHR 0x94] @ '' resolvers can't find the authoritative NSs without a delegation from the parent.  '' @ [CHR 0x0A] @
      ''**Investigate**: NS records (from parent) panel below; check the TLD's view of the zone.'')\<rparr>\<close>

definition parent_row_B :: statusCheck where \<open>parent_row_B =
  \<lparr>refId = ''B'',
    expr = ''dnshealth_parent_delegation{zone="$zone"} or on() vector(0)'',
    naExpr = [],
    warnExpr = [],
    legendFormat = ''Parent delegation walk succeeded'',
    detail = (''**Metric**: `dnshealth_parent_delegation`  '' @ [CHR 0x0A] @
      ''**Why FAIL matters**: The delegation walk from root failed entirely '' @ [CHR 0xE2, CHR 0x80, CHR 0x94] @ '' every downstream check has no data for this zone this cycle.  '' @ [CHR 0x0A] @
      ''**Investigate**: Exporter logs (`delegation walk failed`); root-server reachability.'')\<rparr>\<close>

definition parentStatusChecks :: "statusCheck list" where
  "parentStatusChecks = [parent_row_A, parent_row_B]"

section \<open>The nameservers\<close>

definition nsCount :: string where
  \<open>nsCount = ''count by (zone) (count by (zone, nameserver) (dnshealth_query_success{check="soa",zone="$zone"}))''\<close>

definition ns_row_A :: statusCheck where \<open>ns_row_A =
  \<lparr>refId = ''A'',
    expr = ''('' @ nsCount @ '' >= bool 2) or on() vector(0)'',
    naExpr = [],
    warnExpr = nsCount @ '' == bool 2'',
    legendFormat = ''Multiple authoritative nameservers (>=2)'',
    detail = (''**Metric**: distinct (zone, nameserver) tuples in `dnshealth_query_success{check="soa"}`  '' @ [CHR 0x0A] @
      ''**Why FAIL matters**: A single NS is a single point of failure (RFC 2182). One outage = the whole zone goes dark.  '' @ [CHR 0x0A] @
      ''**WARN at exactly 2**: meets the bare minimum but RFC 2182 '' @ [CHR 0xC2, CHR 0xA7] @ ''5 recommends more nameservers for topological / provider diversity.  '' @ [CHR 0x0A] @
      ''**Investigate**: NS records panels below; add at least one more NS.'')\<rparr>\<close>

definition ns_row_B :: statusCheck where \<open>ns_row_B =
  \<lparr>refId = ''B'',
    expr = ''min by (zone) (dnshealth_query_success{check="soa",zone="$zone"}) or on() vector(0)'',
    naExpr = [],
    warnExpr = [],
    legendFormat = ''All NSs answered SOA authoritatively'',
    detail = (''**Metric**: `min(dnshealth_query_success{check="soa"})`  '' @ [CHR 0x0A] @
      ''**Why FAIL matters**: At least one NS isn't responding correctly; further failures take the zone dark.  '' @ [CHR 0x0A] @
      ''**Investigate**: NS records (from the zone) '' @ [CHR 0xE2, CHR 0x80, CHR 0x94] @ '' `Responded` column highlights which NS failed.'')\<rparr>\<close>

definition ns_row_C :: statusCheck where \<open>ns_row_C =
  \<lparr>refId = ''C'',
    expr = ''(max by (zone) (dnshealth_ns_recursion_available{zone="$zone"}) == bool 0) or on() vector(0)'',
    naExpr = [],
    warnExpr = [],
    legendFormat = ''No NS advertises recursion (RA=0)'',
    detail = (''**Metric**: `max(dnshealth_ns_recursion_available) == 0`  '' @ [CHR 0x0A] @
      ''**Why FAIL matters**: Open recursive resolvers can be abused for DNS amplification / reflection attacks.  '' @ [CHR 0x0A] @
      ''**Investigate**: NS records (from the zone) '' @ [CHR 0xE2, CHR 0x80, CHR 0x94] @ '' `Recursion` column highlights the offending NS.'')\<rparr>\<close>

definition ns_row_D :: statusCheck where \<open>ns_row_D =
  \<lparr>refId = ''D'',
    expr = ''(min by (zone) (count by (zone, nameserver) (group by (zone, nameserver, source) (dnshealth_ns_record{zone="$zone"}))) == bool 2) or on() vector(0)'',
    naExpr = [],
    warnExpr = [],
    legendFormat = ''Parent and self report same NS records'',
    detail = (''**Metric**: per-nameserver count of distinct sources in `dnshealth_ns_record`, aggregated `min by (zone) == 2`  '' @ [CHR 0x0A] @
      ''**Why FAIL matters**: At least one NS hostname appears on only one side '' @ [CHR 0xE2, CHR 0x80, CHR 0x94] @ '' parent and zone disagree on the NS set, so resolvers picking either side may reach servers the other doesn't know about. The check is set-equality on **names**; IP-level glue disagreement is a separate concern (#37).  '' @ [CHR 0x0A] @
      ''**Investigate**: NS records (from parent) and NS records (from the zone) tables side-by-side '' @ [CHR 0xE2, CHR 0x80, CHR 0x94] @ '' the hostname appearing in only one table is the discrepancy.'')\<rparr>\<close>

definition ns_row_E :: statusCheck where \<open>ns_row_E =
  \<lparr>refId = ''E'',
    expr = ''min by (zone) (dnshealth_ns_hostname_syntax_valid{zone="$zone"}) or on() vector(0)'',
    naExpr = [],
    warnExpr = [],
    legendFormat = ''All NS hostnames syntactically valid (LDH)'',
    detail = (''**Metric**: `min(dnshealth_ns_hostname_syntax_valid)`  '' @ [CHR 0x0A] @
      ''**Why FAIL matters**: Hostnames violating RFC 952 / 1123 (underscores, leading/trailing hyphens) may be rejected by strict resolvers.  '' @ [CHR 0x0A] @
      ''**Investigate**: NS records tables show each NS hostname '' @ [CHR 0xE2, CHR 0x80, CHR 0x94] @ '' find the one with the invalid character.'')\<rparr>\<close>

definition ns_row_F :: statusCheck where \<open>ns_row_F =
  \<lparr>refId = ''F'',
    expr = ''((max by (zone) (dnshealth_ns_hostname_is_cname{zone="$zone"})) == bool 0) or on() vector(0)'',
    naExpr = [],
    warnExpr = [],
    legendFormat = (''No NS hostname is a CNAME (RFC 2181 '' @ [CHR 0xC2, CHR 0xA7] @ ''10.3)''),
    detail = (''**Metric**: `max(dnshealth_ns_hostname_is_cname) == 0`  '' @ [CHR 0x0A] @
      ''**Why FAIL matters**: NS records pointing at a CNAME violate RFC 2181 '' @ [CHR 0xC2, CHR 0xA7] @ ''10.3; resolver handling is inconsistent '' @ [CHR 0xE2, CHR 0x86, CHR 0x92] @ '' intermittent resolution failures.  '' @ [CHR 0x0A] @
      ''**Investigate**: NS records tables show each NS hostname; check its CNAME chain externally.'')\<rparr>\<close>

definition ns_row_G :: statusCheck where \<open>ns_row_G =
  \<lparr>refId = ''G'',
    expr = ''(max by (zone) (dnshealth_ns_classification_count{classification="self-only",zone="$zone"}) == bool 0) and on(zone) (max by (zone) (dnshealth_ns_classification_count{classification="parent-only",zone="$zone"}) == bool 0) or on() vector(0)'',
    naExpr = [],
    warnExpr = [],
    legendFormat = ''No stealth NSes (parent and self agree on NS set)'',
    detail = (''**Metric**: `dnshealth_ns_classification_count{classification="self-only"|"parent-only"}`  '' @ [CHR 0x0A] @
      ''**Why FAIL matters**: At least one NS hostname is asymmetric '' @ [CHR 0xE2, CHR 0x80, CHR 0x94] @ '' the parent advertises an NS the zone's own authoritative servers don't list (parent-only), or an auth lists an NS the parent doesn't (self-only, the "stealth" case). Self-only divergence can be a legitimate hidden-master setup (NOTIFY-driven primary not in the public NS set, by design) '' @ [CHR 0xE2, CHR 0x80, CHR 0x94] @ '' verify intent before alerting.  '' @ [CHR 0x0A] @
      ''**Scope limitation**: This row detects asymmetry between sources we can query. RFC 8499 "stealth" servers '' @ [CHR 0xE2, CHR 0x80, CHR 0x94] @ '' those absent from EVERY public source '' @ [CHR 0xE2, CHR 0x80, CHR 0x94] @ '' are not detectable by any single-vantage-point exporter and remain invisible to this check. See spec 007.  '' @ [CHR 0x0A] @
      ''**Investigate**: NS records (from parent) and NS records (from the zone) tables side-by-side '' @ [CHR 0xE2, CHR 0x80, CHR 0x94] @ '' the hostname appearing in only one table is the asymmetric NS. For self-only cases, check `dnshealth_ns_stealth_reachable{nameserver=X}` '' @ [CHR 0xE2, CHR 0x80, CHR 0x94] @ '' 1 = working hidden master, 0 = leaked listing.'')\<rparr>\<close>

definition ns_row_H :: statusCheck where \<open>ns_row_H =
  \<lparr>refId = ''H'',
    expr = ''(max by (zone) ((count by (zone,nameserver) (group by (zone,nameserver,source) (dnshealth_ns_glue{zone="$zone"})) == bool 2) * (min by (zone,nameserver) (count by (zone,nameserver,ip) (group by (zone,nameserver,ip,source) (dnshealth_ns_glue{zone="$zone"}))) != bool 2)) == bool 0) or on() vector(0)'',
    naExpr = ''absent(dnshealth_ns_glue{source="parent",zone="$zone"})'',
    warnExpr = [],
    legendFormat = ''Parent glue agrees with auth-reported addresses'',
    detail = (''**Metric**: per-(nameserver, ip) source coverage in `dnshealth_ns_glue`, evaluated only for NS hostnames present on **both** sides  '' @ [CHR 0x0A] @
      ''**Why FAIL matters**: For a nameserver the parent glues AND the auth answers for, the IP addresses disagree '' @ [CHR 0xE2, CHR 0x80, CHR 0x94] @ '' the parent's glue points resolvers at one address while the zone's own A/AAAA records say another. Resolvers seeded from the parent reach the glue IP; resolvers that re-query the auth reach the other. Depending on caching and lookup path, end users hit different servers and see inconsistent answers. This is intoDNS's "Glue" check.  '' @ [CHR 0x0A] @
      ''**Scope**: Only hostnames present on both sides are compared, so a name missing from one side (out-of-bailiwick NS whose A the auth doesn't host, or a lame server) is left to the NS-set rows above, not double-counted here. The check is set-equality on the shared hostnames' (hostname, IP) tuples '' @ [CHR 0xE2, CHR 0x80, CHR 0x94] @ '' an address present on only one side (e.g. a partially-glued anycast set) also FAILs.  '' @ [CHR 0x0A] @
      ''**N/A**: the parent provided no glue for this zone (every NS is out-of-bailiwick, or the delegation walk returned none) '' @ [CHR 0xE2, CHR 0x80, CHR 0x94] @ '' there are no parent-side addresses to compare.  '' @ [CHR 0x0A] @
      ''**Investigate**: NS records (from parent) vs NS records (from the zone) tables '' @ [CHR 0xE2, CHR 0x80, CHR 0x94] @ '' find the hostname whose `ip` differs between the two sources.'')\<rparr>\<close>

definition nsStatusChecks :: "statusCheck list" where
  "nsStatusChecks = [ns_row_A, ns_row_B, ns_row_C, ns_row_D, ns_row_E, ns_row_F, ns_row_G, ns_row_H]"

section \<open>The SOA record\<close>

definition soaNoData :: string where
  \<open>soaNoData = ''absent(dnshealth_soa_serial{zone="$zone"})''\<close>

definition orNoData :: "string \<Rightarrow> string" where
  \<open>orNoData base = base @ '' or '' @ soaNoData\<close>

definition soa_row_A :: statusCheck where \<open>soa_row_A =
  \<lparr>refId = ''A'',
    expr = ''((max by (zone) (dnshealth_soa_serial{zone="$zone"}) - min by (zone) (dnshealth_soa_serial{zone="$zone"})) == bool 0) and on(zone) (count by (zone) (dnshealth_soa_serial{zone="$zone"}) > bool 0) or on() vector(0)'',
    naExpr = soaNoData,
    warnExpr = [],
    legendFormat = ''All NSs report same SOA serial'',
    detail = (''**Metric**: `max(dnshealth_soa_serial) - min(dnshealth_soa_serial) == 0`  '' @ [CHR 0x0A] @
      ''**Why FAIL matters**: Secondaries haven't pulled the latest zone '' @ [CHR 0xE2, CHR 0x80, CHR 0x94] @ '' resolvers may serve stale data depending on which NS they hit.  '' @ [CHR 0x0A] @
      ''**N/A**: no NS answered the SOA query this cycle '' @ [CHR 0xE2, CHR 0x80, CHR 0x94] @ '' there are no serials to compare.  '' @ [CHR 0x0A] @
      ''**Investigate**: SOA per-nameserver table below '' @ [CHR 0xE2, CHR 0x80, CHR 0x94] @ '' find the NS reporting an out-of-date serial.'')\<rparr>\<close>

definition soa_row_B :: statusCheck where \<open>soa_row_B =
  \<lparr>refId = ''B'',
    expr = ''(count by (zone) (dnshealth_soa_serial{zone="$zone"}) >= bool 1) or on() vector(0)'',
    naExpr = soaNoData,
    warnExpr = ''min by (zone) (dnshealth_soa_mname_in_ns_set{zone="$zone"}) == bool 0'',
    legendFormat = ''SOA MNAME is in zone's NS RR set'',
    detail = (''**Metric**: `min(dnshealth_soa_mname_in_ns_set)`  '' @ [CHR 0x0A] @
      ''**WARN (not FAIL) matters**: The MNAME identifies the primary master. An MNAME outside the NS set is RFC-allowed and normal for hidden-master setups (NOTIFY-driven primary not in the public NS set) '' @ [CHR 0xE2, CHR 0x80, CHR 0x94] @ '' so this is a soft 'verify intent' warning, not an error. If it's unintentional, NOTIFY may target the wrong server.  '' @ [CHR 0x0A] @
      ''**N/A**: no NS answered the SOA query this cycle.  '' @ [CHR 0x0A] @
      ''**Investigate**: SOA per-nameserver table '' @ [CHR 0xE2, CHR 0x80, CHR 0x94] @ '' each row's `mname` label vs. the NS records tables.'')\<rparr>\<close>

definition soa_row_C :: statusCheck where \<open>soa_row_C =
  \<lparr>refId = ''C'',
    expr = ''min by (zone) (dnshealth_soa_mname_resolves{zone="$zone"}) or on() vector(0)'',
    naExpr = soaNoData,
    warnExpr = [],
    legendFormat = ''SOA MNAME hostname resolves to A or AAAA'',
    detail = (''**Metric**: `min(dnshealth_soa_mname_resolves)`  '' @ [CHR 0x0A] @
      ''**Why FAIL matters**: NOTIFY and dynamic updates target the MNAME hostname; if it doesn't resolve, both mechanisms break silently.  '' @ [CHR 0x0A] @
      ''**N/A**: no NS answered the SOA query this cycle '' @ [CHR 0xE2, CHR 0x80, CHR 0x94] @ '' there is no MNAME to resolve.  '' @ [CHR 0x0A] @
      ''**Investigate**: SOA per-nameserver table shows the `mname` label '' @ [CHR 0xE2, CHR 0x80, CHR 0x94] @ '' try resolving that hostname externally.'')\<rparr>\<close>

definition soaStatusChecks :: "statusCheck list" where
  "soaStatusChecks = [soa_row_A, soa_row_B, soa_row_C]"

section \<open>The MX records\<close>

definition mxNoRealTargets :: string where
  \<open>mxNoRealTargets = ''clamp_max((dnshealth_mx_count{zone="$zone"} == bool 0) + on(zone) (dnshealth_mx_null_mx{zone="$zone"} == bool 1), 1)''\<close>

definition mxNotApplicable :: string where
  \<open>mxNotApplicable = orNoData (mxNoRealTargets)\<close>

definition mx_row_A :: statusCheck where \<open>mx_row_A =
  \<lparr>refId = ''A'',
    expr = ''((dnshealth_mx_count{zone="$zone"} > bool 0) or on(zone) (dnshealth_mx_null_mx{zone="$zone"} == bool 1)) or on() vector(0)'',
    naExpr = soaNoData,
    warnExpr = ''(dnshealth_mx_count{zone="$zone"} == bool 1) * on(zone) (dnshealth_mx_null_mx{zone="$zone"} == bool 0)'',
    legendFormat = ''Zone has MX records (or Null MX intentionally set)'',
    detail = (''**Metric**: `dnshealth_mx_count` + `dnshealth_mx_null_mx`  '' @ [CHR 0x0A] @
      ''**Why FAIL matters**: Zone publishes no MX records AND no Null MX declaration '' @ [CHR 0xE2, CHR 0x80, CHR 0x94] @ '' all incoming email fails. Either publish MX records or declare Null MX (`0 .`) per RFC 7505 if no email is intended.  '' @ [CHR 0x0A] @
      ''**WARN at exactly one MX**: mail is deliverable but there is no backup MX '' @ [CHR 0xE2, CHR 0x80, CHR 0x94] @ '' a single MX outage takes inbound mail down. Add a lower-priority backup MX for redundancy.  '' @ [CHR 0x0A] @
      ''**Investigate**: per-MX records table below shows what the zone advertises; check the auth's zone file for the MX RR set.'')\<rparr>\<close>

definition mx_row_B :: statusCheck where \<open>mx_row_B =
  \<lparr>refId = ''B'',
    expr = ''(dnshealth_mx_count{zone="$zone"} == bool dnshealth_mx_resolved_count{zone="$zone"}) or on() vector(0)'',
    naExpr = mxNotApplicable,
    warnExpr = [],
    legendFormat = ''All MX targets resolve'',
    detail = (''**Metric**: `dnshealth_mx_count == dnshealth_mx_resolved_count`  '' @ [CHR 0x0A] @
      ''**Why FAIL matters**: At least one MX target's hostname doesn't resolve to A or AAAA. Inbound mail attempts for that target will fail.  '' @ [CHR 0x0A] @
      ''**N/A**: the zone has no MX records, or is Null MX (`0 .`) '' @ [CHR 0xE2, CHR 0x80, CHR 0x94] @ '' there are no targets to resolve, so the check does not apply.  '' @ [CHR 0x0A] @
      ''**Investigate**: per-MX records table '' @ [CHR 0xE2, CHR 0x80, CHR 0x94] @ '' `resolves=0` column identifies the offending target.'')\<rparr>\<close>

definition mx_row_C :: statusCheck where \<open>mx_row_C =
  \<lparr>refId = ''C'',
    expr = ''(dnshealth_mx_cname_count{zone="$zone"} == bool 0) or on() vector(0)'',
    naExpr = mxNotApplicable,
    warnExpr = [],
    legendFormat = (''No MX target is a CNAME (RFC 2181 '' @ [CHR 0xC2, CHR 0xA7] @ ''10.3)''),
    detail = (''**Metric**: `dnshealth_mx_cname_count == 0`  '' @ [CHR 0x0A] @
      ''**Why FAIL matters**: At least one MX target is an alias (CNAME), violating RFC 2181 '' @ [CHR 0xC2, CHR 0xA7] @ ''10.3. Many MTAs handle this inconsistently; some refuse delivery outright.  '' @ [CHR 0x0A] @
      ''**N/A**: the zone has no MX records, or is Null MX '' @ [CHR 0xE2, CHR 0x80, CHR 0x94] @ '' no targets to check.  '' @ [CHR 0x0A] @
      ''**Investigate**: per-MX records table '' @ [CHR 0xE2, CHR 0x80, CHR 0x94] @ '' `is_cname=1` column identifies the offending target.'')\<rparr>\<close>

definition mx_row_D :: statusCheck where \<open>mx_row_D =
  \<lparr>refId = ''D'',
    expr = ''(dnshealth_mx_count{zone="$zone"} == bool dnshealth_mx_syntax_valid_count{zone="$zone"}) or on() vector(0)'',
    naExpr = mxNotApplicable,
    warnExpr = [],
    legendFormat = ''All MX target hostnames syntactically valid (LDH)'',
    detail = (''**Metric**: `dnshealth_mx_count == dnshealth_mx_syntax_valid_count`  '' @ [CHR 0x0A] @
      ''**Why FAIL matters**: At least one MX target hostname has invalid syntax (underscore, leading/trailing hyphen, etc.) per RFC 952/1123. Some strict resolvers may reject.  '' @ [CHR 0x0A] @
      ''**N/A**: the zone has no MX records, or is Null MX '' @ [CHR 0xE2, CHR 0x80, CHR 0x94] @ '' no hostnames to validate.  '' @ [CHR 0x0A] @
      ''**Investigate**: per-MX records table; the same LDH check is applied to NS hostnames in spec N6 '' @ [CHR 0xE2, CHR 0x80, CHR 0x94] @ '' see that row for the validator details.'')\<rparr>\<close>

definition mx_row_E :: statusCheck where \<open>mx_row_E =
  \<lparr>refId = ''E'',
    expr = ''(1 - clamp_max((dnshealth_mx_has_null_mx_rr{zone="$zone"} == bool 1) * on(zone) (dnshealth_mx_count{zone="$zone"} > bool 1), 1)) or on() vector(0)'',
    naExpr = soaNoData,
    warnExpr = [],
    legendFormat = ''No conflict between Null MX and real MX records'',
    detail = (''**Metric**: derived from `dnshealth_mx_has_null_mx_rr` + `dnshealth_mx_count`  '' @ [CHR 0x0A] @
      ''**Why FAIL matters**: Zone publishes a Null MX RR (`0 .`) AND additional MX records. RFC 7505 '' @ [CHR 0xC2, CHR 0xA7] @ ''3 requires Null MX to be the SOLE MX record; coexistence is undefined and likely interpreted differently by different MTAs.  '' @ [CHR 0x0A] @
      ''**Investigate**: auth's zone file '' @ [CHR 0xE2, CHR 0x80, CHR 0x94] @ '' remove either the Null MX RR (if you want to accept email) or the real MX records (if you don't). The distinction between `dnshealth_mx_null_mx` (canonical form only) and `dnshealth_mx_has_null_mx_rr` (any Null MX RR present, regardless of count) is what makes this row catchable '' @ [CHR 0xE2, CHR 0x80, CHR 0x94] @ '' see spec 008 audit D-5.'')\<rparr>\<close>

definition mxStatusChecks :: "statusCheck list" where
  "mxStatusChecks = [mx_row_A, mx_row_B, mx_row_C, mx_row_D, mx_row_E]"

section \<open>SPF and DMARC\<close>

definition spf_row_A :: statusCheck where \<open>spf_row_A =
  \<lparr>refId = ''A'',
    expr = ''1 - clamp_max((max by (zone) (dnshealth_spf_record_count{zone="$zone"}) > bool 1) + (max by (zone) (dnshealth_spf_present{zone="$zone"}) == bool 1) * (max by (zone) (dnshealth_spf_valid{zone="$zone"}) == bool 0), 1)'',
    naExpr = orNoData (''absent(dnshealth_spf_present{zone="$zone"})''),
    warnExpr = ''max by (zone) (dnshealth_spf_present{zone="$zone"}) == bool 0'',
    legendFormat = ''Zone publishes a single valid SPF record'',
    detail = (''**Metric**: `dnshealth_spf_present` / `dnshealth_spf_record_count` / `dnshealth_spf_valid`  '' @ [CHR 0x0A] @
      ''**WARN (absent)**: the zone publishes no SPF record. Even a domain that sends no mail should publish `v=spf1 -all` to stop spammers forging it as the sender '' @ [CHR 0xE2, CHR 0x80, CHR 0x94] @ '' SPF protects the domain regardless of whether it receives mail (MX), so this applies to no-mail and Null-MX zones too. Verify intent.  '' @ [CHR 0x0A] @
      ''**FAIL (broken)**: more than one `v=spf1` record (RFC 7208 '' @ [CHR 0xC2, CHR 0xA7] @ ''3.2 permanent error) or a malformed record '' @ [CHR 0xE2, CHR 0x80, CHR 0x94] @ '' receivers get a PermError and SPF effectively does not work.  '' @ [CHR 0x0A] @
      ''**Investigate**: the zone's apex TXT records.'')\<rparr>\<close>

definition spf_row_B :: statusCheck where \<open>spf_row_B =
  \<lparr>refId = ''B'',
    expr = ''max by (zone) (dnshealth_spf_terminal_all{zone="$zone"})'',
    naExpr = ''absent(dnshealth_spf_terminal_all{zone="$zone"})'',
    warnExpr = ''max by (zone) (dnshealth_spf_terminal_all{zone="$zone",qualifier=~"neutral|none|pass"})'',
    legendFormat = ''SPF ends in a restrictive 'all' qualifier'',
    detail = (''**Metric**: `dnshealth_spf_terminal_all{qualifier}`  '' @ [CHR 0x0A] @
      ''**PASS**: the record ends in `-all` (fail) or `~all` (softfail) '' @ [CHR 0xE2, CHR 0x80, CHR 0x94] @ '' unauthorized senders are rejected or marked.  '' @ [CHR 0x0A] @
      ''**WARN**: `?all` (neutral), no terminal `all`, or `+all` '' @ [CHR 0xE2, CHR 0x80, CHR 0x94] @ '' `+all` is syntactically valid but authorizes ANY sender to spoof the domain, which is reckless; the others assert nothing. Verify intent.  '' @ [CHR 0x0A] @
      ''**N/A**: the zone has no single SPF record (absent, or multiple records '' @ [CHR 0xE2, CHR 0x80, CHR 0x94] @ '' see the row above).  '' @ [CHR 0x0A] @
      ''**Investigate**: the apex `v=spf1` record's final mechanism.'')\<rparr>\<close>

definition spf_row_C :: statusCheck where \<open>spf_row_C =
  \<lparr>refId = ''C'',
    expr = ''max by (zone) (dnshealth_spf_lookup_budget_exceeded{zone="$zone"}) == bool 0'',
    naExpr = ''absent(dnshealth_spf_lookup_budget_exceeded{zone="$zone"})'',
    warnExpr = [],
    legendFormat = (''SPF within the 10-lookup budget (RFC 7208 '' @ [CHR 0xC2, CHR 0xA7] @ ''4.6.4)''),
    detail = (''**Metric**: `dnshealth_spf_lookup_budget_exceeded` / `dnshealth_spf_lookup_count`  '' @ [CHR 0x0A] @
      ''**Why FAIL matters**: the SPF record requires more than 10 DNS lookups to evaluate (counting recursively through every `include:`/`redirect=`). Receiving mail servers return **PermError** per RFC 7208 '' @ [CHR 0xC2, CHR 0xA7] @ ''4.6.4 and SPF silently stops working '' @ [CHR 0xE2, CHR 0x80, CHR 0x94] @ '' even though the record looks fine by eye. The offending lookups are usually buried inside third-party `include:` records.  '' @ [CHR 0x0A] @
      ''**Count semantics**: `dnshealth_spf_lookup_count` is exact for 0'' @ [CHR 0xE2, CHR 0x80, CHR 0x93] @ ''10; an over-budget record reads **11 ("'' @ [CHR 0xE2, CHR 0x89, CHR 0xA5] @ ''11")** '' @ [CHR 0xE2, CHR 0x80, CHR 0x94] @ '' the walk stops the instant it knows it's over.  '' @ [CHR 0x0A] @
      ''**Trust**: a FAIL fires only on a *resolved* over-budget count. If a third-party include is briefly unreachable this cycle, the row stays PASS and `dnshealth_spf_lookup_eval_complete` reads 0 (the count is a lower bound) '' @ [CHR 0xE2, CHR 0x80, CHR 0x94] @ '' no false alarm from a flaky include.  '' @ [CHR 0x0A] @
      ''**N/A**: the zone has no single valid SPF record (absent / multiple / malformed '' @ [CHR 0xE2, CHR 0x80, CHR 0x94] @ '' see the rows above).  '' @ [CHR 0x0A] @
      ''**Investigate**: expand the apex `include:` tree; trim or flatten third-party includes.'')\<rparr>\<close>

definition spfStatusChecks :: "statusCheck list" where
  "spfStatusChecks = [spf_row_A, spf_row_B, spf_row_C]"

definition dmarc_row_A :: statusCheck where \<open>dmarc_row_A =
  \<lparr>refId = ''A'',
    expr = ''1 - clamp_max((max by (zone) (dnshealth_dmarc_present{zone="$zone"}) == bool 1) * (max by (zone) (dnshealth_dmarc_valid{zone="$zone"}) == bool 0), 1)'',
    naExpr = orNoData (''absent(dnshealth_dmarc_present{zone="$zone"})''),
    warnExpr = ''max by (zone) (dnshealth_dmarc_present{zone="$zone"}) == bool 0'',
    legendFormat = ''Zone publishes a valid DMARC record'',
    detail = (''**Metric**: `dnshealth_dmarc_present` / `dnshealth_dmarc_valid`  '' @ [CHR 0x0A] @
      ''**WARN (absent)**: no DMARC record at `_dmarc.<zone>`. DMARC ties SPF/DKIM together with alignment and tells receivers what to do on failure; without it, look-alike spoofing SPF alone can't stop is unmitigated. A no-mail / Null-MX domain still benefits (publish `p=reject`). Verify intent.  '' @ [CHR 0x0A] @
      ''**FAIL (broken)**: a `v=DMARC1` record with no valid `p=` tag (RFC 7489 '' @ [CHR 0xC2, CHR 0xA7] @ ''6.3 requires it) '' @ [CHR 0xE2, CHR 0x80, CHR 0x94] @ '' receivers can't apply a policy.  '' @ [CHR 0x0A] @
      ''**Investigate**: the `_dmarc.<zone>` TXT record.'')\<rparr>\<close>

definition dmarc_row_B :: statusCheck where \<open>dmarc_row_B =
  \<lparr>refId = ''B'',
    expr = ''max by (zone) (dnshealth_dmarc_policy{zone="$zone"})'',
    naExpr = ''absent(dnshealth_dmarc_policy{zone="$zone"})'',
    warnExpr = ''max by (zone) (dnshealth_dmarc_policy{zone="$zone",policy="none"})'',
    legendFormat = ''DMARC enforces a policy (quarantine or reject)'',
    detail = (''**Metric**: `dnshealth_dmarc_policy{policy}`  '' @ [CHR 0x0A] @
      ''**PASS**: `p=quarantine` or `p=reject` '' @ [CHR 0xE2, CHR 0x80, CHR 0x94] @ '' the domain enforces alignment, so spoofed mail is quarantined or rejected.  '' @ [CHR 0x0A] @
      ''**WARN**: `p=none` '' @ [CHR 0xE2, CHR 0x80, CHR 0x94] @ '' DMARC is published but only MONITORS; it does not enforce, so spoofed mail is still delivered. A legitimate rollout stage, but verify it's intended to stay there.  '' @ [CHR 0x0A] @
      ''**N/A**: the zone has no valid DMARC record (absent or malformed '' @ [CHR 0xE2, CHR 0x80, CHR 0x94] @ '' see the row above).  '' @ [CHR 0x0A] @
      ''**Investigate**: the `p=` tag of the `_dmarc.<zone>` record.'')\<rparr>\<close>

definition dmarcStatusChecks :: "statusCheck list" where
  "dmarcStatusChecks = [dmarc_row_A, dmarc_row_B]"

section \<open>The tables\<close>

definition parentStatusTable :: "32 word \<Rightarrow> panel option" where
  \<open>parentStatusTable yOffset = at_row 4 yOffset
     (\<lambda>y. statusTable (''Parent '' @ [CHR 0xE2, CHR 0x80, CHR 0x94] @ '' status'') (gridPos 0 y 8 10) parentStatusChecks)\<close>

definition nsStatusTable :: "32 word \<Rightarrow> panel option" where
  \<open>nsStatusTable yOffset = at_row 4 yOffset
     (\<lambda>y. statusTable (''NS '' @ [CHR 0xE2, CHR 0x80, CHR 0x94] @ '' status'') (gridPos 8 y 8 10) nsStatusChecks)\<close>

definition soaStatusTable :: "32 word \<Rightarrow> panel option" where
  \<open>soaStatusTable yOffset = at_row 4 yOffset
     (\<lambda>y. statusTable (''SOA '' @ [CHR 0xE2, CHR 0x80, CHR 0x94] @ '' status'') (gridPos 16 y 8 10) soaStatusChecks)\<close>

definition mxStatusTable :: "32 word \<Rightarrow> panel option" where
  \<open>mxStatusTable yOffset = at_row (mailRowY 0) yOffset
     (\<lambda>y. statusTable (''MX '' @ [CHR 0xE2, CHR 0x80, CHR 0x94] @ '' status'') (gridPos 0 y 12 8) mxStatusChecks)\<close>

definition spfStatusTable :: "32 word \<Rightarrow> panel option" where
  \<open>spfStatusTable yOffset = at_row (mailRowY 1) yOffset
     (\<lambda>y. statusTable (''SPF '' @ [CHR 0xE2, CHR 0x80, CHR 0x94] @ '' status'') (gridPos 0 y 12 8) spfStatusChecks)\<close>

definition dmarcStatusTable :: "32 word \<Rightarrow> panel option" where
  \<open>dmarcStatusTable yOffset = at_row (mailRowY 2) yOffset
     (\<lambda>y. statusTable (''DMARC '' @ [CHR 0xE2, CHR 0x80, CHR 0x94] @ '' status'') (gridPos 0 y 12 8) dmarcStatusChecks)\<close>

section \<open>Reading the tables\<close>

lemmas status_check_lists [panel_simps] =
  parentStatusChecks_def nsStatusChecks_def soaStatusChecks_def mxStatusChecks_def spfStatusChecks_def dmarcStatusChecks_def

text \<open>Every check is documented.\<close>

lemma checks_documented:
  "list_all (\<lambda>c. detail c \<noteq> [] \<and> legendFormat c \<noteq> [])
     (parentStatusChecks @ nsStatusChecks @ soaStatusChecks @ mxStatusChecks @ spfStatusChecks @ dmarcStatusChecks)"
  by code_simp

text \<open>A status table stands where it is put, and asks one query per check, in order.\<close>

lemma statusTable_reads [panel_simps]:
  "panel_grids (statusTable t pos checks) = [pos]"
  "panel_targets (statusTable t pos checks) =
     map (\<lambda>c. [RefId (refId c), Expr (composeStatusExpr c), LegendFormat (legendFormat c), Instant]) checks"
  "panel_exprs (statusTable t pos checks) = map composeStatusExpr checks"
proof -
  have "List.map_filter call_target (map status_query cs) =
      map (\<lambda>c. [RefId (refId c), Expr (composeStatusExpr c), LegendFormat (legendFormat c), Instant]) cs"
    and "List.map_filter call_grid (map status_query cs) = []" for cs
    by (induction cs) (simp_all add: map_filter_simps status_query_def)
  then show "panel_grids (statusTable t pos checks) = [pos]"
    and targets: "panel_targets (statusTable t pos checks) =
      map (\<lambda>c. [RefId (refId c), Expr (composeStatusExpr c), LegendFormat (legendFormat c), Instant]) checks"
    by (simp_all add: statusTable_def panel_grids_def panel_targets_def map_filter_simps)
  show "panel_exprs (statusTable t pos checks) = map composeStatusExpr checks"
    unfolding panel_exprs_def targets by (induction checks) (simp_all add: map_filter_simps)
qed

end
