(* ===== verification/Dashboard.thy ===== *)
theory Dashboard
  imports Status_Rows
begin

text \<open>
  The records tables, the operator panels, the layout of the two variants and the generator's main
  function (\<^verbatim>\<open>demo/dashboard\<close>: \<^verbatim>\<open>panels_records.go\<close>, \<^verbatim>\<open>panels_operator.go\<close>,
  \<^verbatim>\<open>panels_info.go\<close>, \<^verbatim>\<open>dashboard.go\<close>, \<^verbatim>\<open>main.go\<close>). Building and JSON encoding are the
  SDK's and the standard library's: parameters of \<open>buildOverview\<close>, \<open>marshalDashboard\<close> and
  \<open>generator_main\<close>.
\<close>

section \<open>The records tables\<close>

text \<open>The columns of a literal whose every value is true.\<close>

definition hidden :: "string list \<Rightarrow> (string \<times> bool) list" where
  "hidden names = map (\<lambda>n. (n, True)) names"

definition parentNSRecordsTable_calls :: "32 word \<Rightarrow> panel_call list" where
  \<open>parentNSRecordsTable_calls y =
     [Title (''NS records '' @ [CHR 0xE2, CHR 0x80, CHR 0x94] @ '' from parent''),
      Description ''What the parent referral lists as the zone's NSs. Glue IP empty = parent did not include A glue (exporter resolved separately).'',
      AtGridPos (gridPos 0 y 8 10),
      Datasource prometheusDS,
      ShowHeader True,
      CellHeight TableCellHeightSm,
      WithTarget [RefId ''A'', Expr ''dnshealth_ns_record{source="parent",zone="$zone"}'', Format PromQueryFormatTable, Instant],
      WithTransformation (Organize
        \<lparr>RenameByName = [(''nameserver'', ''Nameserver''), (''ip'', ''Glue IP'')],
         IndexByName = [(''nameserver'', 0), (''ip'', 1)],
         ExcludeByName = hidden [''Time'', ''source'', ''zone'', ''Value'', ''__name__'', ''instance'', ''job'']\<rparr>),
      OverrideByName ''Glue IP'' [(''mappings'', JList emptyGlueMapping)],
      SortBy (sortByAsc ''Nameserver'')]\<close>

definition parentNSRecordsTable :: "32 word \<Rightarrow> panel option" where
  "parentNSRecordsTable yOffset = at_row 14 yOffset (\<lambda>y. (TablePanel, parentNSRecordsTable_calls y))"

definition selfNSRecordsTable_calls :: "32 word \<Rightarrow> panel_call list" where
  \<open>selfNSRecordsTable_calls y =
     [Title (''NS records '' @ [CHR 0xE2, CHR 0x80, CHR 0x94] @ '' from the zone''),
      Description (''What the auth servers themselves report as the zone's NSs (source="self" rows from the glue prober), joined with each NS's probe response (Responded = SOA query succeeded, Recursion = RA flag set). Empty Responded/Recursion cells mean the exporter has no probe data for that NS '' @ [CHR 0xE2, CHR 0x80, CHR 0x94] @ '' happens when the auth's self-reported NS list does not match what the parent advertised, since SOA/recursion checks only run against parent-listed NSs.''),
      AtGridPos (gridPos 8 y 8 10),
      Datasource prometheusDS,
      ShowHeader True,
      CellHeight TableCellHeightSm,
      WithTarget [RefId ''A'', Expr ''dnshealth_ns_record{source="self",zone="$zone"}'', Format PromQueryFormatTable, Instant],
      WithTarget [RefId ''B'', Expr ''dnshealth_query_success{check="soa",zone="$zone"}'', Format PromQueryFormatTable, Instant],
      WithTarget [RefId ''C'', Expr ''dnshealth_ns_recursion_available{zone="$zone"}'', Format PromQueryFormatTable, Instant],
      WithTransformation (JoinByField \<lparr>ByField = ''nameserver'', jb_Mode = ''outer''\<rparr>),
      WithTransformation (FilterByValue
        \<lparr>Filters = [\<lparr>FieldName = ''Value #A'', fv_Config = \<lparr>fm_Id = ''isNotNull'', fm_Options = []\<rparr>\<rparr>],
         fv_Type = ''include'', fv_Match = ''all''\<rparr>),
      WithTransformation (Organize
        \<lparr>RenameByName = [(''nameserver'', ''Nameserver''), (''ip 1'', ''IP''), (''Value #B'', ''Responded''), (''Value #C'', ''Recursion'')],
         IndexByName = [(''nameserver'', 0), (''ip 1'', 1), (''Value #B'', 2), (''Value #C'', 3)],
         ExcludeByName = hidden [''Time 1'', ''Time 2'', ''Time 3'', ''source 1'', ''check'', ''zone 1'', ''zone 2'', ''zone 3'', ''ip 2'', ''ip 3'', 
            ''instance 1'', ''instance 2'', ''instance 3'', ''job 1'', ''job 2'', ''job 3'', ''__name__ 1'', ''__name__ 2'', 
            ''__name__ 3'', ''Value #A'']\<rparr>),
      OverrideByName ''Responded'' [(''mappings'', JList respondedYesNoMappings), (''custom.cellOptions'', cellOptionsColorBackground), (''custom.width'', JNumber 100)],
      OverrideByName ''Recursion'' [(''mappings'', JList recursionYesNoMappings), (''custom.cellOptions'', cellOptionsColorBackground), (''custom.width'', JNumber 100)],
      OverrideByName ''IP'' [(''custom.width'', JNumber 240)],
      SortBy (sortByAsc ''Nameserver'')]\<close>

definition selfNSRecordsTable :: "32 word \<Rightarrow> panel option" where
  "selfNSRecordsTable yOffset = at_row 14 yOffset (\<lambda>y. (TablePanel, selfNSRecordsTable_calls y))"

definition soaSerialsTable_calls :: "32 word \<Rightarrow> panel_call list" where
  \<open>soaSerialsTable_calls y =
     [Title (''SOA '' @ [CHR 0xE2, CHR 0x80, CHR 0x94] @ '' per-nameserver values''),
      Description ''One row per nameserver. Empty/missing rows mean the SOA query failed for that NS.'',
      AtGridPos (gridPos 16 y 8 10),
      Datasource prometheusDS,
      ShowHeader True,
      CellHeight TableCellHeightSm,
      WithTarget [RefId ''A'', Expr ''dnshealth_soa_serial{zone="$zone"}'', Format PromQueryFormatTable, Instant],
      WithTarget [RefId ''B'', Expr ''dnshealth_soa_refresh_seconds{zone="$zone"}'', Format PromQueryFormatTable, Instant],
      WithTarget [RefId ''C'', Expr ''dnshealth_soa_retry_seconds{zone="$zone"}'', Format PromQueryFormatTable, Instant],
      WithTarget [RefId ''D'', Expr ''dnshealth_soa_expire_seconds{zone="$zone"}'', Format PromQueryFormatTable, Instant],
      WithTarget [RefId ''E'', Expr ''dnshealth_soa_minimum_seconds{zone="$zone"}'', Format PromQueryFormatTable, Instant],
      WithTransformation (JoinByField \<lparr>ByField = ''nameserver'', jb_Mode = ''outer''\<rparr>),
      WithTransformation (Organize
        \<lparr>RenameByName = [(''nameserver'', ''Nameserver''), (''ip 1'', ''IP''), (''Value #A'', ''Serial''), (''Value #B'', ''Refresh (s)''), 
            (''Value #C'', ''Retry (s)''), (''Value #D'', ''Expire (s)''), (''Value #E'', ''Min TTL (s)'')],
         IndexByName = [(''nameserver'', 0), (''ip 1'', 1), (''Value #A'', 2), (''Value #B'', 3), (''Value #C'', 4), (''Value #D'', 5), 
            (''Value #E'', 6)],
         ExcludeByName = hidden [''Time 1'', ''Time 2'', ''Time 3'', ''Time 4'', ''Time 5'', ''zone 1'', ''zone 2'', ''zone 3'', ''zone 4'', ''zone 5'', 
            ''ip 2'', ''ip 3'', ''ip 4'', ''ip 5'', ''__name__ 1'', ''__name__ 2'', ''__name__ 3'', ''__name__ 4'', ''__name__ 5'', 
            ''instance 1'', ''instance 2'', ''instance 3'', ''instance 4'', ''instance 5'', ''job 1'', ''job 2'', ''job 3'', 
            ''job 4'', ''job 5'']\<rparr>),
      OverrideByName ''IP'' [(''custom.width'', JNumber 240)],
      OverrideByName ''Refresh (s)'' [(''custom.width'', JNumber 110)],
      OverrideByName ''Retry (s)'' [(''custom.width'', JNumber 100)],
      OverrideByName ''Expire (s)'' [(''custom.width'', JNumber 110)],
      OverrideByName ''Min TTL (s)'' [(''custom.width'', JNumber 110)],
      SortBy (sortByAsc ''Nameserver'')]\<close>

definition soaSerialsTable :: "32 word \<Rightarrow> panel option" where
  "soaSerialsTable yOffset = at_row 14 yOffset (\<lambda>y. (TablePanel, soaSerialsTable_calls y))"

definition mxRecordsTable_calls :: "32 word \<Rightarrow> panel_call list" where
  \<open>mxRecordsTable_calls y =
     [Title (''MX records '' @ [CHR 0xE2, CHR 0x80, CHR 0x94] @ '' per zone''),
      Description (''Per-MX details for the selected zone: target hostname, priority, resolution status, CNAME status, syntax validity, role (primary = lowest-priority MX; ties at minimum priority all read "primary"). Empty cells in resolves/is-CNAME columns indicate Null MX's "." sentinel target '' @ [CHR 0xE2, CHR 0x80, CHR 0x94] @ '' those checks intentionally don't apply per RFC 7505. SMTP-level reachability is out of scope; use blackbox_exporter with an SMTP prober for that.''),
      AtGridPos (gridPos 12 y 12 8),
      Datasource prometheusDS,
      ShowHeader True,
      CellHeight TableCellHeightSm,
      WithTarget [RefId ''A'', Expr ''dnshealth_mx_info{zone="$zone"}'', Format PromQueryFormatTable, Instant],
      WithTarget [RefId ''B'', Expr ''dnshealth_mx_resolves{zone="$zone"}'', Format PromQueryFormatTable, Instant],
      WithTarget [RefId ''C'', Expr ''dnshealth_mx_is_cname{zone="$zone"}'', Format PromQueryFormatTable, Instant],
      WithTarget [RefId ''D'', Expr ''dnshealth_mx_syntax_valid{zone="$zone"}'', Format PromQueryFormatTable, Instant],
      WithTarget [RefId ''E'', Expr ''dnshealth_mx_is_primary{zone="$zone"}'', Format PromQueryFormatTable, Instant],
      WithTransformation (JoinByField \<lparr>ByField = ''target'', jb_Mode = ''outer''\<rparr>),
      WithTransformation (Organize
        \<lparr>RenameByName = [(''target'', ''Target''), (''priority'', ''Priority''), (''Value #B'', ''Resolves''), (''Value #C'', ''Is CNAME''), 
            (''Value #D'', ''Syntax valid''), (''Value #E'', ''Role'')],
         IndexByName = [(''target'', 0), (''priority'', 1), (''Value #B'', 2), (''Value #C'', 3), (''Value #D'', 4), (''Value #E'', 5)],
         ExcludeByName = hidden [''Time 1'', ''Time 2'', ''Time 3'', ''Time 4'', ''Time 5'', ''zone 1'', ''zone 2'', ''zone 3'', ''zone 4'', ''zone 5'', 
            ''check 1'', ''check 2'', ''check 3'', ''check 4'', ''check 5'', ''ip 1'', ''ip 2'', ''ip 3'', ''ip 4'', ''ip 5'', 
            ''nameserver 1'', ''nameserver 2'', ''nameserver 3'', ''nameserver 4'', ''nameserver 5'', ''__name__ 1'', 
            ''__name__ 2'', ''__name__ 3'', ''__name__ 4'', ''__name__ 5'', ''instance 1'', ''instance 2'', ''instance 3'', 
            ''instance 4'', ''instance 5'', ''job 1'', ''job 2'', ''job 3'', ''job 4'', ''job 5'', ''Value #A'']\<rparr>),
      OverrideByName ''Priority'' [(''custom.width'', JNumber 80)],
      OverrideByName ''Resolves'' [(''mappings'', JList respondedYesNoMappings), (''custom.cellOptions'', cellOptionsColorBackground), (''custom.width'', JNumber 100)],
      OverrideByName ''Is CNAME'' [(''mappings'', JList cnameYesNoMappings), (''custom.cellOptions'', cellOptionsColorBackground), (''custom.width'', JNumber 100)],
      OverrideByName ''Syntax valid'' [(''mappings'', JList respondedYesNoMappings), (''custom.cellOptions'', cellOptionsColorBackground), (''custom.width'', JNumber 110)],
      OverrideByName ''Role'' [(''mappings'', JList mxRoleMappings), (''custom.cellOptions'', cellOptionsColorBackground), (''custom.width'', JNumber 110)],
      SortBy (sortByAsc ''Priority'')]\<close>

definition mxRecordsTable :: "32 word \<Rightarrow> panel option" where
  "mxRecordsTable yOffset = at_row (mailRowY 0) yOffset (\<lambda>y. (TablePanel, mxRecordsTable_calls y))"

definition spfRecordsTable_calls :: "32 word \<Rightarrow> panel_call list" where
  \<open>spfRecordsTable_calls y =
     [Title (''SPF record '' @ [CHR 0xE2, CHR 0x80, CHR 0x94] @ '' per zone''),
      Description (''The actual SPF record the selected zone publishes, with the terminal 'all' qualifier and the RFC 7208 '' @ [CHR 0xC2, CHR 0xA7] @ ''4.6.4 recursive DNS-lookup count (11 means "'' @ [CHR 0xE2, CHR 0x89, CHR 0xA5] @ ''11"). Raw record comes from the dnshealth_spf_record info gauge. A zone with more than one v=spf1 record (an RFC 7208 '' @ [CHR 0xC2, CHR 0xA7] @ ''3.2 PermError) shows every record joined by " | " in the SPF-record cell, with the qualifier and lookup columns blank (those are undefined for multiple records). An empty row means the zone publishes no SPF record at all.''),
      AtGridPos (gridPos 12 y 12 8),
      Datasource prometheusDS,
      ShowHeader True,
      CellHeight TableCellHeightSm,
      WithTarget [RefId ''A'', Expr ''dnshealth_spf_record{zone="$zone"}'', Format PromQueryFormatTable, Instant],
      WithTarget [RefId ''B'', Expr ''dnshealth_spf_terminal_all{zone="$zone"}'', Format PromQueryFormatTable, Instant],
      WithTarget [RefId ''C'', Expr ''dnshealth_spf_lookup_count{zone="$zone"}'', Format PromQueryFormatTable, Instant],
      WithTransformation (JoinByField \<lparr>ByField = ''zone'', jb_Mode = ''outer''\<rparr>),
      WithTransformation (Organize
        \<lparr>RenameByName = [(''record'', ''SPF record''), (''qualifier'', ''SPF all''), (''Value #C'', ''SPF lookups'')],
         IndexByName = [(''record'', 0), (''qualifier'', 1), (''Value #C'', 2)],
         ExcludeByName = hidden [''zone'', ''Time 1'', ''Time 2'', ''Time 3'', ''nameserver 1'', ''nameserver 2'', ''nameserver 3'', ''ip 1'', ''ip 2'', 
            ''ip 3'', ''__name__ 1'', ''__name__ 2'', ''__name__ 3'', ''instance 1'', ''instance 2'', ''instance 3'', ''job 1'', 
            ''job 2'', ''job 3'', ''Value #A'', ''Value #B'']\<rparr>),
      OverrideByName ''SPF all'' [(''custom.width'', JNumber 90)],
      OverrideByName ''SPF lookups'' [(''custom.width'', JNumber 110)],
      SortBy (sortByAsc ''SPF record'')]\<close>

definition spfRecordsTable :: "32 word \<Rightarrow> panel option" where
  "spfRecordsTable yOffset = at_row (mailRowY 1) yOffset (\<lambda>y. (TablePanel, spfRecordsTable_calls y))"

definition dmarcRecordsTable_calls :: "32 word \<Rightarrow> panel_call list" where
  \<open>dmarcRecordsTable_calls y =
     [Title (''DMARC record '' @ [CHR 0xE2, CHR 0x80, CHR 0x94] @ '' per zone''),
      Description ''The actual DMARC record the selected zone publishes at _dmarc.<zone>, with the parsed enforcement policy. Raw record comes from the dnshealth_dmarc_record info gauge. An empty row means the zone publishes no DMARC record.'',
      AtGridPos (gridPos 12 y 12 8),
      Datasource prometheusDS,
      ShowHeader True,
      CellHeight TableCellHeightSm,
      WithTarget [RefId ''A'', Expr ''dnshealth_dmarc_record{zone="$zone"}'', Format PromQueryFormatTable, Instant],
      WithTarget [RefId ''B'', Expr ''dnshealth_dmarc_policy{zone="$zone"}'', Format PromQueryFormatTable, Instant],
      WithTransformation (JoinByField \<lparr>ByField = ''zone'', jb_Mode = ''outer''\<rparr>),
      WithTransformation (Organize
        \<lparr>RenameByName = [(''record'', ''DMARC record''), (''policy'', ''DMARC policy'')],
         IndexByName = [(''record'', 0), (''policy'', 1)],
         ExcludeByName = hidden [''zone'', ''Time 1'', ''Time 2'', ''nameserver 1'', ''nameserver 2'', ''ip 1'', ''ip 2'', ''__name__ 1'', 
            ''__name__ 2'', ''instance 1'', ''instance 2'', ''job 1'', ''job 2'', ''Value #A'', ''Value #B'']\<rparr>),
      OverrideByName ''DMARC policy'' [(''custom.width'', JNumber 130)],
      SortBy (sortByAsc ''DMARC record'')]\<close>

definition dmarcRecordsTable :: "32 word \<Rightarrow> panel option" where
  "dmarcRecordsTable yOffset = at_row (mailRowY 2) yOffset (\<lambda>y. (TablePanel, dmarcRecordsTable_calls y))"

section \<open>The operator panels\<close>

definition probeCycleDurationTimeseries :: "32 word \<Rightarrow> panel option" where
  \<open>probeCycleDurationTimeseries yOffset = at_row 50 yOffset (\<lambda>y. (TimeseriesPanel,
     [Title ''Probe cycle duration'',
      Description ''Wall time of each probe cycle, from dnshealth_probe_cycle_duration_seconds.'',
      AtGridPos (gridPos 0 y 12 8), Datasource prometheusDS, Unit ''s'', ColorScheme classicColor,
      Legend listLegend, Tooltip singleTooltip,
      WithTarget [RefId ''A'', Expr ''dnshealth_probe_cycle_duration_seconds'', LegendFormat ''cycle duration'']]))\<close>

definition dnsQueryRateTimeseries :: "32 word \<Rightarrow> panel option" where
  \<open>dnsQueryRateTimeseries yOffset = at_row 50 yOffset (\<lambda>y. (TimeseriesPanel,
     [Title ''Query rate and delegation cache hit ratio'',
      Description ''Left axis: per-server query rate. Cache ratio = hits / (hits + misses).'',
      AtGridPos (gridPos 12 y 12 8), Datasource prometheusDS, ColorScheme classicColor,
      Legend (tableLegend [''mean'']), Tooltip (multiTooltip SortOrderNone),
      WithTarget [RefId ''A'', Expr ''rate(dnshealth_dns_queries_total[1m])'', LegendFormat (''queries/s '' @ [CHR 0xE2, CHR 0x80, CHR 0x94] @ '' {{server}}'')],
      WithTarget [RefId ''B'',
        Expr ''rate(dnshealth_delegation_cache_hits_total[5m]) / clamp_min((rate(dnshealth_delegation_cache_hits_total[5m]) + rate(dnshealth_delegation_cache_misses_total[5m])), 1e-9)'',
        LegendFormat ''cache hit ratio''],
      OverrideByName ''cache hit ratio''
        [(''unit'', JString ''percentunit''), (''custom.axisPlacement'', JString ''right'')]]))\<close>

definition soaSerialsTimeseries :: "32 word \<Rightarrow> panel option" where
  \<open>soaSerialsTimeseries yOffset = at_row 58 yOffset (\<lambda>y. (TimeseriesPanel,
     [Title (''SOA serials per nameserver over time '' @ [CHR 0xE2, CHR 0x80, CHR 0x94] @ '' ${zone}''),
      Description ''Each line is one nameserver for the selected zone. Lines overlap when primaries agree; divergence appears as parallel non-overlapping lines.'',
      AtGridPos (gridPos 0 y 12 8), Datasource prometheusDS, ColorScheme classicColor,
      LineInterpolation LineInterpolationStepAfter, ShowPoints VisibilityModeAlways,
      Legend (tableLegend [''lastNotNull'']), Tooltip (multiTooltip SortOrderNone),
      WithTarget [RefId ''A'', Expr ''dnshealth_soa_serial{zone="$zone"}'', LegendFormat ''{{nameserver}}'']]))\<close>

definition queryDurationTimeseries :: "32 word \<Rightarrow> panel option" where
  \<open>queryDurationTimeseries yOffset = at_row 58 yOffset (\<lambda>y. (TimeseriesPanel,
     [Title (''Query duration (per check / nameserver) '' @ [CHR 0xE2, CHR 0x80, CHR 0x94] @ '' ${zone}''),
      Description (''dnshealth_query_duration_seconds for the selected zone '' @ [CHR 0xE2, CHR 0x80, CHR 0x94] @ '' useful for spotting slow nameservers or check types.''),
      AtGridPos (gridPos 12 y 12 8), Datasource prometheusDS, Unit ''s'', ColorScheme classicColor,
      Legend (tableLegend [''max'']), Tooltip (multiTooltip SortOrderDescending),
      WithTarget [RefId ''A'', Expr ''dnshealth_query_duration_seconds{zone="$zone"}'', LegendFormat ''{{check}} via {{nameserver}}'']]))\<close>

section \<open>The header panel\<close>

definition infoPanelHeight :: "32 word" where "infoPanelHeight = 4"

definition infoTextPanel :: panel where
  \<open>infoTextPanel = (TextPanel,
     [Title (''DNS health report '' @ [CHR 0xE2, CHR 0x80, CHR 0x94] @ '' ${zone}''), AtGridPos (gridPos 0 0 24 infoPanelHeight), TextMode TextModeMarkdown,
      Content (''Per-zone health snapshot inspired by intodns.com. Use the **Zone** selector at the top to switch zones.'' @ [CHR 0x0A, CHR 0x0A] @ ''**Top row** is boolean status checks '' @ [CHR 0xE2, CHR 0x80, CHR 0x94] @ '' each row's Result renders `1` as **PASS** (green) and `0` as **FAIL** (red). **Middle row** is informational '' @ [CHR 0xE2, CHR 0x80, CHR 0x94] @ '' the actual records / values returned by the queries, with no PASS/FAIL coloring. **Operator / debug views** at the bottom (collapsed) include `dnshealth_soa_serial` over time, probe cycle duration, query rate, cache hit ratio, and per-zone query duration.'' @ [CHR 0x0A, CHR 0x0A] @ ''**Demo zones in this stack:** `healthy.demo.` (all checks pass), `soa-serial-mismatch.demo.` (SOA serial divergence between primaries), `lame-nameserver.demo.` (auth NS doesn't actually serve the zone), `ns-mismatch.demo.` (parent advertises 1 NS but auth reports 2 different NSs), `missing-glue.demo.` (parent NS without glue, delegation walk fails entirely '' @ [CHR 0xE2, CHR 0x80, CHR 0x94] @ '' won't appear in the selector since it produces no `dnshealth_query_success` series; the absence is the signal).'')])\<close>

section \<open>The dashboard\<close>

datatype row_call = Collapsed bool | RowAt GridPos | RowPanel panel

datatype annotation_call =
  AnnName string | AnnDatasource DataSourceRef | AnnEnable bool | AnnHide bool | AnnIconColor string
| AnnType string | AnnBuiltIn int

datatype dash_call =
  Uid string | Version "32 word" | Tags "string list" | Refresh string | Time string string
| Annotations "annotation_call list list" | WithVariable variable | WithPanel panel
| WithRow string "row_call list"

definition dashboardVersion :: "32 word" where "dashboardVersion = 1"

definition builtinAnnotations :: "annotation_call list list" where
  \<open>builtinAnnotations =
     [[AnnName ''Annotations & Alerts'', AnnDatasource \<lparr>ds_Type = ''grafana'', ds_Uid = ''-- Grafana --''\<rparr>,
       AnnEnable True, AnnHide True, AnnIconColor ''rgba(0, 211, 255, 1)'', AnnType ''dashboard'', AnnBuiltIn 1]]\<close>

definition variant_offset :: "bool \<Rightarrow> 32 word" where
  "variant_offset includeInfoText = (if \<not> includeInfoText then infoPanelHeight else 0)"

definition mail_row :: "32 word \<Rightarrow> (string \<times> row_call list) option" where
  \<open>mail_row yOffset =
     Option.bind (subY mailHeaderY yOffset) (\<lambda>y. Option.bind
       (those [mxStatusTable yOffset, mxRecordsTable yOffset, spfStatusTable yOffset, spfRecordsTable yOffset,
          dmarcStatusTable yOffset, dmarcRecordsTable yOffset]) (\<lambda>ps.
       Some ((''Mail '' @ [CHR 0xE2, CHR 0x80, CHR 0x94] @ '' MX / SPF / DMARC''),
         [Collapsed False, RowAt \<lparr>gridX = 0, gridY = y, gridW = 24, gridH = 1\<rparr>] @ map RowPanel ps)))\<close>

definition operator_row :: "32 word \<Rightarrow> (string \<times> row_call list) option" where
  \<open>operator_row yOffset =
     Option.bind (subY (mailRowY 3) yOffset) (\<lambda>y. Option.bind
       (those [probeCycleDurationTimeseries yOffset, dnsQueryRateTimeseries yOffset,
          soaSerialsTimeseries yOffset, queryDurationTimeseries yOffset]) (\<lambda>ps.
       Some (''Operator / debug views'',
         [Collapsed True, RowAt \<lparr>gridX = 0, gridY = y, gridW = 24, gridH = 1\<rparr>] @ map RowPanel ps)))\<close>

definition overview_tables :: "32 word \<Rightarrow> panel list option" where
  "overview_tables yOffset =
     those [parentStatusTable yOffset, nsStatusTable yOffset, soaStatusTable yOffset,
       parentNSRecordsTable yOffset, selfNSRecordsTable yOffset, soaSerialsTable yOffset]"

definition overview_calls :: "string \<Rightarrow> bool \<Rightarrow> string \<Rightarrow> dash_call list option" where
  \<open>overview_calls uid includeInfoText defaultZone =
     (let yOffset = variant_offset includeInfoText in
      Option.bind (overview_tables yOffset) (\<lambda>tables. Option.bind (mail_row yOffset) (\<lambda>(mail, mail_calls).
      Option.bind (operator_row yOffset) (\<lambda>(oper, oper_calls).
        Some ([Uid uid, Version dashboardVersion, Tags [''dnshealth''], Refresh ''10s'', Time ''now-15m'' ''now'',
            Annotations builtinAnnotations, WithVariable dsVariable, WithVariable (zoneVariable defaultZone)] @
          (if includeInfoText then [WithPanel infoTextPanel] else []) @
          map WithPanel tables @ [WithRow mail mail_calls, WithRow oper oper_calls])))))\<close>

text \<open>A panic of \<open>subY\<close> is the outer \<open>None\<close>; the SDK's \<^verbatim>\<open>Build\<close> gives a dashboard or an error.\<close>

definition buildOverview ::
  "(string \<Rightarrow> dash_call list \<Rightarrow> string + 'd) \<Rightarrow> string \<Rightarrow> string \<Rightarrow> bool \<Rightarrow> string \<Rightarrow> (string + 'd) option" where
  "buildOverview build uid title includeInfoText defaultZone =
     map_option (build title) (overview_calls uid includeInfoText defaultZone)"

definition dashboardRequires :: "(string \<times> string) list list" where
  \<open>dashboardRequires =
     [[(''type'', ''grafana''), (''id'', ''grafana''), (''name'', ''Grafana''), (''version'', ''11.0.0'')],
      [(''type'', ''datasource''), (''id'', ''prometheus''), (''name'', ''Prometheus''), (''version'', ''1.0.0'')],
      [(''type'', ''panel''), (''id'', ''table''), (''name'', ''Table''), (''version'', [])],
      [(''type'', ''panel''), (''id'', ''timeseries''), (''name'', ''Time series''), (''version'', [])]]\<close>

text \<open>\<open>marshalIndent\<close> is \<^verbatim>\<open>json.MarshalIndent\<close> on the embedding struct, with its prefix and indent.\<close>

definition marshalDashboard ::
  "((string \<times> string) list list \<times> 'd \<Rightarrow> string \<Rightarrow> string \<Rightarrow> string + string) \<Rightarrow> 'd \<Rightarrow> string + string" where
  \<open>marshalDashboard marshalIndent d =
     (case marshalIndent (dashboardRequires, d) [] ''  '' of
        Inl err \<Rightarrow> Inl err
      | Inr b \<Rightarrow> Inr (b @ [CHR 0x0A]))\<close>

section \<open>The generator\<close>

record variant =
  v_uid :: string
  v_title :: string
  v_path :: string
  v_includeInfoText :: bool
  v_defaultZone :: string

definition variants :: "variant list" where
  \<open>variants =
     [\<lparr>v_uid = ''dnshealth-overview'', v_title = ''DNS Health Overview'',
       v_path = ''demo/grafana/dashboards/dnshealth-overview.json'', v_includeInfoText = False, v_defaultZone = []\<rparr>,
      \<lparr>v_uid = ''dnshealth-overview-demo'', v_title = ''DNS Health Overview (demo)'',
       v_path = ''demo/grafana/dashboards/dnshealth-overview-demo.json'', v_includeInfoText = True,
       v_defaultZone = ''healthy.demo.''\<rparr>]\<close>

text \<open>\<open>filepath.Dir\<close> of a clean path with a slash in it.\<close>

definition path_Dir :: "string \<Rightarrow> string" where
  "path_Dir p = rev (drop 1 (dropWhile (\<lambda>c. c \<noteq> CHR ''/'') (rev p)))"

datatype generator_panic = NoDirectory string string | Underflow | BuildFailed string string | MarshalFailed string string | WriteFailed string string

text \<open>The files written so far, and the panic that stopped the run if one did.\<close>

fun variants_loop ::
  "(string \<Rightarrow> dash_call list \<Rightarrow> string + 'd) \<Rightarrow> ((string \<times> string) list list \<times> 'd \<Rightarrow> string \<Rightarrow> string \<Rightarrow> string + string) \<Rightarrow>
   (string \<Rightarrow> string \<Rightarrow> string option) \<Rightarrow> variant list \<Rightarrow> generator_panic option \<times> (string \<times> string) list" where
  "variants_loop build marshalIndent writeFile [] = (None, [])"
| "variants_loop build marshalIndent writeFile (v # vs) =
     (case buildOverview build (v_uid v) (v_title v) (v_includeInfoText v) (v_defaultZone v) of
        None \<Rightarrow> (Some Underflow, [])
      | Some (Inl err) \<Rightarrow> (Some (BuildFailed (v_uid v) err), [])
      | Some (Inr d) \<Rightarrow>
          (case marshalDashboard marshalIndent d of
             Inl err \<Rightarrow> (Some (MarshalFailed (v_uid v) err), [])
           | Inr b \<Rightarrow>
               (case writeFile (v_path v) b of
                  Some err \<Rightarrow> (Some (WriteFailed (v_path v) err), [])
                | None \<Rightarrow> (case variants_loop build marshalIndent writeFile vs of
                    (p, ws) \<Rightarrow> (p, (v_path v, b) # ws)))))"

definition generator_main ::
  "(string \<Rightarrow> string option) \<Rightarrow> (string \<Rightarrow> dash_call list \<Rightarrow> string + 'd) \<Rightarrow>
   ((string \<times> string) list list \<times> 'd \<Rightarrow> string \<Rightarrow> string \<Rightarrow> string + string) \<Rightarrow>
   (string \<Rightarrow> string \<Rightarrow> string option) \<Rightarrow> generator_panic option \<times> (string \<times> string) list" where
  "generator_main stat build marshalIndent writeFile =
     (let dir = path_Dir (v_path (variants ! 0)) in
      case stat dir of
        Some err \<Rightarrow> (Some (NoDirectory dir err), [])
      | None \<Rightarrow> variants_loop build marshalIndent writeFile variants)"

section \<open>The panels of a dashboard\<close>

fun row_panels :: "row_call list \<Rightarrow> panel list" where
  "row_panels [] = []"
| "row_panels (RowPanel p # cs) = p # row_panels cs"
| "row_panels (_ # cs) = row_panels cs"

fun row_grids :: "row_call list \<Rightarrow> GridPos list" where
  "row_grids [] = []"
| "row_grids (RowAt g # cs) = g # row_grids cs"
| "row_grids (_ # cs) = row_grids cs"

fun dash_panels :: "dash_call list \<Rightarrow> panel list" where
  "dash_panels [] = []"
| "dash_panels (WithPanel p # cs) = p # dash_panels cs"
| "dash_panels (WithRow t rs # cs) = row_panels rs @ dash_panels cs"
| "dash_panels (_ # cs) = dash_panels cs"

fun dash_rows :: "dash_call list \<Rightarrow> GridPos list" where
  "dash_rows [] = []"
| "dash_rows (WithRow t rs # cs) = row_grids rs @ dash_rows cs"
| "dash_rows (_ # cs) = dash_rows cs"

lemma row_panels_map [panel_simps]: "row_panels (map RowPanel ps) = ps"
  by (induction ps) simp_all

lemma row_grids_map [panel_simps]: "row_grids (map RowPanel ps) = []"
  by (induction ps) simp_all

lemma dash_append [panel_simps]:
  "dash_panels (cs @ ds) = dash_panels cs @ dash_panels ds" "dash_rows (cs @ ds) = dash_rows cs @ dash_rows ds"
  by (induction cs rule: dash_panels.induct) simp_all

lemma dash_map [panel_simps]: "dash_panels (map WithPanel ps) = ps" "dash_rows (map WithPanel ps) = []"
  by (induction ps) simp_all

end
