(* ===== verification/Promql.thy ===== *)
theory Promql
  imports Prelude
begin

text \<open>
  The fragment of PromQL the status tables of the demo dashboard are written in: its syntax as the
  strings the generator holds (\<open>render\<close>, with the binding strength of the operators checked
  by \<open>prec_ok\<close>), and its documented meaning as an instant query over a list of series. PromQL is
  not this program's code; the semantics here is what a property means by the value of an expression.
  Metric names are dropped as every operator here drops them; label lists are in the order of their
  names; values are integers. An evaluation error is \<open>None\<close>.
\<close>

section \<open>Syntax\<close>

datatype matcher = Equals string string | OneOf string "string list"

datatype aggregation = Agg_count | Agg_min | Agg_max | Agg_group

datatype comparison = Cmp_eq | Cmp_ne | Cmp_gt | Cmp_ge

datatype binop = Op_mul | Op_add | Op_sub | Op_bool comparison | Op_and | Op_or

datatype promql =
  Select string "matcher list"
| Literal int
| Vector int
| Paren promql
| AggregateBy aggregation string "string list" promql
| Aggregate aggregation promql
| Binary binop "string list option" promql promql
| ClampMax promql int
| Absent promql

fun render_matcher :: "matcher \<Rightarrow> string" where
  "render_matcher (Equals l v) = l @ [CHR ''='', CHR 0x22] @ v @ [CHR 0x22]"
| "render_matcher (OneOf l vs) = l @ [CHR ''='', CHR ''~'', CHR 0x22] @ Join vs ''|'' @ [CHR 0x22]"

fun agg_name :: "aggregation \<Rightarrow> string" where
  "agg_name Agg_count = ''count''"
| "agg_name Agg_min = ''min''"
| "agg_name Agg_max = ''max''"
| "agg_name Agg_group = ''group''"

fun op_name :: "binop \<Rightarrow> string" where
  "op_name Op_mul = ''*''"
| "op_name Op_add = ''+''"
| "op_name Op_sub = ''-''"
| "op_name (Op_bool Cmp_eq) = ''== bool''"
| "op_name (Op_bool Cmp_ne) = ''!= bool''"
| "op_name (Op_bool Cmp_gt) = ''> bool''"
| "op_name (Op_bool Cmp_ge) = ''>= bool''"
| "op_name Op_and = ''and''"
| "op_name Op_or = ''or''"

text \<open>One decimal digit is all the literals need.\<close>

definition small_number :: "int \<Rightarrow> string" where
  "small_number n = (if 0 \<le> n \<and> n < 10 then [''0123456789'' ! nat n] else [])"

text \<open>The string of an aggregation says how its labels are separated.\<close>

fun render :: "promql \<Rightarrow> string" where
  "render (Select m ms) = m @ ''{'' @ Join (map render_matcher ms) '','' @ ''}''"
| "render (Literal n) = small_number n"
| "render (Vector n) = ''vector('' @ small_number n @ '')''"
| "render (Paren e) = ''('' @ render e @ '')''"
| "render (AggregateBy a sep ls e) = agg_name a @ '' by ('' @ Join ls sep @ '') ('' @ render e @ '')''"
| "render (Aggregate a e) = agg_name a @ ''('' @ render e @ '')''"
| "render (Binary b on l r) = render l @ '' '' @ op_name b @
     (case on of None \<Rightarrow> [] | Some ls \<Rightarrow> '' on('' @ Join ls '','' @ '')'') @ '' '' @ render r"
| "render (ClampMax e n) = ''clamp_max('' @ render e @ '', '' @ small_number n @ '')''"
| "render (Absent e) = ''absent('' @ render e @ '')''"

text \<open>Binding strength: \<open>or\<close>, then \<open>and\<close>, comparisons, sums, products; all to the left.\<close>

fun op_prec :: "binop \<Rightarrow> nat" where
  "op_prec Op_or = 1"
| "op_prec Op_and = 2"
| "op_prec (Op_bool _) = 3"
| "op_prec Op_add = 4"
| "op_prec Op_sub = 4"
| "op_prec Op_mul = 5"

fun strength :: "promql \<Rightarrow> nat" where
  "strength (Binary b on l r) = op_prec b"
| "strength _ = 6"

fun prec_ok :: "promql \<Rightarrow> bool" where
  "prec_ok (Binary b on l r) \<longleftrightarrow> op_prec b \<le> strength l \<and> op_prec b < strength r \<and> prec_ok l \<and> prec_ok r"
| "prec_ok (Paren e) \<longleftrightarrow> prec_ok e"
| "prec_ok (AggregateBy a sep ls e) \<longleftrightarrow> prec_ok e"
| "prec_ok (Aggregate a e) \<longleftrightarrow> prec_ok e"
| "prec_ok (ClampMax e n) \<longleftrightarrow> prec_ok e \<and> 0 \<le> n \<and> n < 10"
| "prec_ok (Absent e) \<longleftrightarrow> prec_ok e"
| "prec_ok (Literal n) \<longleftrightarrow> 0 \<le> n \<and> n < 10"
| "prec_ok (Vector n) \<longleftrightarrow> 0 \<le> n \<and> n < 10"
| "prec_ok (Select m ms) \<longleftrightarrow> True"

text \<open>The selectors of an expression.\<close>

fun selectors :: "promql \<Rightarrow> (string \<times> matcher list) list" where
  "selectors (Select m ms) = [(m, ms)]"
| "selectors (Literal n) = []"
| "selectors (Vector n) = []"
| "selectors (Paren e) = selectors e"
| "selectors (AggregateBy a sep ls e) = selectors e"
| "selectors (Aggregate a e) = selectors e"
| "selectors (Binary b on l r) = selectors l @ selectors r"
| "selectors (ClampMax e n) = selectors e"
| "selectors (Absent e) = selectors e"

section \<open>Meaning\<close>

type_synonym labels = "(string \<times> string) list"

type_synonym instant_vector = "(labels \<times> int) list"

type_synonym series_db = "(string \<times> labels \<times> int) list"

datatype pvalue = Scalar int | Samples instant_vector

definition label_value :: "labels \<Rightarrow> string \<Rightarrow> string" where
  "label_value ls l = (case map_of ls l of Some v \<Rightarrow> v | None \<Rightarrow> [])"

text \<open>The dashboard variable is replaced by the selected zone.\<close>

definition interpolate :: "string \<Rightarrow> string \<Rightarrow> string" where
  "interpolate zone v = (if v = ''$zone'' then zone else v)"

fun matcher_ok :: "string \<Rightarrow> labels \<Rightarrow> matcher \<Rightarrow> bool" where
  "matcher_ok zone ls (Equals l v) \<longleftrightarrow> label_value ls l = interpolate zone v"
| "matcher_ok zone ls (OneOf l vs) \<longleftrightarrow> label_value ls l \<in> set vs"

definition select_series :: "series_db \<Rightarrow> string \<Rightarrow> string \<Rightarrow> matcher list \<Rightarrow> instant_vector" where
  "select_series db zone m ms = map snd (filter (\<lambda>(n, ls, v). n = m \<and> list_all (matcher_ok zone ls) ms) db)"

definition keep_labels :: "string list \<Rightarrow> labels \<Rightarrow> labels" where
  "keep_labels names ls = filter (\<lambda>(l, v). l \<in> set names) ls"

definition match_key :: "string list option \<Rightarrow> labels \<Rightarrow> labels" where
  "match_key on ls = (case on of None \<Rightarrow> ls | Some names \<Rightarrow> keep_labels names ls)"

fun agg_value :: "aggregation \<Rightarrow> int list \<Rightarrow> int" where
  "agg_value Agg_count vs = int (length vs)"
| "agg_value Agg_group vs = 1"
| "agg_value Agg_min vs = (case vs of [] \<Rightarrow> 0 | v # vs' \<Rightarrow> fold min vs' v)"
| "agg_value Agg_max vs = (case vs of [] \<Rightarrow> 0 | v # vs' \<Rightarrow> fold max vs' v)"

definition aggregate :: "aggregation \<Rightarrow> string list \<Rightarrow> instant_vector \<Rightarrow> instant_vector" where
  "aggregate a names vec = map (\<lambda>k. (k, agg_value a (map snd (filter (\<lambda>s. keep_labels names (fst s) = k) vec))))
     (remdups (map (\<lambda>s. keep_labels names (fst s)) vec))"

fun cmp_value :: "comparison \<Rightarrow> int \<Rightarrow> int \<Rightarrow> bool" where
  "cmp_value Cmp_eq x y = (x = y)"
| "cmp_value Cmp_ne x y = (x \<noteq> y)"
| "cmp_value Cmp_gt x y = (x > y)"
| "cmp_value Cmp_ge x y = (x \<ge> y)"

fun op_value :: "binop \<Rightarrow> int \<Rightarrow> int \<Rightarrow> int" where
  "op_value Op_mul x y = x * y"
| "op_value Op_add x y = x + y"
| "op_value Op_sub x y = x - y"
| "op_value (Op_bool c) x y = (if cmp_value c x y then 1 else 0)"
| "op_value _ x y = x"

text \<open>One-to-one matching; two samples with one key on the right, or matched on the left, are an error.\<close>

definition match_vectors ::
  "binop \<Rightarrow> string list option \<Rightarrow> instant_vector \<Rightarrow> instant_vector \<Rightarrow> instant_vector option" where
  "match_vectors b on l r =
     (if l = [] \<or> r = [] then Some []
      else if distinct (map (\<lambda>s. match_key on (fst s)) (filter (\<lambda>s. match_key on (fst s) \<in> (\<lambda>t. match_key on (fst t)) ` set r) l))
        \<and> distinct (map (\<lambda>s. match_key on (fst s)) r)
      then Some (List.map_filter (\<lambda>(ls, x).
        map_option (\<lambda>(ls', y). (match_key on ls, op_value b x y))
          (find (\<lambda>t. match_key on (fst t) = match_key on ls) r)) l)
      else None)"

definition binary_value :: "binop \<Rightarrow> string list option \<Rightarrow> pvalue \<Rightarrow> pvalue \<Rightarrow> pvalue option" where
  "binary_value b on x y =
     (case (x, y) of
        (Scalar m, Scalar n) \<Rightarrow> if b = Op_and \<or> b = Op_or then None else Some (Scalar (op_value b m n))
      | (Scalar m, Samples r) \<Rightarrow> if b = Op_and \<or> b = Op_or then None else Some (Samples (map (\<lambda>(ls, n). (ls, op_value b m n)) r))
      | (Samples l, Scalar n) \<Rightarrow> if b = Op_and \<or> b = Op_or then None else Some (Samples (map (\<lambda>(ls, m). (ls, op_value b m n)) l))
      | (Samples l, Samples r) \<Rightarrow>
          (if b = Op_and then Some (Samples (filter (\<lambda>s. list_ex (\<lambda>t. match_key on (fst t) = match_key on (fst s)) r) l))
           else if b = Op_or then
             Some (Samples (l @ filter (\<lambda>t. \<not> list_ex (\<lambda>s. match_key on (fst s) = match_key on (fst t)) l) r))
           else map_option Samples (match_vectors b on l r)))"

text \<open>\<open>absent\<close> takes its labels from the equalities of the selector.\<close>

fun absent_labels :: "string \<Rightarrow> promql \<Rightarrow> labels" where
  "absent_labels zone (Select m ms) = List.map_filter (\<lambda>x. case x of Equals l v \<Rightarrow> Some (l, interpolate zone v) | _ \<Rightarrow> None) ms"
| "absent_labels zone _ = []"

fun on_vector :: "(instant_vector \<Rightarrow> instant_vector) \<Rightarrow> pvalue option \<Rightarrow> pvalue option" where
  "on_vector f (Some (Samples v)) = Some (Samples (f v))"
| "on_vector f _ = None"

fun eval :: "series_db \<Rightarrow> string \<Rightarrow> promql \<Rightarrow> pvalue option" where
  "eval db z (Select m ms) = Some (Samples (select_series db z m ms))"
| "eval db z (Literal n) = Some (Scalar n)"
| "eval db z (Vector n) = Some (Samples [([], n)])"
| "eval db z (Paren e) = eval db z e"
| "eval db z (AggregateBy a sep names e) = on_vector (aggregate a names) (eval db z e)"
| "eval db z (Aggregate a e) = on_vector (aggregate a []) (eval db z e)"
| "eval db z (Binary b on l r) =
     (case (eval db z l, eval db z r) of
        (Some x, Some y) \<Rightarrow> binary_value b on x y
      | _ \<Rightarrow> None)"
| "eval db z (ClampMax e n) = on_vector (map (\<lambda>(ls, x). (ls, min x n))) (eval db z e)"
| "eval db z (Absent e) = on_vector (\<lambda>v. if v = [] then [(absent_labels z e, 1)] else []) (eval db z e)"

section \<open>Simplification\<close>

named_theorems promql_simps \<open>evaluation of the operators on short vectors\<close>

lemma label_value_simps [promql_simps]:
  "label_value [] l = []" "label_value ((k, v) # ls) l = (if k = l then v else label_value ls l)"
  by (simp_all add: label_value_def)

lemma keep_labels_simps [promql_simps]:
  "keep_labels [] ls = []" "keep_labels names [] = []"
  "keep_labels names ((l, v) # ls) = (if l \<in> set names then (l, v) # keep_labels names ls else keep_labels names ls)"
  by (simp_all add: keep_labels_def)

lemma match_key_simps [promql_simps]: "match_key None ls = ls" "match_key (Some names) ls = keep_labels names ls"
  by (simp_all add: match_key_def)

lemma aggregate_Nil [promql_simps]: "aggregate a names [] = []"
  by (simp add: aggregate_def)

lemma remdups_constant: "vec \<noteq> [] \<Longrightarrow> remdups (map (\<lambda>s. c) vec) = [c]"
proof (induction vec)
  case (Cons s vec)
  then show ?case by (cases vec) simp_all
qed simp

lemma aggregate_all: "vec \<noteq> [] \<Longrightarrow> aggregate a [] vec = [([], agg_value a (map snd vec))]"
  by (simp add: aggregate_def keep_labels_def remdups_constant)

lemma aggregate_single [promql_simps]: "aggregate a names [(ls, v)] = [(keep_labels names ls, agg_value a [v])]"
  by (simp add: aggregate_def)

lemma match_vectors_single [promql_simps]:
  "match_vectors b on [(ls, x)] [(ls', y)] =
     Some (if match_key on ls' = match_key on ls then [(match_key on ls, op_value b x y)] else [])"
  by (simp add: match_vectors_def map_filter_def)

lemma match_vectors_Nil [promql_simps]: "match_vectors b on [] r = Some []" "match_vectors b on l [] = Some []"
  by (simp_all add: match_vectors_def)

lemma fold_max_Max: "fold max vs (v :: int) = Max (insert v (set vs))"
  by (metis Max.set_eq_fold list.simps(15))

lemma fold_min_Min: "fold min vs (v :: int) = Min (insert v (set vs))"
  by (metis Min.set_eq_fold list.simps(15))

lemma agg_max: "vs \<noteq> [] \<Longrightarrow> agg_value Agg_max vs = Max (set vs)"
  by (cases vs) (simp_all add: fold_max_Max)

lemma agg_min: "vs \<noteq> [] \<Longrightarrow> agg_value Agg_min vs = Min (set vs)"
  by (cases vs) (simp_all add: fold_min_Min)

end
