(* ===== verification/Status_Queries.thy ===== *)
theory Status_Queries
  imports Dashboard Promql
begin

text \<open>
  The queries of the dashboard's tables as PromQL expressions. Every row of a status table gets the
  expressions its predicates are the text of; \<open>compose_ast\<close> is what \<open>composeStatusExpr\<close> makes of
  them, and its value is the four-state verdict.
\<close>

section \<open>The composed expression\<close>

type_synonym row_ast = "promql \<times> promql option \<times> promql option"

text \<open>The text of an optional predicate; an absent one is the empty string.\<close>

definition render_option :: "promql option \<Rightarrow> string" where
  "render_option p = (case p of None \<Rightarrow> [] | Some e \<Rightarrow> render e)"

definition option_ok :: "promql option \<Rightarrow> bool" where
  "option_ok p \<longleftrightarrow> (case p of None \<Rightarrow> True | Some e \<Rightarrow> prec_ok e)"

definition describes :: "row_ast \<Rightarrow> statusCheck \<Rightarrow> bool" where
  "describes r c \<longleftrightarrow> (case r of (hard, na, warn) \<Rightarrow>
     expr c = render hard \<and> naExpr c = render_option na \<and> warnExpr c = render_option warn \<and>
     prec_ok hard \<and> option_ok na \<and> option_ok warn)"

definition scalar_ast :: "promql \<Rightarrow> promql" where
  "scalar_ast p = Paren (Binary Op_or None (ClampMax (Aggregate Agg_max p) 1) (Vector 0))"

definition scalar_option :: "promql option \<Rightarrow> promql" where
  "scalar_option p = (case p of None \<Rightarrow> Vector 0 | Some e \<Rightarrow> scalar_ast e)"

definition compose_ast :: "row_ast \<Rightarrow> promql" where
  "compose_ast r = (case r of (hard, na, warn) \<Rightarrow>
     if na = None \<and> warn = None then hard
     else
       Binary Op_add None
         (Paren (Binary Op_mul None (Literal 2) (scalar_option na)))
         (Paren (Binary Op_mul None
           (Binary Op_mul None (Paren (Binary Op_sub None (Literal 1) (scalar_option na))) (scalar_ast hard))
           (Paren (Binary Op_add None (Literal 1) (Paren (Binary Op_mul None (Literal 2) (scalar_option warn))))))))"

lemma render_nonempty: "prec_ok e \<Longrightarrow> render e \<noteq> []"
  by (induction e) (auto simp: small_number_def)

lemma scalar_render: "render (scalar_ast e) = scalarizeStatusPredicate (render e)"
  by (simp add: scalar_ast_def scalarizeStatusPredicate_def small_number_def)

lemma scalar_ok: "prec_ok (scalar_ast e) \<longleftrightarrow> prec_ok e" "strength (scalar_ast e) = 6"
  by (simp_all add: scalar_ast_def)

lemma render_option_empty: "option_ok p \<Longrightarrow> render_option p = [] \<longleftrightarrow> p = None"
  by (cases p) (simp_all add: render_option_def option_ok_def render_nonempty)

lemma scalar_option_ok: "option_ok p \<Longrightarrow> prec_ok (scalar_option p)" "strength (scalar_option p) = 6"
  by (cases p; simp add: scalar_option_def option_ok_def scalar_ok)+

lemma scalar_option_render:
  "option_ok p \<Longrightarrow> render (scalar_option p) =
     (if render_option p \<noteq> [] then scalarizeStatusPredicate (render_option p) else ''vector(0)'')"
  by (cases p) (simp_all add: render_option_def scalar_option_def scalar_render option_ok_def render_nonempty small_number_def)

lemma compose_render:
  assumes "describes r c"
  shows "composeStatusExpr c = render (compose_ast r) \<and> prec_ok (compose_ast r)"
proof -
  obtain hard na warn where r: "r = (hard, na, warn)" by (metis prod_cases3)
  have c: "expr c = render hard" "naExpr c = render_option na" "warnExpr c = render_option warn"
    and ok: "prec_ok hard" "option_ok na" "option_ok warn"
    using assms by (simp_all add: describes_def r)
  have "composeStatusExpr c = render (compose_ast r)"
    unfolding composeStatusExpr_def c Let_def scalar_option_render [OF ok(2), symmetric]
      scalar_option_render [OF ok(3), symmetric]
    unfolding render_option_empty [OF ok(2)] render_option_empty [OF ok(3)]
      scalar_render [symmetric]
    by (simp add: compose_ast_def r small_number_def)
  moreover have "prec_ok (compose_ast r)"
    using ok by (simp add: compose_ast_def r scalar_ok scalar_option_ok)
  ultimately show ?thesis by blast
qed

section \<open>Its value\<close>

text \<open>A predicate yields samples that are not negative; it holds when one of them is positive.\<close>

definition yields :: "series_db \<Rightarrow> string \<Rightarrow> promql \<Rightarrow> instant_vector \<Rightarrow> bool" where
  "yields db z e vec \<longleftrightarrow> eval db z e = Some (Samples vec) \<and> list_all (\<lambda>s. 0 \<le> snd s) vec"

definition holds :: "instant_vector \<Rightarrow> bool" where
  "holds vec \<longleftrightarrow> list_ex (\<lambda>s. 1 \<le> snd s) vec"

definition yields_option :: "series_db \<Rightarrow> string \<Rightarrow> promql option \<Rightarrow> instant_vector \<Rightarrow> bool" where
  "yields_option db z p vec \<longleftrightarrow> (case p of None \<Rightarrow> vec = [] | Some e \<Rightarrow> yields db z e vec)"

text \<open>The priority of the four states.\<close>

definition status_value :: "bool \<Rightarrow> bool \<Rightarrow> bool \<Rightarrow> int" where
  "status_value na hard warn = (if na then 2 else if \<not> hard then 0 else if warn then 3 else 1)"

lemma clamped_max:
  assumes "list_all (\<lambda>s. 0 \<le> snd s) vec" and "vec \<noteq> []"
  shows "min (agg_value Agg_max (map snd vec)) 1 = (if holds vec then 1 else 0)"
proof -
  let ?M = "Max (set (map snd vec))"
  have "map snd vec \<noteq> []" using assms(2) by simp
  then have M: "agg_value Agg_max (map snd vec) = ?M" by (rule agg_max)
  have "?M \<in> set (map snd vec)" using \<open>map snd vec \<noteq> []\<close> by (intro Max_in) simp_all
  then have "0 \<le> ?M" using assms(1) by (auto simp: list_all_iff)
  moreover have "1 \<le> ?M \<longleftrightarrow> holds vec"
    using \<open>map snd vec \<noteq> []\<close> by (simp add: Max_ge_iff holds_def list_ex_iff)
  ultimately show ?thesis unfolding M by auto
qed

lemma scalar_value:
  assumes "yields db z e vec"
  shows "eval db z (scalar_ast e) = Some (Samples [([], if holds vec then 1 else 0)])"
proof (cases "vec = []")
  case True
  with assms show ?thesis
    by (simp add: scalar_ast_def yields_def binary_value_def aggregate_Nil holds_def)
next
  case False
  with assms clamped_max [of vec] show ?thesis
    by (simp add: scalar_ast_def yields_def binary_value_def aggregate_all match_key_simps)
qed

lemma scalar_option_value:
  assumes "yields_option db z p vec"
  shows "eval db z (scalar_option p) = Some (Samples [([], if holds vec then 1 else 0)])"
  using assms scalar_value by (cases p) (auto simp: yields_option_def scalar_option_def holds_def)

lemma compose_value:
  assumes "na \<noteq> None \<or> warn \<noteq> None"
    and "yields db z hard hv" and "yields_option db z na nv" and "yields_option db z warn wv"
  shows "eval db z (compose_ast (hard, na, warn)) = Some (Samples [([], status_value (holds nv) (holds hv) (holds wv))])"
proof -
  have "\<not> (na = None \<and> warn = None)" using assms(1) by blast
  then have compose: "compose_ast (hard, na, warn) = Binary Op_add None
      (Paren (Binary Op_mul None (Literal 2) (scalar_option na)))
      (Paren (Binary Op_mul None
        (Binary Op_mul None (Paren (Binary Op_sub None (Literal 1) (scalar_option na))) (scalar_ast hard))
        (Paren (Binary Op_add None (Literal 1) (Paren (Binary Op_mul None (Literal 2) (scalar_option warn)))))))"
    by (simp only: compose_ast_def prod.case if_False)
  show ?thesis
    unfolding compose
    by (simp add: scalar_option_value [OF assms(3)] scalar_option_value [OF assms(4)]
      scalar_value [OF assms(2)] binary_value_def match_vectors_single match_key_simps status_value_def)
qed

section \<open>The rows\<close>

abbreviation of_zone :: "string \<Rightarrow> promql" where
  \<open>of_zone m \<equiv> Select m [Equals ''zone'' ''$zone'']\<close>

definition parent_row_A_ast :: row_ast where \<open>parent_row_A_ast =
  (Binary Op_or (Some []) (Paren (Binary (Op_bool Cmp_gt) None (AggregateBy Agg_count '', '' [''zone'']
     (Select ''dnshealth_ns_record'' [Equals ''source'' ''parent'', Equals ''zone'' ''$zone'']))
     (Literal 0))) (Vector 0),
   None,
   None)\<close>

definition parent_row_B_ast :: row_ast where \<open>parent_row_B_ast =
  (Binary Op_or (Some []) (of_zone ''dnshealth_parent_delegation'') (Vector 0),
   None,
   None)\<close>

definition ns_row_A_ast :: row_ast where \<open>ns_row_A_ast =
  (Binary Op_or (Some []) (Paren (Binary (Op_bool Cmp_ge) None (AggregateBy Agg_count '', '' [''zone'']
     (AggregateBy Agg_count '', '' [''zone'', ''nameserver''] (Select ''dnshealth_query_success'' [Equals ''check'' ''soa'', Equals ''zone'' ''$zone''])))
     (Literal 2))) (Vector 0),
   None,
   Some (Binary (Op_bool Cmp_eq) None (AggregateBy Agg_count '', '' [''zone''] (AggregateBy Agg_count '', '' [''zone'', ''nameserver'']
     (Select ''dnshealth_query_success'' [Equals ''check'' ''soa'', Equals ''zone'' ''$zone''])))
     (Literal 2)))\<close>

definition ns_row_B_ast :: row_ast where \<open>ns_row_B_ast =
  (Binary Op_or (Some []) (AggregateBy Agg_min '', '' [''zone''] (Select ''dnshealth_query_success'' [Equals ''check'' ''soa'', Equals ''zone'' ''$zone'']))
     (Vector 0),
   None,
   None)\<close>

definition ns_row_C_ast :: row_ast where \<open>ns_row_C_ast =
  (Binary Op_or (Some []) (Paren (Binary (Op_bool Cmp_eq) None (AggregateBy Agg_max '', '' [''zone'']
     (of_zone ''dnshealth_ns_recursion_available'')) (Literal 0))) (Vector 0),
   None,
   None)\<close>

definition ns_row_D_ast :: row_ast where \<open>ns_row_D_ast =
  (Binary Op_or (Some []) (Paren (Binary (Op_bool Cmp_eq) None (AggregateBy Agg_min '', '' [''zone'']
     (AggregateBy Agg_count '', '' [''zone'', ''nameserver''] (AggregateBy Agg_group '', '' [''zone'', ''nameserver'', ''source'']
     (of_zone ''dnshealth_ns_record'')))) (Literal 2))) (Vector 0),
   None,
   None)\<close>

definition ns_row_E_ast :: row_ast where \<open>ns_row_E_ast =
  (Binary Op_or (Some []) (AggregateBy Agg_min '', '' [''zone''] (of_zone ''dnshealth_ns_hostname_syntax_valid''))
     (Vector 0),
   None,
   None)\<close>

definition ns_row_F_ast :: row_ast where \<open>ns_row_F_ast =
  (Binary Op_or (Some []) (Paren (Binary (Op_bool Cmp_eq) None (Paren (AggregateBy Agg_max '', '' [''zone'']
     (of_zone ''dnshealth_ns_hostname_is_cname''))) (Literal 0))) (Vector 0),
   None,
   None)\<close>

definition ns_row_G_ast :: row_ast where \<open>ns_row_G_ast =
  (Binary Op_or (Some []) (Binary Op_and (Some [''zone'']) (Paren (Binary (Op_bool Cmp_eq) None
     (AggregateBy Agg_max '', '' [''zone''] (Select ''dnshealth_ns_classification_count'' [Equals ''classification'' ''self-only'', Equals ''zone'' ''$zone'']))
     (Literal 0))) (Paren (Binary (Op_bool Cmp_eq) None (AggregateBy Agg_max '', '' [''zone'']
     (Select ''dnshealth_ns_classification_count'' [Equals ''classification'' ''parent-only'', Equals ''zone'' ''$zone'']))
     (Literal 0)))) (Vector 0),
   None,
   None)\<close>

definition ns_row_H_ast :: row_ast where \<open>ns_row_H_ast =
  (Binary Op_or (Some []) (Paren (Binary (Op_bool Cmp_eq) None (AggregateBy Agg_max '', '' [''zone'']
     (Binary Op_mul None (Paren (Binary (Op_bool Cmp_eq) None (AggregateBy Agg_count '','' [''zone'', ''nameserver'']
     (AggregateBy Agg_group '','' [''zone'', ''nameserver'', ''source''] (of_zone ''dnshealth_ns_glue'')))
     (Literal 2))) (Paren (Binary (Op_bool Cmp_ne) None (AggregateBy Agg_min '','' [''zone'', ''nameserver'']
     (AggregateBy Agg_count '','' [''zone'', ''nameserver'', ''ip''] (AggregateBy Agg_group '','' [''zone'', ''nameserver'', ''ip'', ''source'']
     (of_zone ''dnshealth_ns_glue'')))) (Literal 2))))) (Literal 0))) (Vector 0),
   Some (Absent (Select ''dnshealth_ns_glue'' [Equals ''source'' ''parent'', Equals ''zone'' ''$zone''])),
   None)\<close>

definition soa_row_A_ast :: row_ast where \<open>soa_row_A_ast =
  (Binary Op_or (Some []) (Binary Op_and (Some [''zone'']) (Paren (Binary (Op_bool Cmp_eq) None
     (Paren (Binary Op_sub None (AggregateBy Agg_max '', '' [''zone''] (of_zone ''dnshealth_soa_serial''))
     (AggregateBy Agg_min '', '' [''zone''] (of_zone ''dnshealth_soa_serial'')))) (Literal 0)))
     (Paren (Binary (Op_bool Cmp_gt) None (AggregateBy Agg_count '', '' [''zone''] (of_zone ''dnshealth_soa_serial''))
     (Literal 0)))) (Vector 0),
   Some (Absent (of_zone ''dnshealth_soa_serial'')),
   None)\<close>

definition soa_row_B_ast :: row_ast where \<open>soa_row_B_ast =
  (Binary Op_or (Some []) (Paren (Binary (Op_bool Cmp_ge) None (AggregateBy Agg_count '', '' [''zone'']
     (of_zone ''dnshealth_soa_serial'')) (Literal 1))) (Vector 0),
   Some (Absent (of_zone ''dnshealth_soa_serial'')),
   Some (Binary (Op_bool Cmp_eq) None (AggregateBy Agg_min '', '' [''zone''] (of_zone ''dnshealth_soa_mname_in_ns_set''))
     (Literal 0)))\<close>

definition soa_row_C_ast :: row_ast where \<open>soa_row_C_ast =
  (Binary Op_or (Some []) (AggregateBy Agg_min '', '' [''zone''] (of_zone ''dnshealth_soa_mname_resolves''))
     (Vector 0),
   Some (Absent (of_zone ''dnshealth_soa_serial'')),
   None)\<close>

definition mx_row_A_ast :: row_ast where \<open>mx_row_A_ast =
  (Binary Op_or (Some []) (Paren (Binary Op_or (Some [''zone'']) (Paren (Binary (Op_bool Cmp_gt) None
     (of_zone ''dnshealth_mx_count'') (Literal 0))) (Paren (Binary (Op_bool Cmp_eq) None (of_zone ''dnshealth_mx_null_mx'')
     (Literal 1))))) (Vector 0),
   Some (Absent (of_zone ''dnshealth_soa_serial'')),
   Some (Binary Op_mul (Some [''zone'']) (Paren (Binary (Op_bool Cmp_eq) None (of_zone ''dnshealth_mx_count'')
     (Literal 1))) (Paren (Binary (Op_bool Cmp_eq) None (of_zone ''dnshealth_mx_null_mx'') (Literal 0)))))\<close>

definition mx_row_B_ast :: row_ast where \<open>mx_row_B_ast =
  (Binary Op_or (Some []) (Paren (Binary (Op_bool Cmp_eq) None (of_zone ''dnshealth_mx_count'')
     (of_zone ''dnshealth_mx_resolved_count''))) (Vector 0),
   Some (Binary Op_or None (ClampMax (Binary Op_add (Some [''zone'']) (Paren (Binary (Op_bool Cmp_eq) None
     (of_zone ''dnshealth_mx_count'') (Literal 0))) (Paren (Binary (Op_bool Cmp_eq) None (of_zone ''dnshealth_mx_null_mx'')
     (Literal 1)))) 1) (Absent (of_zone ''dnshealth_soa_serial''))),
   None)\<close>

definition mx_row_C_ast :: row_ast where \<open>mx_row_C_ast =
  (Binary Op_or (Some []) (Paren (Binary (Op_bool Cmp_eq) None (of_zone ''dnshealth_mx_cname_count'')
     (Literal 0))) (Vector 0),
   Some (Binary Op_or None (ClampMax (Binary Op_add (Some [''zone'']) (Paren (Binary (Op_bool Cmp_eq) None
     (of_zone ''dnshealth_mx_count'') (Literal 0))) (Paren (Binary (Op_bool Cmp_eq) None (of_zone ''dnshealth_mx_null_mx'')
     (Literal 1)))) 1) (Absent (of_zone ''dnshealth_soa_serial''))),
   None)\<close>

definition mx_row_D_ast :: row_ast where \<open>mx_row_D_ast =
  (Binary Op_or (Some []) (Paren (Binary (Op_bool Cmp_eq) None (of_zone ''dnshealth_mx_count'')
     (of_zone ''dnshealth_mx_syntax_valid_count''))) (Vector 0),
   Some (Binary Op_or None (ClampMax (Binary Op_add (Some [''zone'']) (Paren (Binary (Op_bool Cmp_eq) None
     (of_zone ''dnshealth_mx_count'') (Literal 0))) (Paren (Binary (Op_bool Cmp_eq) None (of_zone ''dnshealth_mx_null_mx'')
     (Literal 1)))) 1) (Absent (of_zone ''dnshealth_soa_serial''))),
   None)\<close>

definition mx_row_E_ast :: row_ast where \<open>mx_row_E_ast =
  (Binary Op_or (Some []) (Paren (Binary Op_sub None (Literal 1) (ClampMax (Binary Op_mul (Some [''zone''])
     (Paren (Binary (Op_bool Cmp_eq) None (of_zone ''dnshealth_mx_has_null_mx_rr'') (Literal 1)))
     (Paren (Binary (Op_bool Cmp_gt) None (of_zone ''dnshealth_mx_count'') (Literal 1)))) 1))) (Vector 0),
   Some (Absent (of_zone ''dnshealth_soa_serial'')),
   None)\<close>

definition spf_row_A_ast :: row_ast where \<open>spf_row_A_ast =
  (Binary Op_sub None (Literal 1) (ClampMax (Binary Op_add None (Paren (Binary (Op_bool Cmp_gt) None
     (AggregateBy Agg_max '', '' [''zone''] (of_zone ''dnshealth_spf_record_count'')) (Literal 1)))
     (Binary Op_mul None (Paren (Binary (Op_bool Cmp_eq) None (AggregateBy Agg_max '', '' [''zone'']
     (of_zone ''dnshealth_spf_present'')) (Literal 1))) (Paren (Binary (Op_bool Cmp_eq) None
     (AggregateBy Agg_max '', '' [''zone''] (of_zone ''dnshealth_spf_valid'')) (Literal 0))))) 1),
   Some (Binary Op_or None (Absent (of_zone ''dnshealth_spf_present'')) (Absent (of_zone ''dnshealth_soa_serial''))),
   Some (Binary (Op_bool Cmp_eq) None (AggregateBy Agg_max '', '' [''zone''] (of_zone ''dnshealth_spf_present''))
     (Literal 0)))\<close>

definition spf_row_B_ast :: row_ast where \<open>spf_row_B_ast =
  (AggregateBy Agg_max '', '' [''zone''] (of_zone ''dnshealth_spf_terminal_all''),
   Some (Absent (of_zone ''dnshealth_spf_terminal_all'')),
   Some (AggregateBy Agg_max '', '' [''zone''] (Select ''dnshealth_spf_terminal_all'' [Equals ''zone'' ''$zone'', OneOf ''qualifier'' [''neutral'', ''none'', ''pass'']])))\<close>

definition spf_row_C_ast :: row_ast where \<open>spf_row_C_ast =
  (Binary (Op_bool Cmp_eq) None (AggregateBy Agg_max '', '' [''zone''] (of_zone ''dnshealth_spf_lookup_budget_exceeded''))
     (Literal 0),
   Some (Absent (of_zone ''dnshealth_spf_lookup_budget_exceeded'')),
   None)\<close>

definition dmarc_row_A_ast :: row_ast where \<open>dmarc_row_A_ast =
  (Binary Op_sub None (Literal 1) (ClampMax (Binary Op_mul None (Paren (Binary (Op_bool Cmp_eq) None
     (AggregateBy Agg_max '', '' [''zone''] (of_zone ''dnshealth_dmarc_present'')) (Literal 1)))
     (Paren (Binary (Op_bool Cmp_eq) None (AggregateBy Agg_max '', '' [''zone''] (of_zone ''dnshealth_dmarc_valid''))
     (Literal 0)))) 1),
   Some (Binary Op_or None (Absent (of_zone ''dnshealth_dmarc_present'')) (Absent (of_zone ''dnshealth_soa_serial''))),
   Some (Binary (Op_bool Cmp_eq) None (AggregateBy Agg_max '', '' [''zone''] (of_zone ''dnshealth_dmarc_present''))
     (Literal 0)))\<close>

definition dmarc_row_B_ast :: row_ast where \<open>dmarc_row_B_ast =
  (AggregateBy Agg_max '', '' [''zone''] (of_zone ''dnshealth_dmarc_policy''),
   Some (Absent (of_zone ''dnshealth_dmarc_policy'')),
   Some (AggregateBy Agg_max '', '' [''zone''] (Select ''dnshealth_dmarc_policy'' [Equals ''zone'' ''$zone'', Equals ''policy'' ''none''])))\<close>

section \<open>What a row reads\<close>

text \<open>
  A row reads \<open>v\<close>: the query text is the text of an expression, in which the operators bind as they
  stand, and that expression has the value \<open>v\<close>.
\<close>

definition row_reads :: "series_db \<Rightarrow> string \<Rightarrow> statusCheck \<Rightarrow> row_ast \<Rightarrow> instant_vector \<Rightarrow> bool" where
  "row_reads db z c r v \<longleftrightarrow> composeStatusExpr c = render (compose_ast r) \<and> prec_ok (compose_ast r) \<and>
     eval db z (compose_ast r) = Some (Samples v)"

lemma rows_described:
  "describes parent_row_A_ast parent_row_A"
  "describes parent_row_B_ast parent_row_B"
  "describes ns_row_A_ast ns_row_A"
  "describes ns_row_B_ast ns_row_B"
  "describes ns_row_C_ast ns_row_C"
  "describes ns_row_D_ast ns_row_D"
  "describes ns_row_E_ast ns_row_E"
  "describes ns_row_F_ast ns_row_F"
  "describes ns_row_G_ast ns_row_G"
  "describes ns_row_H_ast ns_row_H"
  "describes soa_row_A_ast soa_row_A"
  "describes soa_row_B_ast soa_row_B"
  "describes soa_row_C_ast soa_row_C"
  "describes mx_row_A_ast mx_row_A"
  "describes mx_row_B_ast mx_row_B"
  "describes mx_row_C_ast mx_row_C"
  "describes mx_row_D_ast mx_row_D"
  "describes mx_row_E_ast mx_row_E"
  "describes spf_row_A_ast spf_row_A"
  "describes spf_row_B_ast spf_row_B"
  "describes spf_row_C_ast spf_row_C"
  "describes dmarc_row_A_ast dmarc_row_A"
  "describes dmarc_row_B_ast dmarc_row_B"
  by code_simp+

end
