(* ===== verification/Dashboard_Layout.thy ===== *)
theory Dashboard_Layout
  imports Dashboard
begin

text \<open>
  The layout of the two dashboard variants and the columns of their tables: where every panel stands, that
  none overlaps another, and that a table refers only to columns it shows.
\<close>

section \<open>Layout\<close>

text \<open>All boxes of a dashboard, row headers included.\<close>

definition dash_boxes :: "dash_call list \<Rightarrow> GridPos list" where
  "dash_boxes cs = dash_rows cs @ concat (map panel_grids (dash_panels cs))"

definition in_grid :: "GridPos \<Rightarrow> bool" where
  "in_grid g \<longleftrightarrow> 0 < unat (gridW g) \<and> 0 < unat (gridH g) \<and> unat (gridX g) + unat (gridW g) \<le> 24 \<and>
     unat (gridY g) + unat (gridH g) < 2 ^ 32"

definition apart :: "GridPos \<Rightarrow> GridPos \<Rightarrow> bool" where
  "apart g g' \<longleftrightarrow> unat (gridX g) + unat (gridW g) \<le> unat (gridX g') \<or> unat (gridX g') + unat (gridW g') \<le> unat (gridX g) \<or>
     unat (gridY g) + unat (gridH g) \<le> unat (gridY g') \<or> unat (gridY g') + unat (gridH g') \<le> unat (gridY g)"

fun pairwise_apart :: "GridPos list \<Rightarrow> bool" where
  "pairwise_apart [] \<longleftrightarrow> True"
| "pairwise_apart (g # gs) \<longleftrightarrow> list_all (apart g) gs \<and> pairwise_apart gs"

definition moved_up :: "32 word \<Rightarrow> GridPos \<Rightarrow> GridPos" where
  "moved_up n g = g\<lparr>gridY := gridY g - n\<rparr>"

lemma at_row_reads:
  "off \<le> base \<Longrightarrow> at_row base off p = Some (p (base - off))"
  by (simp add: at_row_def subY_def)

lemma mailRowY_values [panel_simps]: "mailHeaderY = 24" "mailRowY 0 = 25" "mailRowY 1 = 33" "mailRowY 2 = 41" "mailRowY 3 = 49"
  by (simp_all add: mailRowY_def mailHeaderY_def mailRowH_def)

lemmas records_calls = parentNSRecordsTable_calls_def selfNSRecordsTable_calls_def soaSerialsTable_calls_def
  mxRecordsTable_calls_def spfRecordsTable_calls_def dmarcRecordsTable_calls_def

lemmas status_tables = parentStatusTable_def nsStatusTable_def soaStatusTable_def mxStatusTable_def
  spfStatusTable_def dmarcStatusTable_def

lemmas records_tables = parentNSRecordsTable_def selfNSRecordsTable_def soaSerialsTable_def
  mxRecordsTable_def spfRecordsTable_def dmarcRecordsTable_def

lemmas operator_panels = probeCycleDurationTimeseries_def dnsQueryRateTimeseries_def soaSerialsTimeseries_def
  queryDurationTimeseries_def

text \<open>The simplifier does not descend into the arguments of these calls.\<close>

lemma panel_frozen:
  "Title s = Title s" "Description s = Description s" "WithTransformation t = WithTransformation t"
  "OverrideByName s vs = OverrideByName s vs" "SortBy b = SortBy b" "WithTarget q = WithTarget q"
  "Content s = Content s" "Unit s = Unit s" "Legend l = Legend l" "Tooltip x = Tooltip x"
  by (rule refl)+

lemma status_grids:
  "parentStatusTable off = Some p \<Longrightarrow> panel_grids p = [gridPos 0 (4 - off) 8 10]"
  "nsStatusTable off = Some p \<Longrightarrow> panel_grids p = [gridPos 8 (4 - off) 8 10]"
  "soaStatusTable off = Some p \<Longrightarrow> panel_grids p = [gridPos 16 (4 - off) 8 10]"
  "mxStatusTable off = Some p \<Longrightarrow> panel_grids p = [gridPos 0 (25 - off) 12 8]"
  "spfStatusTable off = Some p \<Longrightarrow> panel_grids p = [gridPos 0 (33 - off) 12 8]"
  "dmarcStatusTable off = Some p \<Longrightarrow> panel_grids p = [gridPos 0 (41 - off) 12 8]"
  by (auto simp: status_tables at_row_def subY_def panel_simps split: if_splits)

lemma records_grids:
  "parentNSRecordsTable off = Some p \<Longrightarrow> panel_grids p = [gridPos 0 (14 - off) 8 10]"
  "selfNSRecordsTable off = Some p \<Longrightarrow> panel_grids p = [gridPos 8 (14 - off) 8 10]"
  "soaSerialsTable off = Some p \<Longrightarrow> panel_grids p = [gridPos 16 (14 - off) 8 10]"
  "mxRecordsTable off = Some p \<Longrightarrow> panel_grids p = [gridPos 12 (25 - off) 12 8]"
  "spfRecordsTable off = Some p \<Longrightarrow> panel_grids p = [gridPos 12 (33 - off) 12 8]"
  "dmarcRecordsTable off = Some p \<Longrightarrow> panel_grids p = [gridPos 12 (41 - off) 12 8]"
  by (auto simp: records_tables at_row_def subY_def panel_simps records_calls split: if_splits cong: panel_frozen)

lemma operator_grids:
  "probeCycleDurationTimeseries off = Some p \<Longrightarrow> panel_grids p = [gridPos 0 (50 - off) 12 8]"
  "dnsQueryRateTimeseries off = Some p \<Longrightarrow> panel_grids p = [gridPos 12 (50 - off) 12 8]"
  "soaSerialsTimeseries off = Some p \<Longrightarrow> panel_grids p = [gridPos 0 (58 - off) 12 8]"
  "queryDurationTimeseries off = Some p \<Longrightarrow> panel_grids p = [gridPos 12 (58 - off) 12 8]"
  by (auto simp: operator_panels at_row_def subY_def panel_simps split: if_splits cong: panel_frozen)

lemma info_grid: "panel_grids infoTextPanel = [gridPos 0 0 24 4]"
  by (simp add: infoTextPanel_def panel_simps infoPanelHeight_def)

lemma panel_defined:
  assumes "off \<le> 4"
  shows "\<exists>p. parentStatusTable off = Some p" "\<exists>p. nsStatusTable off = Some p" "\<exists>p. soaStatusTable off = Some p"
    "\<exists>p. mxStatusTable off = Some p" "\<exists>p. spfStatusTable off = Some p" "\<exists>p. dmarcStatusTable off = Some p"
    "\<exists>p. parentNSRecordsTable off = Some p" "\<exists>p. selfNSRecordsTable off = Some p" "\<exists>p. soaSerialsTable off = Some p"
    "\<exists>p. mxRecordsTable off = Some p" "\<exists>p. spfRecordsTable off = Some p" "\<exists>p. dmarcRecordsTable off = Some p"
    "\<exists>p. probeCycleDurationTimeseries off = Some p" "\<exists>p. dnsQueryRateTimeseries off = Some p"
    "\<exists>p. soaSerialsTimeseries off = Some p" "\<exists>p. queryDurationTimeseries off = Some p"
proof -
  have "at_row base off p = Some (p (base - off))" if "4 \<le> base" for base p
    using that assms by (intro at_row_reads) order
  then show "\<exists>p. parentStatusTable off = Some p" "\<exists>p. nsStatusTable off = Some p" "\<exists>p. soaStatusTable off = Some p"
    "\<exists>p. mxStatusTable off = Some p" "\<exists>p. spfStatusTable off = Some p" "\<exists>p. dmarcStatusTable off = Some p"
    "\<exists>p. parentNSRecordsTable off = Some p" "\<exists>p. selfNSRecordsTable off = Some p" "\<exists>p. soaSerialsTable off = Some p"
    "\<exists>p. mxRecordsTable off = Some p" "\<exists>p. spfRecordsTable off = Some p" "\<exists>p. dmarcRecordsTable off = Some p"
    "\<exists>p. probeCycleDurationTimeseries off = Some p" "\<exists>p. dnsQueryRateTimeseries off = Some p"
    "\<exists>p. soaSerialsTimeseries off = Some p" "\<exists>p. queryDurationTimeseries off = Some p"
    by (simp_all add: status_tables records_tables operator_panels mailRowY_values)
qed

lemma mail_row_reads:
  assumes "off \<le> 4" and "mxStatusTable off = Some m1" "spfStatusTable off = Some m2" "dmarcStatusTable off = Some m3"
    and "mxRecordsTable off = Some n1" "spfRecordsTable off = Some n2" "dmarcRecordsTable off = Some n3"
  shows "\<exists>t mc. mail_row off = Some (t, mc) \<and> row_panels mc = [m1, n1, m2, n2, m3, n3] \<and>
    row_grids mc = [gridPos 0 (24 - off) 24 1]"
proof -
  have "off \<le> 24" by (rule order_trans [OF assms(1)]) simp
  then have "subY 24 off = Some (24 - off)" by (simp add: subY_def)
  then show ?thesis by (simp add: mail_row_def mailRowY_values assms(2-) gridPos_def)
qed

lemma operator_row_reads:
  assumes "off \<le> 4" and "probeCycleDurationTimeseries off = Some o1" "dnsQueryRateTimeseries off = Some o2"
    and "soaSerialsTimeseries off = Some o3" "queryDurationTimeseries off = Some o4"
  shows "\<exists>t oc. operator_row off = Some (t, oc) \<and> row_panels oc = [o1, o2, o3, o4] \<and>
    row_grids oc = [gridPos 0 (49 - off) 24 1]"
proof -
  have "off \<le> 49" by (rule order_trans [OF assms(1)]) simp
  then have "subY 49 off = Some (49 - off)" by (simp add: subY_def)
  then show ?thesis by (simp add: operator_row_def mailRowY_values assms(2-) gridPos_def)
qed

lemma overview_reads:
  assumes "overview_tables (variant_offset info) = Some tables" and "mail_row (variant_offset info) = Some (t, mc)"
    and "operator_row (variant_offset info) = Some (t', oc)"
  shows "\<exists>calls. overview_calls uid info zone = Some calls \<and>
    dash_panels calls = (if info then [infoTextPanel] else []) @ tables @ row_panels mc @ row_panels oc \<and>
    dash_rows calls = row_grids mc @ row_grids oc"
  by (simp add: overview_calls_def Let_def assms dash_append dash_map)

text \<open>The panels of both variants.\<close>

lemma overview_panels:
  "\<exists>p1 p2 p3 r1 r2 r3 m1 m2 m3 n1 n2 n3 o1 o2 o3 o4 calls.
    let off = variant_offset info in
    parentStatusTable off = Some p1 \<and> nsStatusTable off = Some p2 \<and> soaStatusTable off = Some p3 \<and>
    parentNSRecordsTable off = Some r1 \<and> selfNSRecordsTable off = Some r2 \<and> soaSerialsTable off = Some r3 \<and>
    mxStatusTable off = Some m1 \<and> spfStatusTable off = Some m2 \<and> dmarcStatusTable off = Some m3 \<and>
    mxRecordsTable off = Some n1 \<and> spfRecordsTable off = Some n2 \<and> dmarcRecordsTable off = Some n3 \<and>
    probeCycleDurationTimeseries off = Some o1 \<and> dnsQueryRateTimeseries off = Some o2 \<and>
    soaSerialsTimeseries off = Some o3 \<and> queryDurationTimeseries off = Some o4 \<and>
    overview_calls uid info zone = Some calls \<and>
    dash_panels calls = (if info then [infoTextPanel] else []) @
      [p1, p2, p3, r1, r2, r3, m1, n1, m2, n2, m3, n3, o1, o2, o3, o4] \<and>
    dash_rows calls = [gridPos 0 (24 - off) 24 1, gridPos 0 (49 - off) 24 1]"
proof -
  define off where "off = variant_offset info"
  have le: "off \<le> 4" by (simp add: off_def variant_offset_def infoPanelHeight_def)
  obtain p1 p2 p3 m1 m2 m3 where S: "parentStatusTable off = Some p1" "nsStatusTable off = Some p2"
    "soaStatusTable off = Some p3" "mxStatusTable off = Some m1" "spfStatusTable off = Some m2" "dmarcStatusTable off = Some m3"
    using panel_defined(1-6) [OF le] by (elim exE)
  obtain r1 r2 r3 n1 n2 n3 where R: "parentNSRecordsTable off = Some r1" "selfNSRecordsTable off = Some r2"
    "soaSerialsTable off = Some r3" "mxRecordsTable off = Some n1" "spfRecordsTable off = Some n2" "dmarcRecordsTable off = Some n3"
    using panel_defined(7-12) [OF le] by (elim exE)
  obtain o1 o2 o3 o4 where O: "probeCycleDurationTimeseries off = Some o1" "dnsQueryRateTimeseries off = Some o2"
    "soaSerialsTimeseries off = Some o3" "queryDurationTimeseries off = Some o4"
    using panel_defined(13-16) [OF le] by (elim exE)
  have tables: "overview_tables off = Some [p1, p2, p3, r1, r2, r3]" by (simp add: overview_tables_def S(1-3) R(1-3))
  obtain t mc where mail: "mail_row off = Some (t, mc)" "row_panels mc = [m1, n1, m2, n2, m3, n3]"
    "row_grids mc = [gridPos 0 (24 - off) 24 1]"
    using mail_row_reads [OF le S(4-6) R(4-6)] by (elim exE conjE)
  obtain t' oc where oper: "operator_row off = Some (t', oc)" "row_panels oc = [o1, o2, o3, o4]"
    "row_grids oc = [gridPos 0 (49 - off) 24 1]"
    using operator_row_reads [OF le O] by (elim exE conjE)
  obtain calls where "overview_calls uid info zone = Some calls"
    "dash_panels calls = (if info then [infoTextPanel] else []) @ [p1, p2, p3, r1, r2, r3] @ row_panels mc @ row_panels oc"
    "dash_rows calls = row_grids mc @ row_grids oc"
    using overview_reads [of info, folded off_def, OF tables mail(1) oper(1), of uid zone] by (elim exE conjE)
  then show ?thesis
    unfolding Let_def off_def [symmetric] mail(2,3) oper(2,3) append.simps
    using S R O by (intro exI conjI) assumption+
qed

definition variant_boxes :: "bool \<Rightarrow> GridPos list" where
  "variant_boxes info = (let off = variant_offset info in
    [gridPos 0 (24 - off) 24 1, gridPos 0 (49 - off) 24 1] @ (if info then [gridPos 0 0 24 4] else []) @
    [gridPos 0 (4 - off) 8 10, gridPos 8 (4 - off) 8 10, gridPos 16 (4 - off) 8 10,
     gridPos 0 (14 - off) 8 10, gridPos 8 (14 - off) 8 10, gridPos 16 (14 - off) 8 10,
     gridPos 0 (25 - off) 12 8, gridPos 12 (25 - off) 12 8, gridPos 0 (33 - off) 12 8, gridPos 12 (33 - off) 12 8,
     gridPos 0 (41 - off) 12 8, gridPos 12 (41 - off) 12 8,
     gridPos 0 (50 - off) 12 8, gridPos 12 (50 - off) 12 8, gridPos 0 (58 - off) 12 8, gridPos 12 (58 - off) 12 8])"

lemma overview_boxes:
  "\<exists>calls. overview_calls uid info zone = Some calls \<and> dash_boxes calls = variant_boxes info"
  using overview_panels [of info uid zone, unfolded Let_def]
  by (elim exE conjE)
    (simp add: dash_boxes_def variant_boxes_def Let_def status_grids records_grids operator_grids info_grid)

text \<open>C31: the layout. Whatever the variant, no position underflows and the calls that build it are all made; its
  panels and row headers lie within the 24 columns, no two of them overlap, and the variant without the header
  panel is the other one without that panel, moved up by its height.\<close>

theorem dashboard_layout:
  "case (overview_calls u True z, overview_calls u' False z') of
     (Some demo, Some public) \<Rightarrow>
       list_all in_grid (dash_boxes demo @ dash_boxes public) \<and>
       pairwise_apart (dash_boxes demo) \<and> pairwise_apart (dash_boxes public) \<and>
       dash_boxes public = map (moved_up infoPanelHeight) (remove1 (gridPos 0 0 24 infoPanelHeight) (dash_boxes demo))
   | _ \<Rightarrow> False"
proof -
  obtain demo where demo: "overview_calls u True z = Some demo" "dash_boxes demo = variant_boxes True"
    using overview_boxes [of u True z] by blast
  obtain public where public: "overview_calls u' False z' = Some public" "dash_boxes public = variant_boxes False"
    using overview_boxes [of u' False z'] by blast
  show ?thesis
    unfolding demo public option.case prod.case
    by (simp add: variant_boxes_def in_grid_def apart_def moved_up_def gridPos_def variant_offset_def infoPanelHeight_def)
qed

section \<open>Columns\<close>

text \<open>
  A table names its columns in one organize step: what is renamed is what is placed, the places are the
  numbers from 0, a column shown is not hidden, and every override and every sort key names a column shown.
\<close>

fun call_organize :: "panel_call \<Rightarrow> OrganizeOptions option" where
  "call_organize (WithTransformation t) = (case tr_Options t of OrganizeOpts opts \<Rightarrow> Some opts | _ \<Rightarrow> None)"
| "call_organize _ = None"

fun call_columns :: "panel_call \<Rightarrow> string list" where
  "call_columns (OverrideByName name vs) = [name]"
| "call_columns (SortBy specs) = map (\<lambda>c. case c of DisplayName n \<Rightarrow> n) (concat specs)"
| "call_columns _ = []"

definition organize_ok :: "OrganizeOptions \<Rightarrow> bool" where
  "organize_ok opts \<longleftrightarrow> map fst (RenameByName opts) = map fst (IndexByName opts) \<and>
     map snd (IndexByName opts) = map int [0..<length (IndexByName opts)] \<and>
     distinct (map fst (RenameByName opts)) \<and> distinct (map snd (RenameByName opts)) \<and>
     list_all (\<lambda>(c, b). map_of (RenameByName opts) c = None) (ExcludeByName opts)"

definition columns_ok :: "panel_call list \<Rightarrow> bool" where
  "columns_ok cs \<longleftrightarrow> (case List.map_filter call_organize cs of
       [opts] \<Rightarrow> organize_ok opts \<and>
         list_all (\<lambda>c. list_all (\<lambda>n. n \<in> set (map snd (RenameByName opts))) (call_columns c)) cs
     | _ \<Rightarrow> False)"

lemma records_columns:
  "columns_ok (parentNSRecordsTable_calls y)" "columns_ok (selfNSRecordsTable_calls y)" "columns_ok (soaSerialsTable_calls y)"
  "columns_ok (mxRecordsTable_calls y)" "columns_ok (spfRecordsTable_calls y)" "columns_ok (dmarcRecordsTable_calls y)"
  by code_simp+

section \<open>The generator\<close>

text \<open>The generator never panics for its layout, and when it does not panic it has written the file of every variant,
  in order; a run that panics has written those before the variant at fault.\<close>

lemma buildOverview_defined: "\<exists>r. buildOverview build uid title info zone = Some r"
  using overview_boxes [of uid info zone] by (auto simp: buildOverview_def)

lemma variants_loop_result:
  assumes "variants_loop build mar wr vs = (p, ws)"
  shows "p \<noteq> Some Underflow \<and> map fst ws = map v_path (take (length ws) vs) \<and> (p = None \<longleftrightarrow> length ws = length vs)"
  using assms
proof (induction vs arbitrary: p ws)
  case (Cons v vs)
  obtain r where "buildOverview build (v_uid v) (v_title v) (v_includeInfoText v) (v_defaultZone v) = Some r"
    using buildOverview_defined by blast
  with Cons show ?case by (auto split: sum.splits option.splits prod.splits)
qed simp

lemma generator_result:
  assumes "generator_main stat build mar wr = (p, ws)"
  shows "p \<noteq> Some Underflow \<and> (p = None \<longleftrightarrow> map fst ws = map v_path variants)"
proof -
  have n: "length variants = 2" by (simp add: variants_def)
  show ?thesis
    using assms variants_loop_result [of build mar wr variants p ws] n
    by (auto simp: generator_main_def Let_def split: option.splits dest: arg_cong [where f = length])
qed

end
