(* ===== verification/Query_Text.thy ===== *)
theory Query_Text
  imports Promql
begin

text \<open>
  The words of a query text, read from the text alone: what the operators, names and selectors of a PromQL query
  are does not depend on an expression it may be the rendering of. The words of a rendered expression are the ones
  its syntax tree names.
\<close>

section \<open>Cutting a text into words\<close>

definition blank :: "char \<Rightarrow> bool" where
  "blank c \<longleftrightarrow> c = CHR '' '' \<or> c = CHR ''('' \<or> c = CHR '')'' \<or> c = CHR '',''"

definition word_char :: "char \<Rightarrow> bool" where
  "word_char c \<longleftrightarrow> \<not> blank c \<and> c \<noteq> CHR ''{''"

lemma dropWhile_shorter: "dropWhile P s = d # r \<Longrightarrow> length r < length s"
  using length_dropWhile_le [of P s] by simp

text \<open>A word is a maximal run of characters other than blanks, parentheses, commas and braces. A word at a brace is a
  selector and comes with the text between its braces.\<close>

function words :: "string \<Rightarrow> (string \<times> string option) list" where
  "words [] = []"
| "words (c # s) =
     (if blank c then words s
      else (case dropWhile word_char (c # s) of
              [] \<Rightarrow> [(c # s, None)]
            | d # r \<Rightarrow>
                if d = CHR ''{''
                then (takeWhile word_char (c # s), Some (takeWhile (\<lambda>x. x \<noteq> CHR ''}'') r)) #
                     words (drop 1 (dropWhile (\<lambda>x. x \<noteq> CHR ''}'') r))
                else (takeWhile word_char (c # s), None) # words r))"
  by pat_completeness auto

termination
proof (relation "measure length")
  fix c s d r assume "dropWhile word_char (c # s) = d # (r :: string)"
  note l = dropWhile_shorter [OF this]
  show "(r, c # s) \<in> measure length" using l by simp
  have "length (drop 1 (dropWhile (\<lambda>x. x \<noteq> CHR ''}'') r)) \<le> length r"
    using length_dropWhile_le [of "\<lambda>x. x \<noteq> CHR ''}''" r] by simp
  with l show "(drop 1 (dropWhile (\<lambda>x. x \<noteq> CHR ''}'') r), c # s) \<in> measure length" by simp
qed auto

text \<open>The parts of a matcher: its label is the text before the operator, the rest must be a quoted value.\<close>

definition matcher_parts :: "string \<Rightarrow> string \<times> string" where
  "matcher_parts s = (takeWhile (\<lambda>x. x \<noteq> CHR ''='') s, dropWhile (\<lambda>x. x \<noteq> CHR ''='') s)"

definition matcher_shape :: "string \<Rightarrow> bool" where
  "matcher_shape r \<longleftrightarrow> (take 2 r = [CHR ''='', CHR 0x22] \<or> take 3 r = [CHR ''='', CHR ''~'', CHR 0x22]) \<and>
     last r = CHR 0x22 \<and> 2 < length r"

section \<open>The words of an expression\<close>

text \<open>Names that cut where a word is cut, and values that end where the quote ends.\<close>

definition name_ok :: "string \<Rightarrow> bool" where
  "name_ok w \<longleftrightarrow> w \<noteq> [] \<and> list_all (\<lambda>c. word_char c \<and> c \<noteq> CHR ''}'' \<and> c \<noteq> CHR ''='') w"

definition value_ok :: "string \<Rightarrow> bool" where
  "value_ok v \<longleftrightarrow> list_all (\<lambda>c. c \<noteq> CHR ''}'' \<and> c \<noteq> CHR ''{'' \<and> c \<noteq> CHR '','' \<and> c \<noteq> CHR 0x22) v"

fun matcher_label :: "matcher \<Rightarrow> string" where
  "matcher_label (Equals l v) = l"
| "matcher_label (OneOf l vs) = l"

fun matcher_plain :: "matcher \<Rightarrow> bool" where
  "matcher_plain (Equals l v) \<longleftrightarrow> value_ok v"
| "matcher_plain (OneOf l vs) \<longleftrightarrow> list_all value_ok vs"

fun op_words :: "binop \<Rightarrow> string list" where
  "op_words Op_mul = [''*'']"
| "op_words Op_add = [''+'']"
| "op_words Op_sub = [''-'']"
| "op_words (Op_bool Cmp_eq) = [''=='', ''bool'']"
| "op_words (Op_bool Cmp_ne) = [''!='', ''bool'']"
| "op_words (Op_bool Cmp_gt) = [''>'', ''bool'']"
| "op_words (Op_bool Cmp_ge) = [''>='', ''bool'']"
| "op_words Op_and = [''and'']"
| "op_words Op_or = [''or'']"

abbreviation plain_words :: "string list \<Rightarrow> (string \<times> string option) list" where
  "plain_words \<equiv> map (\<lambda>w. (w, None))"

definition selector_body :: "matcher list \<Rightarrow> string" where
  "selector_body ms = Join (map render_matcher ms) '',''"

fun ast_words :: "promql \<Rightarrow> (string \<times> string option) list" where
  "ast_words (Select m ms) = [(m, Some (selector_body ms))]"
| "ast_words (Literal n) = plain_words [small_number n]"
| "ast_words (Vector n) = plain_words [''vector'', small_number n]"
| "ast_words (Paren e) = ast_words e"
| "ast_words (AggregateBy a sep ls e) = plain_words (agg_name a # ''by'' # ls) @ ast_words e"
| "ast_words (Aggregate a e) = plain_words [agg_name a] @ ast_words e"
| "ast_words (Binary b on l r) = ast_words l @
     plain_words (op_words b @ (case on of None \<Rightarrow> [] | Some ls \<Rightarrow> ''on'' # ls)) @ ast_words r"
| "ast_words (ClampMax e n) = plain_words [''clamp_max''] @ ast_words e @ plain_words [small_number n]"
| "ast_words (Absent e) = plain_words [''absent''] @ ast_words e"

text \<open>The labels an expression groups or matches by.\<close>

fun grouping :: "promql \<Rightarrow> string list" where
  "grouping (AggregateBy a sep ls e) = ls @ grouping e"
| "grouping (Binary b on l r) = (case on of None \<Rightarrow> [] | Some ls \<Rightarrow> ls) @ grouping l @ grouping r"
| "grouping (Paren e) = grouping e"
| "grouping (Aggregate a e) = grouping e"
| "grouping (ClampMax e n) = grouping e"
| "grouping (Absent e) = grouping e"
| "grouping _ = []"

text \<open>An expression whose text is cut as it is meant, up to its names.\<close>

fun cuts :: "promql \<Rightarrow> bool" where
  "cuts (Select m ms) \<longleftrightarrow> list_all matcher_plain ms"
| "cuts (Literal n) \<longleftrightarrow> True"
| "cuts (Vector n) \<longleftrightarrow> True"
| "cuts (Paren e) \<longleftrightarrow> cuts e"
| "cuts (AggregateBy a sep ls e) \<longleftrightarrow> (sep = '','' \<or> sep = '', '') \<and> cuts e"
| "cuts (Aggregate a e) \<longleftrightarrow> cuts e"
| "cuts (Binary b on l r) \<longleftrightarrow> cuts l \<and> cuts r"
| "cuts (ClampMax e n) \<longleftrightarrow> cuts e"
| "cuts (Absent e) \<longleftrightarrow> cuts e"

definition names_ok :: "promql \<Rightarrow> bool" where
  "names_ok e \<longleftrightarrow> list_all (\<lambda>(m, ms). name_ok m \<and> list_all (\<lambda>x. name_ok (matcher_label x)) ms) (selectors e) \<and>
     list_all name_ok (grouping e)"

section \<open>Cutting a rendering\<close>

text \<open>What may follow a word.\<close>

definition stops :: "string \<Rightarrow> bool" where
  "stops t \<longleftrightarrow> (case t of [] \<Rightarrow> True | c # s \<Rightarrow> blank c)"

lemma stops_simps [simp]: "stops []" "stops (c # s) \<longleftrightarrow> blank c"
  by (simp_all add: stops_def)

lemma blank_simps [simp]: "blank CHR '' ''" "blank CHR ''(''" "blank CHR '')''" "blank CHR '',''" "\<not> blank CHR ''{''"
  by (simp_all add: blank_def)

lemma words_blank [simp]: "blank c \<Longrightarrow> words (c # s) = words s"
  by simp

declare words.simps(2) [simp del]

lemma span_word:
  assumes "list_all word_char w" and "t = [] \<or> \<not> word_char (hd t)"
  shows "takeWhile word_char (w @ t) = w" "dropWhile word_char (w @ t) = t"
  using assms by (induction w) (cases t; auto)+

lemma words_word:
  assumes "list_all word_char w" and "w \<noteq> []" and "stops t"
  shows "words (w @ t) = (w, None) # words t"
proof -
  obtain c s where w: "w = c # s" using assms(2) by (cases w) auto
  have "t = [] \<or> \<not> word_char (hd t)" using assms(3) by (cases t) (auto simp: word_char_def)
  note S = span_word [OF assms(1) this, unfolded w append_Cons]
  have c: "\<not> blank c" using assms(1) by (simp add: w word_char_def)
  show ?thesis
  proof (cases t)
    case (Cons d r)
    then have "blank d" "d \<noteq> CHR ''{''" using assms(3) by auto
    with S c Cons show ?thesis by (simp add: w words.simps(2))
  qed (use S c in \<open>simp add: w words.simps(2)\<close>)
qed

lemma words_selector:
  assumes "list_all word_char w" and "w \<noteq> []" and "CHR ''}'' \<notin> set body"
  shows "words (w @ ''{'' @ body @ ''}'' @ t) = (w, Some body) # words t"
proof -
  obtain c s where w: "w = c # s" using assms(2) by (cases w) auto
  have c: "\<not> blank c" using assms(1) by (simp add: w word_char_def)
  note S = span_word [OF assms(1), of "''{'' @ body @ ''}'' @ t", unfolded w append_Cons append_Nil]
  have B: "takeWhile (\<lambda>x. x \<noteq> CHR ''}'') (body @ CHR ''}'' # t) = body"
      "dropWhile (\<lambda>x. x \<noteq> CHR ''}'') (body @ CHR ''}'' # t) = CHR ''}'' # t"
    using assms(3) by (induction body) auto
  show ?thesis using S c B by (simp add: w words.simps(2) word_char_def)
qed

lemma name_ok_word: "name_ok w \<Longrightarrow> list_all word_char w \<and> w \<noteq> []"
  by (auto simp: name_ok_def list_all_iff)

lemma words_name: "name_ok w \<Longrightarrow> stops t \<Longrightarrow> words (w @ t) = (w, None) # words t"
  using name_ok_word words_word by blast

text \<open>The words the syntax itself puts in.\<close>

lemma syntax_names [simp]:
  "name_ok (agg_name a)" "name_ok ''by''" "name_ok ''on''" "name_ok ''vector''" "name_ok ''clamp_max''" "name_ok ''absent''"
  by (cases a) (simp_all add: name_ok_def word_char_def blank_def)

lemma digit_name: "0 \<le> n \<Longrightarrow> n < 10 \<Longrightarrow> name_ok (small_number n)"
proof -
  assume n: "0 \<le> n" "n < 10"
  have "list_all (\<lambda>d. name_ok [d]) ''0123456789''" by (simp add: name_ok_def word_char_def blank_def)
  moreover have "nat n < length ''0123456789''" using n by simp
  ultimately show ?thesis using n by (simp only: small_number_def list_all_length) simp
qed

lemma words_op: "stops t \<Longrightarrow> words (op_name b @ t) = plain_words (op_words b) @ words t"
  by (cases b rule: op_words.cases; simp)
    (use words_word [of "''*''" t] words_word [of "''+''" t] words_word [of "''-''" t] words_word [of "''and''" t]
      words_word [of "''or''" t] words_word [of "''bool''" t] words_word [of "''==''" "'' bool'' @ t"]
      words_word [of "''!=''" "'' bool'' @ t"] words_word [of "''>''" "'' bool'' @ t"]
      words_word [of "''>=''" "'' bool'' @ t"] in \<open>simp add: word_char_def blank_def\<close>)+

lemma words_labels:
  assumes sep: "sep = '','' \<or> sep = '', ''" and "list_all name_ok ls" and "stops t"
  shows "words (Join ls sep @ t) = plain_words ls @ words t"
  using assms(2)
proof (induction ls)
  case (Cons l ls)
  have l: "name_ok l" using Cons.prems by simp
  show ?case
  proof (cases ls)
    case Nil
    then show ?thesis using words_name [OF l assms(3)] by simp
  next
    case (Cons k ks)
    have "stops (sep @ Join ls sep @ t)" "words (sep @ Join ls sep @ t) = words (Join ls sep @ t)" using sep by auto
    with words_name [OF l this(1)] Cons.IH Cons.prems show ?thesis by (simp add: \<open>ls = k # ks\<close>)
  qed
qed simp

lemma char_in_Join: "c \<in> set (Join xs sep) \<Longrightarrow> c \<in> set sep \<or> (\<exists>x \<in> set xs. c \<in> set x)"
  by (induction xs sep rule: Join.induct) auto

lemma name_ok_chars: "name_ok w \<Longrightarrow> c \<in> set w \<Longrightarrow> c \<noteq> CHR ''}'' \<and> c \<noteq> CHR '','' \<and> c \<noteq> CHR ''=''"
proof -
  assume w: "name_ok w" "c \<in> set w"
  then have "word_char c" "c \<noteq> CHR ''}''" "c \<noteq> CHR ''=''" unfolding name_ok_def list_all_iff by blast+
  moreover have "\<not> word_char CHR '',''" by (simp add: word_char_def)
  ultimately show ?thesis by metis
qed

lemma value_ok_chars: "value_ok v \<Longrightarrow> c \<in> set v \<Longrightarrow> c \<noteq> CHR ''}'' \<and> c \<noteq> CHR '',''"
  unfolding value_ok_def list_all_iff by blast

lemma render_matcher_chars:
  assumes "matcher_plain m" and "name_ok (matcher_label m)" and "c = CHR ''}'' \<or> c = CHR '',''"
  shows "c \<notin> set (render_matcher m)"
proof -
  have l: "c \<notin> set (matcher_label m)" using name_ok_chars [OF assms(2)] assms(3) by blast
  have v: "c \<notin> set v" if "value_ok v" for v using value_ok_chars [OF that] assms(3) by blast
  have c: "c \<noteq> CHR ''=''" "c \<noteq> CHR ''~''" "c \<noteq> CHR 0x22" "c \<noteq> CHR ''|''" using assms(3) by auto
  show ?thesis
  proof (cases m)
    case (Equals k x)
    with l v [of x] assms(1) c show ?thesis by simp
  next
    case (OneOf k vs)
    then have "c \<notin> set x" if "x \<in> set vs" for x using v assms(1) that by (simp add: list_all_iff)
    then have "c \<notin> set (Join vs ''|'')" using char_in_Join [of c vs "''|''"] c by auto
    with l OneOf c show ?thesis by simp
  qed
qed

lemma selector_body_text:
  assumes "list_all matcher_plain ms" and "list_all (\<lambda>x. name_ok (matcher_label x)) ms"
  shows "CHR ''}'' \<notin> set (selector_body ms)"
proof
  assume "CHR ''}'' \<in> set (selector_body ms)"
  from char_in_Join [OF this [unfolded selector_body_def]] obtain m where "m \<in> set ms" "CHR ''}'' \<in> set (render_matcher m)"
    by auto
  then show False using assms render_matcher_chars [of m] by (simp add: list_all_iff)
qed

lemma words_render:
  assumes "prec_ok e" and "cuts e" and "names_ok e" and "stops t"
  shows "words (render e @ t) = ast_words e @ words t"
  using assms
proof (induction e arbitrary: t)
  case (Select m ms)
  then have "CHR ''}'' \<notin> set (selector_body ms)" by (intro selector_body_text) (auto simp: names_ok_def)
  from words_selector [OF _ _ this, of m t] Select.prems name_ok_word show ?case
    by (simp add: names_ok_def selector_body_def)
next
  case (Literal n)
  then show ?case using words_name [OF digit_name] by simp
next
  case (Vector n)
  then show ?case using words_name [of "''vector''" "''('' @ small_number n @ '')'' @ t"] words_name [OF digit_name, of n "'')'' @ t"]
    by simp
next
  case (Paren e)
  then show ?case by (simp add: names_ok_def)
next
  case (AggregateBy a sep ls e)
  let ?r = "'') ('' @ render e @ '')'' @ t"
  have "words (Join ls sep @ ?r) = plain_words ls @ words ?r"
    using AggregateBy.prems by (intro words_labels) (auto simp: names_ok_def)
  with AggregateBy words_name [of "agg_name a" "'' by ('' @ Join ls sep @ ?r"] words_name [of "''by''" "'' ('' @ Join ls sep @ ?r"]
  show ?case by (simp add: names_ok_def)
next
  case (Aggregate a e)
  then show ?case using words_name [of "agg_name a" "''('' @ render e @ '')'' @ t"] by (simp add: names_ok_def)
next
  case (Binary b on l r)
  let ?on = "case on of None \<Rightarrow> [] | Some ls \<Rightarrow> '' on('' @ Join ls '','' @ '')''"
  have r: "words (render r @ t) = ast_words r @ words t" using Binary by (auto simp: names_ok_def)
  have on: "words (?on @ '' '' @ render r @ t) = plain_words (case on of None \<Rightarrow> [] | Some ls \<Rightarrow> ''on'' # ls) @ words (render r @ t)"
  proof (cases on)
    case (Some ls)
    have "words (Join ls '','' @ '')'' @ '' '' @ render r @ t) = plain_words ls @ words ('')'' @ '' '' @ render r @ t)"
      using Binary.prems Some by (intro words_labels) (auto simp: names_ok_def)
    with Some words_name [of "''on''" "''('' @ Join ls '','' @ '')'' @ '' '' @ render r @ t"] show ?thesis by simp
  qed simp
  have "stops (?on @ '' '' @ render r @ t)" by (cases on) simp_all
  note op = words_op [OF this, of b]
  have "words (render l @ '' '' @ op_name b @ ?on @ '' '' @ render r @ t) =
      ast_words l @ words ('' '' @ op_name b @ ?on @ '' '' @ render r @ t)"
    using Binary by (auto simp: names_ok_def)
  with op on r show ?case by simp
next
  case (ClampMax e n)
  have "words (render e @ '', '' @ small_number n @ '')'' @ t) = ast_words e @ words ('', '' @ small_number n @ '')'' @ t)"
    using ClampMax by (auto simp: names_ok_def)
  with words_name [of "''clamp_max''" "''('' @ render e @ '', '' @ small_number n @ '')'' @ t"]
    words_name [OF digit_name, of n "'')'' @ t"] ClampMax.prems show ?case by simp
next
  case (Absent e)
  then show ?case using words_name [of "''absent''" "''('' @ render e @ '')'' @ t"] by (simp add: names_ok_def)
qed

section \<open>Reading a selector\<close>

definition selector_matchers :: "string \<Rightarrow> (string \<times> string) list" where
  "selector_matchers body = map matcher_parts (Split body CHR '','')"

lemma render_matcher_parts:
  assumes "name_ok (matcher_label m)"
  shows "fst (matcher_parts (render_matcher m)) = matcher_label m" "matcher_shape (snd (matcher_parts (render_matcher m)))"
proof -
  have l: "\<And>c. c \<in> set (matcher_label m) \<Longrightarrow> c \<noteq> CHR ''=''"
    using assms by (simp add: name_ok_def list_all_iff)
  obtain r where r: "render_matcher m = matcher_label m @ CHR ''='' # r" "matcher_shape (CHR ''='' # r)"
    by (cases m) (simp_all add: matcher_shape_def)
  show "fst (matcher_parts (render_matcher m)) = matcher_label m"
    unfolding matcher_parts_def r(1) fst_conv using l by (simp add: takeWhile_append2)
  show "matcher_shape (snd (matcher_parts (render_matcher m)))"
    unfolding matcher_parts_def r(1) snd_conv using l r(2) by (simp add: dropWhile_append2)
qed

lemma selector_matchers_body:
  assumes "list_all matcher_plain ms" and "list_all (\<lambda>x. name_ok (matcher_label x)) ms" and "ms \<noteq> []"
  shows "map fst (selector_matchers (selector_body ms)) = map matcher_label ms"
    "list_all (\<lambda>(l, r). matcher_shape r) (selector_matchers (selector_body ms))"
proof -
  have "Split (selector_body ms) CHR '','' = map render_matcher ms"
    unfolding selector_body_def using assms(3)
  proof (intro Split_of_Join ballI)
    fix x assume "x \<in> set (map render_matcher ms)"
    with assms(1,2) render_matcher_chars show "CHR '','' \<notin> set x" by (auto simp: list_all_iff)
  qed simp
  with assms render_matcher_parts
  show "map fst (selector_matchers (selector_body ms)) = map matcher_label ms"
    "list_all (\<lambda>(l, r). matcher_shape r) (selector_matchers (selector_body ms))"
    by (auto simp: selector_matchers_def list_all_iff split_beta)
qed

end
