(* ===== verification/Dashboard_Queries.thy ===== *)
theory Dashboard_Queries
  imports Status_Queries Dashboard_Layout Cycle Query_Text
begin

text \<open>
  What the tables of the dashboard ask and what the answers mean: every query of every table names metrics
  and labels the exporter exports, a row shows the four states in their priority, the MX rows in terms of the
  runner's gauges, and two rows that do not show what they are documented to show.
\<close>

section \<open>What the exporter exports\<close>

text \<open>A metric of the runner with its label names, or a gauge of the registry of a cycle.\<close>

definition exported :: "string \<Rightarrow> string list \<Rightarrow> bool" where
  \<open>exported m ls \<longleftrightarrow>
     list_ex (\<lambda>(metric, kind, name, labels). name = m \<and> list_all (\<lambda>l. l \<in> set labels) ls) NewRunner \<or>
     take 10 m = ''dnshealth_'' \<and>
       (case gauge_schema (drop 10 m) of Some (help, labels) \<Rightarrow> list_all (\<lambda>l. l \<in> labels) ls | None \<Rightarrow> False)\<close>

text \<open>Read from the text alone: every word of a query is a selector of an exported metric, which matches on labels
  that metric has, or a word of the query language, or a label of a metric the query selects.\<close>

definition promql_words :: "string list" where
  "promql_words = [''count'', ''min'', ''max'', ''group'', ''by'', ''on'', ''vector'', ''clamp_max'', ''absent'', ''bool'',
     ''and'', ''or'', ''*'', ''+'', ''-'', ''=='', ''!='', ''>'', ''>='',
     ''0'', ''1'', ''2'', ''3'', ''4'', ''5'', ''6'', ''7'', ''8'', ''9'']"

definition text_ok :: "string \<Rightarrow> bool" where
  "text_ok q \<longleftrightarrow> list_all (\<lambda>(w, b). case b of
       Some body \<Rightarrow> exported w (map fst (selector_matchers body)) \<and> list_all (\<lambda>(l, r). matcher_shape r) (selector_matchers body)
     | None \<Rightarrow> w \<in> set promql_words \<or> list_ex (\<lambda>(m, b'). b' \<noteq> None \<and> exported m [w]) (words q)) (words q)"

text \<open>The same of an expression, whose operators bind as they stand and whose values do not end a quote.\<close>

definition promql_ok :: "promql \<Rightarrow> bool" where
  "promql_ok e \<longleftrightarrow> prec_ok e \<and> cuts e \<and> list_all (\<lambda>(m, ms). ms \<noteq> [] \<and> exported m (map matcher_label ms)) (selectors e) \<and>
     list_all (\<lambda>l. list_ex (\<lambda>(m, ms). exported m [l]) (selectors e)) (grouping e)"

definition query_ok :: "string \<Rightarrow> bool" where
  "query_ok q \<longleftrightarrow> text_ok q \<and> (\<exists>e. q = render e \<and> promql_ok e)"

lemma schema_names:
  "list_all (\<lambda>(metric, kind, name, labels). name_ok name \<and> list_all name_ok labels) NewRunner"
  "list_all (\<lambda>(m, labels). name_ok m \<and> list_all name_ok labels) metric_schema"
  "list_all (\<lambda>(m, help). name_ok m) query_help"
  "list_all name_ok [''zone'', ''nameserver'', ''ip'', ''check'', ''dnshealth_'']"
  by code_simp+

lemma exported_names:
  assumes "exported m ls"
  shows "name_ok m \<and> list_all name_ok ls"
  using assms unfolding exported_def
proof (elim disjE conjE)
  assume "list_ex (\<lambda>(metric, kind, name, labels). name = m \<and> list_all (\<lambda>l. l \<in> set labels) ls) NewRunner"
  then obtain metric kind labels where "(metric, kind, m, labels) \<in> set NewRunner" and ls: "list_all (\<lambda>l. l \<in> set labels) ls"
    unfolding list_ex_iff by blast
  from bspec [OF schema_names(1) [unfolded list_all_iff] this(1)] ls show ?thesis by (simp add: list_all_iff)
next
  assume m: "take 10 m = ''dnshealth_''"
    and g: "case gauge_schema (drop 10 m) of Some (help, labels) \<Rightarrow> list_all (\<lambda>l. l \<in> labels) ls | None \<Rightarrow> False"
  have base: "name_ok ''zone''" "name_ok ''nameserver''" "name_ok ''ip''" "name_ok ''check''" "name_ok ''dnshealth_''"
    using schema_names(4) by (simp_all only: list.pred_inject)
  have members: "list_all (\<lambda>l. l \<in> S) ls \<Longrightarrow> \<forall>l \<in> S. name_ok l \<Longrightarrow> list_all name_ok ls" for S
    unfolding list_all_iff by blast
  have names: "name_ok (drop 10 m) \<and> list_all name_ok ls"
  proof (cases "map_of query_help (drop 10 m)")
    case (Some t)
    have "list_all (\<lambda>l. l \<in> {''zone'', ''nameserver'', ''ip'', ''check''}) ls" using g unfolding gauge_schema_def Some option.case prod.case .
    then have "list_all name_ok ls" by (rule members) (intro ballI, elim insertE emptyE; simp only: base)
    with bspec [OF schema_names(3) [unfolded list_all_iff] map_of_SomeD [OF Some]] show ?thesis by simp
  next
    case None
    show ?thesis
    proof (cases "map_of metric_schema (drop 10 m)")
      case (Some labels)
      have ls: "list_all (\<lambda>l. l \<in> {''zone'', ''nameserver'', ''ip''} \<union> set labels) ls"
        using g unfolding gauge_schema_def None Some option.case option.map prod.case .
      from bspec [OF schema_names(2) [unfolded list_all_iff] map_of_SomeD [OF Some]]
      have labels: "name_ok (drop 10 m)" "\<forall>l \<in> set labels. name_ok l" by simp_all
      from ls have "list_all name_ok ls"
        by (rule members) (intro ballI, elim UnE insertE emptyE; simp only: base labels(2))
      with labels(1) show ?thesis by simp
    next
      case None
      with g \<open>map_of query_help (drop 10 m) = None\<close> show ?thesis
        unfolding gauge_schema_def by (simp only: option.case option.map)
    qed
  qed
  have m': "m = ''dnshealth_'' @ drop 10 m" unfolding m [symmetric] by (rule append_take_drop_id [symmetric])
  have "name_ok (u @ v)" if "name_ok u" "name_ok v" for u v using that by (simp add: name_ok_def)
  from this [OF base(5) conjunct1 [OF names]] have "name_ok m" unfolding m' [symmetric] .
  with names show ?thesis by (intro conjI conjunct2 [OF names])
qed

lemma ast_words_selectors:
  "(m, Some body) \<in> set (ast_words e) \<longleftrightarrow> (\<exists>ms. (m, ms) \<in> set (selectors e) \<and> body = selector_body ms)"
  by (induction e) auto

lemma ast_words_plain:
  assumes "prec_ok e" and "(w, None) \<in> set (ast_words e)"
  shows "w \<in> set promql_words \<or> w \<in> set (grouping e)"
proof -
  have digit: "0 \<le> n \<Longrightarrow> n < 10 \<Longrightarrow> small_number n \<in> set promql_words" for n
  proof -
    assume n: "0 \<le> n" "n < 10"
    have "list_all (\<lambda>d. [d] \<in> set promql_words) ''0123456789''" by code_simp
    moreover have "nat n < length ''0123456789''" using n by simp
    ultimately show ?thesis using n by (simp only: small_number_def list_all_length) simp
  qed
  have syn_words: "agg_name a \<in> set promql_words" "set (op_words b) \<subseteq> set promql_words" for a b
    by (cases a; simp add: promql_words_def) (cases b rule: op_words.cases; simp add: promql_words_def)
  have key_words: "''by'' \<in> set promql_words" "''on'' \<in> set promql_words" "''vector'' \<in> set promql_words"
    "''clamp_max'' \<in> set promql_words" "''absent'' \<in> set promql_words" by (simp_all add: promql_words_def)
  show ?thesis using assms
  proof (induction e)
    case (Binary b on l r)
    then show ?case using syn_words(2) [of b] key_words by (cases on) auto
  qed (use syn_words(1) digit key_words in auto)
qed

lemma promql_ok_names: "promql_ok e \<Longrightarrow> names_ok e"
proof -
  assume e: "promql_ok e"
  have "name_ok m \<and> list_all (\<lambda>x. name_ok (matcher_label x)) ms" if "(m, ms) \<in> set (selectors e)" for m ms
  proof -
    have "exported m (map matcher_label ms)" using e that by (auto simp: promql_ok_def list_all_iff)
    from exported_names [OF this] show ?thesis by (simp add: list_all_iff)
  qed
  moreover have "name_ok l" if "l \<in> set (grouping e)" for l
  proof -
    from e that have "list_ex (\<lambda>(m, ms). exported m [l]) (selectors e)" by (simp add: promql_ok_def list_all_iff)
    then obtain m where "exported m [l]" unfolding list_ex_iff by blast
    from exported_names [OF this] show ?thesis by simp
  qed
  ultimately show ?thesis by (auto simp: names_ok_def list_all_iff)
qed

lemma promql_ok_text:
  assumes "promql_ok e"
  shows "text_ok (render e)"
proof -
  note names = promql_ok_names [OF assms]
  have w: "words (render e) = ast_words e"
    using words_render [OF _ _ names, of "[]"] assms by (simp add: promql_ok_def)
  have plain: "list_all matcher_plain ms" if "(m, ms) \<in> set (selectors e)" "cuts e" for m ms
    using that by (induction e) auto
  have "exported m (map fst (selector_matchers body)) \<and> list_all (\<lambda>(l, r). matcher_shape r) (selector_matchers body)"
    if m: "(m, Some body) \<in> set (ast_words e)" for m body
  proof -
    from m obtain ms where ms: "(m, ms) \<in> set (selectors e)" "body = selector_body ms" unfolding ast_words_selectors by blast
    then have "exported m (map matcher_label ms)" "ms \<noteq> []" "list_all (\<lambda>x. name_ok (matcher_label x)) ms"
      using assms names by (auto simp: promql_ok_def names_ok_def list_all_iff)
    moreover have "list_all matcher_plain ms" using plain [OF ms(1)] assms by (simp add: promql_ok_def)
    ultimately show ?thesis using selector_matchers_body [of ms] by (simp add: ms(2))
  qed
  moreover have "w \<in> set promql_words \<or> list_ex (\<lambda>(m, b'). b' \<noteq> None \<and> exported m [w]) (ast_words e)"
    if p: "(w, None) \<in> set (ast_words e)" for w
  proof -
    have "prec_ok e" using assms by (simp add: promql_ok_def)
    from ast_words_plain [OF this p] show ?thesis
    proof
      assume "w \<in> set (grouping e)"
      then have "list_ex (\<lambda>(m, ms). exported m [w]) (selectors e)" using assms by (simp add: promql_ok_def list_all_iff)
      then obtain m ms where "(m, ms) \<in> set (selectors e)" "exported m [w]" unfolding list_ex_iff by blast
      moreover from this(1) have "(m, Some (selector_body ms)) \<in> set (ast_words e)" unfolding ast_words_selectors by blast
      ultimately show ?thesis by (force simp: list_ex_iff)
    qed simp
  qed
  ultimately show ?thesis unfolding text_ok_def w list_all_iff [of _ "ast_words e"]
    by (intro ballI) (simp only: split_paired_all prod.case split: option.split, blast)
qed

lemma query_okI: "q = render e \<Longrightarrow> promql_ok e \<Longrightarrow> query_ok q"
  using promql_ok_text by (auto simp: query_ok_def)

fun row_ok :: "row_ast \<Rightarrow> bool" where
  "row_ok (hard, na, warn) \<longleftrightarrow> list_all promql_ok (hard # (case na of None \<Rightarrow> [] | Some e \<Rightarrow> [e]) @ (case warn of None \<Rightarrow> [] | Some e \<Rightarrow> [e]))"

lemma row_query_ok:
  assumes "describes r c" and "row_ok r"
  shows "query_ok (composeStatusExpr c)"
proof (rule query_okI)
  obtain hard na warn where r: "r = (hard, na, warn)" by (metis prod_cases3)
  have sel: "selectors (scalar_option p) = (case p of None \<Rightarrow> [] | Some e \<Rightarrow> selectors e)"
    "grouping (scalar_option p) = (case p of None \<Rightarrow> [] | Some e \<Rightarrow> grouping e)"
    "cuts (scalar_option p) = (case p of None \<Rightarrow> True | Some e \<Rightarrow> cuts e)" for p
    by (cases p; simp add: scalar_option_def scalar_ast_def)+
  show "composeStatusExpr c = render (compose_ast r)" using compose_render [OF assms(1)] by blast
  have "prec_ok (compose_ast r)" using compose_render [OF assms(1)] by blast
  then show "promql_ok (compose_ast r)"
    using assms(2) by (auto simp: r compose_ast_def promql_ok_def sel scalar_ast_def list_all_iff split: option.splits)
qed

lemma rows_ok:
  "row_ok parent_row_A_ast"
  "row_ok parent_row_B_ast"
  "row_ok ns_row_A_ast"
  "row_ok ns_row_B_ast"
  "row_ok ns_row_C_ast"
  "row_ok ns_row_D_ast"
  "row_ok ns_row_E_ast"
  "row_ok ns_row_F_ast"
  "row_ok ns_row_G_ast"
  "row_ok ns_row_H_ast"
  "row_ok soa_row_A_ast"
  "row_ok soa_row_B_ast"
  "row_ok soa_row_C_ast"
  "row_ok mx_row_A_ast"
  "row_ok mx_row_B_ast"
  "row_ok mx_row_C_ast"
  "row_ok mx_row_D_ast"
  "row_ok mx_row_E_ast"
  "row_ok spf_row_A_ast"
  "row_ok spf_row_B_ast"
  "row_ok spf_row_C_ast"
  "row_ok dmarc_row_A_ast"
  "row_ok dmarc_row_B_ast"
  by code_simp+

definition selections :: "(string \<times> matcher list) list \<Rightarrow> string list" where
  "selections sels = map (\<lambda>(m, ms). render (Select m ms)) sels"

lemma selections_ok:
  "qs = selections sels \<Longrightarrow> list_all (\<lambda>(m, ms). promql_ok (Select m ms)) sels \<Longrightarrow> list_all query_ok qs"
proof (induction sels arbitrary: qs)
  case (Cons s sels)
  obtain m ms where s: "s = (m, ms)" by fastforce
  have "query_ok (render (Select m ms))"
    using Cons.prems(2) by (intro query_okI [where e = "Select m ms"]) (simp_all add: s)
  then show ?case using Cons by (simp add: s selections_def del: render.simps)
qed (simp add: selections_def)

text \<open>The queries of the records tables.\<close>

lemma records_exprs:
  \<open>panel_exprs (TablePanel, parentNSRecordsTable_calls y) = selections
     [(''dnshealth_ns_record'', [Equals ''source'' ''parent'', Equals ''zone'' ''$zone''])]\<close>
  \<open>panel_exprs (TablePanel, selfNSRecordsTable_calls y) = selections
     [(''dnshealth_ns_record'', [Equals ''source'' ''self'', Equals ''zone'' ''$zone'']),
      (''dnshealth_query_success'', [Equals ''check'' ''soa'', Equals ''zone'' ''$zone'']),
      (''dnshealth_ns_recursion_available'', [Equals ''zone'' ''$zone''])]\<close>
  \<open>panel_exprs (TablePanel, soaSerialsTable_calls y) = selections
     [(''dnshealth_soa_serial'', [Equals ''zone'' ''$zone'']),
      (''dnshealth_soa_refresh_seconds'', [Equals ''zone'' ''$zone'']),
      (''dnshealth_soa_retry_seconds'', [Equals ''zone'' ''$zone'']),
      (''dnshealth_soa_expire_seconds'', [Equals ''zone'' ''$zone'']),
      (''dnshealth_soa_minimum_seconds'', [Equals ''zone'' ''$zone''])]\<close>
  \<open>panel_exprs (TablePanel, mxRecordsTable_calls y) = selections
     [(''dnshealth_mx_info'', [Equals ''zone'' ''$zone'']),
      (''dnshealth_mx_resolves'', [Equals ''zone'' ''$zone'']),
      (''dnshealth_mx_is_cname'', [Equals ''zone'' ''$zone'']),
      (''dnshealth_mx_syntax_valid'', [Equals ''zone'' ''$zone'']),
      (''dnshealth_mx_is_primary'', [Equals ''zone'' ''$zone''])]\<close>
  \<open>panel_exprs (TablePanel, spfRecordsTable_calls y) = selections
     [(''dnshealth_spf_record'', [Equals ''zone'' ''$zone'']),
      (''dnshealth_spf_terminal_all'', [Equals ''zone'' ''$zone'']),
      (''dnshealth_spf_lookup_count'', [Equals ''zone'' ''$zone''])]\<close>
  \<open>panel_exprs (TablePanel, dmarcRecordsTable_calls y) = selections
     [(''dnshealth_dmarc_record'', [Equals ''zone'' ''$zone'']),
      (''dnshealth_dmarc_policy'', [Equals ''zone'' ''$zone''])]\<close>
  by code_simp+

lemma records_queries_ok:
  "list_all query_ok (panel_exprs (TablePanel, parentNSRecordsTable_calls y))"
  "list_all query_ok (panel_exprs (TablePanel, selfNSRecordsTable_calls y))"
  "list_all query_ok (panel_exprs (TablePanel, soaSerialsTable_calls y))"
  "list_all query_ok (panel_exprs (TablePanel, mxRecordsTable_calls y))"
  "list_all query_ok (panel_exprs (TablePanel, spfRecordsTable_calls y))"
  "list_all query_ok (panel_exprs (TablePanel, dmarcRecordsTable_calls y))"
  by (rule selections_ok [OF records_exprs(1)], code_simp) (rule selections_ok [OF records_exprs(2)], code_simp,
    rule selections_ok [OF records_exprs(3)], code_simp, rule selections_ok [OF records_exprs(4)], code_simp,
    rule selections_ok [OF records_exprs(5)], code_simp, rule selections_ok [OF records_exprs(6)], code_simp)

lemma status_queries_ok:
  "list_all query_ok (map composeStatusExpr parentStatusChecks)" "list_all query_ok (map composeStatusExpr nsStatusChecks)"
  "list_all query_ok (map composeStatusExpr soaStatusChecks)" "list_all query_ok (map composeStatusExpr mxStatusChecks)"
  "list_all query_ok (map composeStatusExpr spfStatusChecks)" "list_all query_ok (map composeStatusExpr dmarcStatusChecks)"
  by (simp_all only: status_check_lists list.map list.pred_inject simp_thms
      row_query_ok [OF rows_described(1) rows_ok(1)]
      row_query_ok [OF rows_described(2) rows_ok(2)]
      row_query_ok [OF rows_described(3) rows_ok(3)]
      row_query_ok [OF rows_described(4) rows_ok(4)]
      row_query_ok [OF rows_described(5) rows_ok(5)]
      row_query_ok [OF rows_described(6) rows_ok(6)]
      row_query_ok [OF rows_described(7) rows_ok(7)]
      row_query_ok [OF rows_described(8) rows_ok(8)]
      row_query_ok [OF rows_described(9) rows_ok(9)]
      row_query_ok [OF rows_described(10) rows_ok(10)]
      row_query_ok [OF rows_described(11) rows_ok(11)]
      row_query_ok [OF rows_described(12) rows_ok(12)]
      row_query_ok [OF rows_described(13) rows_ok(13)]
      row_query_ok [OF rows_described(14) rows_ok(14)]
      row_query_ok [OF rows_described(15) rows_ok(15)]
      row_query_ok [OF rows_described(16) rows_ok(16)]
      row_query_ok [OF rows_described(17) rows_ok(17)]
      row_query_ok [OF rows_described(18) rows_ok(18)]
      row_query_ok [OF rows_described(19) rows_ok(19)]
      row_query_ok [OF rows_described(20) rows_ok(20)]
      row_query_ok [OF rows_described(21) rows_ok(21)]
      row_query_ok [OF rows_described(22) rows_ok(22)]
      row_query_ok [OF rows_described(23) rows_ok(23)])

lemma check_counts:
  "length parentStatusChecks = 2" "length nsStatusChecks = 8" "length soaStatusChecks = 3"
  "length mxStatusChecks = 5" "length spfStatusChecks = 3" "length dmarcStatusChecks = 2"
  by (simp_all add: status_check_lists)

text \<open>A table panel with so many queries, all of them in order.\<close>

definition table_ok :: "nat \<Rightarrow> panel \<Rightarrow> bool" where
  "table_ok n p \<longleftrightarrow> fst p = TablePanel \<and> length (panel_exprs p) = n \<and> list_all query_ok (panel_exprs p)"

lemma at_row_Some: "at_row base off f = Some p \<Longrightarrow> \<exists>y. p = f y"
  by (auto simp: at_row_def)

lemma status_table_ok:
  "table_ok n (statusTable t g checks) \<longleftrightarrow> length checks = n \<and> list_all query_ok (map composeStatusExpr checks)"
  by (simp add: table_ok_def statusTable_reads) (simp add: statusTable_def)

lemma status_tables_ok:
  "parentStatusTable off = Some p \<Longrightarrow> table_ok 2 p" "nsStatusTable off = Some p \<Longrightarrow> table_ok 8 p"
  "soaStatusTable off = Some p \<Longrightarrow> table_ok 3 p" "mxStatusTable off = Some p \<Longrightarrow> table_ok 5 p"
  "spfStatusTable off = Some p \<Longrightarrow> table_ok 3 p" "dmarcStatusTable off = Some p \<Longrightarrow> table_ok 2 p"
  unfolding status_tables
  by (drule at_row_Some, elim exE, simp only: status_table_ok check_counts status_queries_ok simp_thms)+

lemma records_tables_ok:
  "parentNSRecordsTable off = Some p \<Longrightarrow> table_ok 1 p" "selfNSRecordsTable off = Some p \<Longrightarrow> table_ok 3 p"
  "soaSerialsTable off = Some p \<Longrightarrow> table_ok 5 p" "mxRecordsTable off = Some p \<Longrightarrow> table_ok 5 p"
  "spfRecordsTable off = Some p \<Longrightarrow> table_ok 3 p" "dmarcRecordsTable off = Some p \<Longrightarrow> table_ok 2 p"
  unfolding records_tables
  by (drule at_row_Some, elim exE, simp only: table_ok_def fst_conv records_queries_ok simp_thms,
      simp add: records_exprs selections_def del: render.simps)+

lemma operator_kinds:
  "probeCycleDurationTimeseries off = Some p \<Longrightarrow> fst p \<noteq> TablePanel" "dnsQueryRateTimeseries off = Some p \<Longrightarrow> fst p \<noteq> TablePanel"
  "soaSerialsTimeseries off = Some p \<Longrightarrow> fst p \<noteq> TablePanel" "queryDurationTimeseries off = Some p \<Longrightarrow> fst p \<noteq> TablePanel"
  unfolding operator_panels by (drule at_row_Some, elim exE, simp only: fst_conv panel_kind.distinct not_False_eq_True)+

text \<open>C30: the queries. In every one of the 42 queries of the dashboard's tables, in either variant, each word of the
  text is a selector of a metric the exporter exports, with quoted matchers on labels that metric has, or a word of the
  query language, or a label of a metric the query selects; and the text is that of a PromQL expression whose operators
  bind as they stand.\<close>

theorem dashboard_queries:
  "case overview_calls uid info zone of
     None \<Rightarrow> False
   | Some calls \<Rightarrow>
       let qs = concat (map panel_exprs (filter (\<lambda>p. fst p = TablePanel) (dash_panels calls))) in
       length qs = 42 \<and> list_all query_ok qs"
proof -
  have text_kind: "fst infoTextPanel \<noteq> TablePanel" by (simp add: infoTextPanel_def)
  show ?thesis
    using overview_panels [of info uid zone, unfolded Let_def]
  proof (elim exE conjE)
    fix p1 p2 p3 r1 r2 r3 m1 m2 m3 n1 n2 n3 o1 o2 o3 o4 calls
    assume S: "parentStatusTable (variant_offset info) = Some p1" "nsStatusTable (variant_offset info) = Some p2"
      "soaStatusTable (variant_offset info) = Some p3" "mxStatusTable (variant_offset info) = Some m1"
      "spfStatusTable (variant_offset info) = Some m2" "dmarcStatusTable (variant_offset info) = Some m3"
    assume R: "parentNSRecordsTable (variant_offset info) = Some r1" "selfNSRecordsTable (variant_offset info) = Some r2"
      "soaSerialsTable (variant_offset info) = Some r3" "mxRecordsTable (variant_offset info) = Some n1"
      "spfRecordsTable (variant_offset info) = Some n2" "dmarcRecordsTable (variant_offset info) = Some n3"
    assume O: "probeCycleDurationTimeseries (variant_offset info) = Some o1" "dnsQueryRateTimeseries (variant_offset info) = Some o2"
      "soaSerialsTimeseries (variant_offset info) = Some o3" "queryDurationTimeseries (variant_offset info) = Some o4"
    assume calls: "overview_calls uid info zone = Some calls"
      and panels: "dash_panels calls = (if info then [infoTextPanel] else []) @
        [p1, p2, p3, r1, r2, r3, m1, n1, m2, n2, m3, n3, o1, o2, o3, o4]"
    show ?thesis
      unfolding calls option.case panels Let_def
      using status_tables_ok(1) [OF S(1)] status_tables_ok(2) [OF S(2)] status_tables_ok(3) [OF S(3)]
        status_tables_ok(4) [OF S(4)] status_tables_ok(5) [OF S(5)] status_tables_ok(6) [OF S(6)]
        records_tables_ok(1) [OF R(1)] records_tables_ok(2) [OF R(2)] records_tables_ok(3) [OF R(3)]
        records_tables_ok(4) [OF R(4)] records_tables_ok(5) [OF R(5)] records_tables_ok(6) [OF R(6)]
        operator_kinds(1) [OF O(1)] operator_kinds(2) [OF O(2)] operator_kinds(3) [OF O(3)] operator_kinds(4) [OF O(4)] text_kind
      by (simp add: table_ok_def)
  qed
qed

end
