(* ===== verification/Dashboard_Verdicts.thy ===== *)
theory Dashboard_Verdicts
  imports Status_Queries Cycle
begin

text \<open>
  What the rows of the dashboard show, in terms of the series the exporter exports: the four states in their
  priority, the MX rows as functions of the runner's gauges, and the rows that do not show what they are
  documented to show.
\<close>

section \<open>The four states\<close>

text \<open>C7: the priority. A row with a not-applicable or a warning predicate reads one sample without labels, whatever
  its predicates yield: 2 when the not-applicable predicate holds, else 0 when the hard predicate does not
  hold or yields nothing, else 3 when the warning predicate holds, else 1.\<close>

theorem status_priority:
  assumes "describes (hard, na, warn) c" and "na \<noteq> None \<or> warn \<noteq> None"
    and "yields db z hard hv" and "yields_option db z na nv" and "yields_option db z warn wv"
  shows "row_reads db z c (hard, na, warn) [([], status_value (holds nv) (holds hv) (holds wv))]"
  using compose_render [OF assms(1)] compose_value [OF assms(2-5)] by (simp add: row_reads_def)

definition policy_none_db :: series_db where
  \<open>policy_none_db = [(''dnshealth_dmarc_policy'', [(''policy'', ''none''), (''zone'', ''a.z'')], 1)]\<close>

theorem status_priority_witness:
  \<open>row_reads policy_none_db ''a.z'' dmarc_row_B dmarc_row_B_ast [([], 3)]\<close>
proof -
  have d: "describes dmarc_row_B_ast dmarc_row_B" by (rule rows_described)
  have vals: \<open>yields policy_none_db ''a.z'' (AggregateBy Agg_max '', '' [''zone''] (of_zone ''dnshealth_dmarc_policy'')) [([(''zone'', ''a.z'')], 1)]\<close>
    \<open>yields_option policy_none_db ''a.z'' (Some (Absent (of_zone ''dnshealth_dmarc_policy''))) []\<close>
    \<open>yields_option policy_none_db ''a.z'' (Some (AggregateBy Agg_max '', '' [''zone'']
       (Select ''dnshealth_dmarc_policy'' [Equals ''zone'' ''$zone'', Equals ''policy'' ''none'']))) [([(''zone'', ''a.z'')], 1)]\<close>
    unfolding yields_option_def option.case yields_def by code_simp+
  show ?thesis
    using status_priority [OF d [unfolded dmarc_row_B_ast_def] _ vals]
    by (simp add: dmarc_row_B_ast_def holds_def status_value_def)
qed

section \<open>Gauges of one zone\<close>

text \<open>The gauge has one series for the zone, with these labels (the scrape may add labels of its own).\<close>

definition scraped :: "series_db \<Rightarrow> string \<Rightarrow> labels \<Rightarrow> string \<Rightarrow> int \<Rightarrow> bool" where
  \<open>scraped db z ls m v \<longleftrightarrow> select_series db z m [Equals ''zone'' ''$zone''] = [(ls, v)]\<close>

definition zone_labels :: "string \<Rightarrow> labels \<Rightarrow> bool" where
  \<open>zone_labels z ls \<longleftrightarrow> keep_labels [''zone''] ls = [(''zone'', z)]\<close>

definition no_soa :: "series_db \<Rightarrow> string \<Rightarrow> bool" where
  \<open>no_soa db z \<longleftrightarrow> select_series db z ''dnshealth_soa_serial'' [Equals ''zone'' ''$zone''] = []\<close>

lemma eval_of_zone: "scraped db z ls m v \<Longrightarrow> eval db z (of_zone m) = Some (Samples [(ls, v)])"
  by (simp add: scraped_def)

lemma eval_no_soa:
  \<open>eval db z (Absent (of_zone ''dnshealth_soa_serial'')) =
     Some (Samples (if no_soa db z then [([(''zone'', z)], 1)] else []))\<close>
  by (simp add: no_soa_def map_filter_simps interpolate_def)

text \<open>The not-applicable predicate of the rows about single targets.\<close>

lemma not_applicable_value:
  assumes "zone_labels z ls" and \<open>scraped db z ls ''dnshealth_mx_count'' c\<close> and \<open>scraped db z ls ''dnshealth_mx_null_mx'' n\<close>
  shows \<open>eval db z (Binary Op_or None
      (ClampMax (Binary Op_add (Some [''zone''])
         (Paren (Binary (Op_bool Cmp_eq) None (of_zone ''dnshealth_mx_count'') (Literal 0)))
         (Paren (Binary (Op_bool Cmp_eq) None (of_zone ''dnshealth_mx_null_mx'') (Literal 1)))) 1)
      (Absent (of_zone ''dnshealth_soa_serial''))) =
    Some (Samples [([(''zone'', z)], if c = 0 \<or> n = 1 then 1 else 0)])\<close>
proof -
  have k: \<open>keep_labels [''zone''] ls = [(''zone'', z)]\<close> using assms(1) by (simp add: zone_labels_def)
  note gauges = assms(2,3) [unfolded scraped_def]
  show ?thesis
    by (cases "no_soa db z")
      (simp_all add: gauges no_soa_def binary_value_def match_vectors_single match_key_simps k map_filter_simps interpolate_def)
qed

lemma holds_simps: "holds [] \<longleftrightarrow> False" "holds [(l, x)] \<longleftrightarrow> 1 \<le> x" "holds (if b then v else w) \<longleftrightarrow> (if b then holds v else holds w)"
  by (simp_all add: holds_def)

lemma row_verdict:
  assumes "describes r c" and "yields_option db z (fst (snd r)) nv" and "yields db z (fst r) hv"
    and "yields_option db z (snd (snd r)) wv" and "fst (snd r) \<noteq> None \<or> snd (snd r) \<noteq> None"
    and "holds nv = n" and "holds hv = h" and "holds wv = w"
  shows "row_reads db z c r [([], status_value n h w)]"
  using compose_render [OF assms(1)] compose_value [OF assms(5,3,2,4)] assms(6-8) by (simp add: row_reads_def)

lemma mx_rows:
  assumes "zone_labels z ls"
    and \<open>scraped db z ls ''dnshealth_mx_count'' c\<close> and \<open>scraped db z ls ''dnshealth_mx_resolved_count'' r\<close>
    and \<open>scraped db z ls ''dnshealth_mx_cname_count'' k\<close> and \<open>scraped db z ls ''dnshealth_mx_syntax_valid_count'' s\<close>
    and \<open>scraped db z ls ''dnshealth_mx_null_mx'' n\<close> and \<open>scraped db z ls ''dnshealth_mx_has_null_mx_rr'' h\<close>
  shows "row_reads db z mx_row_A mx_row_A_ast [([], status_value (no_soa db z) (0 < c) (c = 1 \<and> n = 0))] \<and>
    row_reads db z mx_row_B mx_row_B_ast [([], status_value (c = 0 \<or> n = 1) (c = r) False)] \<and>
    row_reads db z mx_row_C mx_row_C_ast [([], status_value (c = 0 \<or> n = 1) (k = 0) False)] \<and>
    row_reads db z mx_row_D mx_row_D_ast [([], status_value (c = 0 \<or> n = 1) (c = s) False)] \<and>
    row_reads db z mx_row_E mx_row_E_ast [([], status_value (no_soa db z) (\<not> (h = 1 \<and> 1 < c)) False)]"
proof -
  have k: \<open>keep_labels [''zone''] ls = [(''zone'', z)]\<close> using assms(1) by (simp add: zone_labels_def)
  note gauges = assms(2-7) [unfolded scraped_def]
  have na: "yields_option db z (Some (Absent (of_zone ''dnshealth_soa_serial''))) (if no_soa db z then [([(''zone'', z)], 1)] else [])"
    using eval_no_soa [of db z] by (simp add: yields_option_def yields_def)
  have target: "yields_option db z (fst (snd mx_row_B_ast)) [([(''zone'', z)], if c = 0 \<or> n = 1 then 1 else 0)]"
    unfolding mx_row_B_ast_def fst_conv snd_conv yields_option_def option.case yields_def
    using not_applicable_value [OF assms(1,2,6)] by simp
  have same: "fst (snd mx_row_C_ast) = fst (snd mx_row_B_ast)" "fst (snd mx_row_D_ast) = fst (snd mx_row_B_ast)"
    "fst (snd mx_row_A_ast) = Some (Absent (of_zone ''dnshealth_soa_serial''))" "fst (snd mx_row_E_ast) = fst (snd mx_row_A_ast)"
    by (simp_all add: mx_row_A_ast_def mx_row_B_ast_def mx_row_C_ast_def mx_row_D_ast_def mx_row_E_ast_def)
  note evaluated = yields_def yields_option_def gauges binary_value_def match_vectors_single match_key_simps keep_labels_simps(1,2) k
  have "row_reads db z mx_row_A mx_row_A_ast [([], status_value (no_soa db z) (0 < c) (c = 1 \<and> n = 0))]"
  proof (rule row_verdict [OF rows_described(14) na [folded same(3)]])
    show "yields db z (fst mx_row_A_ast) [(ls, if 0 < c then 1 else 0)]"
      "yields_option db z (snd (snd mx_row_A_ast)) [([(''zone'', z)], if c = 1 \<and> n = 0 then 1 else 0)]"
      by (simp_all add: mx_row_A_ast_def evaluated)
  qed (simp_all add: holds_simps same(3,4))
  moreover have "row_reads db z mx_row_B mx_row_B_ast [([], status_value (c = 0 \<or> n = 1) (c = r) False)]"
  proof (rule row_verdict [OF rows_described(15) target])
    show "yields db z (fst mx_row_B_ast) [(ls, if c = r then 1 else 0)]" "yields_option db z (snd (snd mx_row_B_ast)) []"
      by (simp_all add: mx_row_B_ast_def evaluated)
  qed (simp_all add: holds_simps mx_row_B_ast_def)
  moreover have "row_reads db z mx_row_C mx_row_C_ast [([], status_value (c = 0 \<or> n = 1) (k = 0) False)]"
  proof (rule row_verdict [OF rows_described(16) target [folded same(1)]])
    show "yields db z (fst mx_row_C_ast) [(ls, if k = 0 then 1 else 0)]" "yields_option db z (snd (snd mx_row_C_ast)) []"
      by (simp_all add: mx_row_C_ast_def evaluated)
  qed (simp_all add: holds_simps mx_row_C_ast_def)
  moreover have "row_reads db z mx_row_D mx_row_D_ast [([], status_value (c = 0 \<or> n = 1) (c = s) False)]"
  proof (rule row_verdict [OF rows_described(17) target [folded same(2)]])
    show "yields db z (fst mx_row_D_ast) [(ls, if c = s then 1 else 0)]" "yields_option db z (snd (snd mx_row_D_ast)) []"
      by (simp_all add: mx_row_D_ast_def evaluated)
  qed (simp_all add: holds_simps mx_row_D_ast_def)
  moreover have "row_reads db z mx_row_E mx_row_E_ast [([], status_value (no_soa db z) (\<not> (h = 1 \<and> 1 < c)) False)]"
  proof (rule row_verdict [OF rows_described(18) na [folded same(3), folded same(4)]])
    show "yields db z (fst mx_row_E_ast) [([(''zone'', z)], if h = 1 \<and> 1 < c then 0 else 1)]" "yields_option db z (snd (snd mx_row_E_ast)) []"
      by (simp_all add: mx_row_E_ast_def evaluated)
  qed (simp_all add: holds_simps same(3,4))
  ultimately show ?thesis by blast
qed


text \<open>C32: the MX rows. For a zone whose MX gauges are exported with the values c (records), r (targets that resolve),
  k (targets that are aliases), s (valid targets), n (null MX) and h (a null record is present): a zone has MX
  when c is positive, with a warning for exactly one record that is not the null MX; the three rows about
  targets do not apply when there are no records or the null MX, and otherwise compare c with r, k with 0 and
  c with s; the conflict row fails exactly for a null record beside others. The first and the last do not
  apply when the zone has no SOA data.\<close>

theorem mx_rows_meaning:
  assumes "zone_labels z ls"
    and \<open>scraped db z ls ''dnshealth_mx_count'' c\<close> and \<open>scraped db z ls ''dnshealth_mx_resolved_count'' r\<close>
    and \<open>scraped db z ls ''dnshealth_mx_cname_count'' k\<close> and \<open>scraped db z ls ''dnshealth_mx_syntax_valid_count'' s\<close>
    and \<open>scraped db z ls ''dnshealth_mx_null_mx'' n\<close> and \<open>scraped db z ls ''dnshealth_mx_has_null_mx_rr'' h\<close>
  shows "row_reads db z mx_row_A mx_row_A_ast [([], status_value (no_soa db z) (0 < c) (c = 1 \<and> n = 0))] \<and>
    row_reads db z mx_row_B mx_row_B_ast [([], status_value (c = 0 \<or> n = 1) (c = r) False)] \<and>
    row_reads db z mx_row_C mx_row_C_ast [([], status_value (c = 0 \<or> n = 1) (k = 0) False)] \<and>
    row_reads db z mx_row_D mx_row_D_ast [([], status_value (c = 0 \<or> n = 1) (c = s) False)] \<and>
    row_reads db z mx_row_E mx_row_E_ast [([], status_value (no_soa db z) (\<not> (h = 1 \<and> 1 < c)) False)]"
  by (rule mx_rows [OF assms])

definition two_mx_db :: series_db where
  \<open>two_mx_db = map (\<lambda>(m, v). (''dnshealth_'' @ m, [(''zone'', ''a.z'')], v))
     [(''mx_count'', 2), (''mx_resolved_count'', 1), (''mx_cname_count'', 0), (''mx_syntax_valid_count'', 2),
      (''mx_null_mx'', 0), (''mx_has_null_mx_rr'', 0)]\<close>

theorem mx_rows_meaning_witness:
  \<open>row_reads two_mx_db ''a.z'' mx_row_B mx_row_B_ast [([], 0)] \<and> row_reads two_mx_db ''a.z'' mx_row_D mx_row_D_ast [([], 1)]\<close>
proof -
  have "zone_labels ''a.z'' [(''zone'', ''a.z'')]" by code_simp
  moreover have \<open>scraped two_mx_db ''a.z'' [(''zone'', ''a.z'')] ''dnshealth_mx_count'' 2\<close>
    \<open>scraped two_mx_db ''a.z'' [(''zone'', ''a.z'')] ''dnshealth_mx_resolved_count'' 1\<close>
    \<open>scraped two_mx_db ''a.z'' [(''zone'', ''a.z'')] ''dnshealth_mx_cname_count'' 0\<close>
    \<open>scraped two_mx_db ''a.z'' [(''zone'', ''a.z'')] ''dnshealth_mx_syntax_valid_count'' 2\<close>
    \<open>scraped two_mx_db ''a.z'' [(''zone'', ''a.z'')] ''dnshealth_mx_null_mx'' 0\<close>
    \<open>scraped two_mx_db ''a.z'' [(''zone'', ''a.z'')] ''dnshealth_mx_has_null_mx_rr'' 0\<close>
    by code_simp+
  ultimately show ?thesis
    using mx_rows_meaning [of "''a.z''" "[(''zone'', ''a.z'')]" two_mx_db 2 1 0 2 0 0] by (simp add: status_value_def)
qed

section \<open>Two records with one target\<close>

lemma mx_rr [simp]:
  "rr_of (mx_info z t p) = Some \<lparr>mr_zone = z, mr_target = t, mr_priority = int (unat p)\<rparr>"
  "rr_of (mx_query_result z ip) = None" "rr_of (mx_failure z ip err) = None"
  by (simp_all add: rr_of_def mx_info_def mx_query_result_def mx_failure_def zeroResult_def target_label_def parse_priority_label)

lemma info_iff_rr:
  assumes "mx_results e z mxs h h' rs" and "r \<in> set rs"
  shows "is_info r \<longleftrightarrow> rr_of r \<noteq> None" and "is_info r \<Longrightarrow> map_of (Metrics r) ''mx_resolves'' = None \<and> map_of (Metrics r) ''mx_syntax_valid'' = None"
proof -
  have info: "rr_of r \<noteq> None \<and> map_of (Metrics r) ''mx_resolves'' = None \<and> map_of (Metrics r) ''mx_syntax_valid'' = None" if "is_info r"
  proof -
    have "r \<in> set (filter is_info rs)" using assms(2) that by simp
    moreover have "filter is_info rs = map (\<lambda>(p, mx). mx_info z (canonName e mx) p) mxs"
      using assms(1) by (simp add: mx_results_def)
    ultimately have "r \<in> set (map (\<lambda>(p, mx). mx_info z (canonName e mx) p) mxs)" by (simp only:)
    then obtain t p where "r = mx_info z t p" by auto
    then show ?thesis by (simp, simp add: mx_info_def zeroResult_def)
  qed
  have "rr_of r = None" if "\<not> is_info r"
    using that by (auto simp: rr_of_def is_info_def)
  then show "is_info r \<longleftrightarrow> rr_of r \<noteq> None" using info by metis
  show "is_info r \<Longrightarrow> map_of (Metrics r) ''mx_resolves'' = None \<and> map_of (Metrics r) ''mx_syntax_valid'' = None" using info by blast
qed

lemma zone_mx_results:
  assumes "mx_results e z mxs h h' rs"
  shows "zone_mx (mx_query_result z ip # rs) z = map (\<lambda>(p, mx). (canonName e mx, int (unat p))) mxs"
proof -
  have "List.map_filter rr_of rs = List.map_filter rr_of (filter is_info rs)"
    using info_iff_rr(1) [OF assms] by (induction rs) (auto simp: map_filter_simps)
  also have "filter is_info rs = map (\<lambda>(p, mx). mx_info z (canonName e mx) p) mxs" using assms by (simp add: mx_results_def)
  also have "List.map_filter rr_of (map (\<lambda>(p, mx). mx_info z (canonName e mx) p) mxs) =
      map (\<lambda>(p, mx). \<lparr>mr_zone = z, mr_target = canonName e mx, mr_priority = int (unat p)\<rparr>) mxs"
    by (induction mxs) (auto simp: map_filter_simps)
  finally show ?thesis by (simp add: zone_mx_def map_filter_simps filter_map comp_def case_prod_unfold)
qed

lemma checks_at_most_targets:
  assumes "mx_results e z mxs h h' rs" and "check \<in> {''mx_resolves'', ''mx_syntax_valid''}"
  shows "mx_check_count (mx_query_result z ip # rs) check z \<le> card ((\<lambda>m. canonName e (snd m)) ` set mxs)"
proof -
  obtain targets where T: "distinct targets" "set targets = (\<lambda>m. canonName e (snd m)) ` set mxs"
      "list_all2 (mx_valid_result e z h h') targets (filter (\<lambda>r. \<not> is_info r) rs)"
    using assms(1) by (auto simp: mx_results_def)
  let ?P = "\<lambda>r. Check r = ''mx'' \<and> Zone r = z \<and> map_of (Metrics r) check = Some 1"
  have "\<forall>r\<in>set rs. ?P r \<longrightarrow> \<not> is_info r" using info_iff_rr(2) [OF assms(1)] assms(2) by auto
  then have "length (filter ?P rs) \<le> length (filter (\<lambda>r. \<not> is_info r) rs)"
    by (induction rs) (auto intro: le_SucI)
  also have "\<dots> = length targets" using T(3) by (simp add: list_all2_lengthD)
  also have "\<dots> = card (set targets)" using T(1) by (simp add: distinct_card)
  finally show ?thesis by (simp add: mx_check_count_def mx_query_result_def zeroResult_def T(2))
qed

text \<open>The counts of an MX probe two of whose records name one target: fewer resolving and valid targets than records.\<close>

lemma shared_target_counts:
  assumes "ProbeMX e z nss dlg h = Some (Inr rs, h')" and "\<not> distinct (map fst (zone_mx rs z))"
    and "check \<in> {''mx_resolves'', ''mx_syntax_valid''}"
  shows "mx_check_count rs check z < length (zone_mx rs z)"
proof (cases "nss = []")
  case True
  with ProbeMX_results [OF assms(1)] assms(2) show ?thesis by (simp add: zone_mx_def map_filter_simps)
next
  case False
  obtain ip x h1 where f: "mx_failover e z nss [] (Inr []) h = (ip, x, h1)" by (metis prod_cases3)
  note R = ProbeMX_results [OF assms(1), THEN conjunct2]
  show ?thesis
  proof (cases x)
    case (Inl err)
    with R False f have "rs = [mx_failure z ip err]" by simp
    with assms(2) show ?thesis by (simp add: zone_mx_def map_filter_simps)
  next
    case (Inr mxs)
    with R False f obtain rs' where rs: "rs = mx_query_result z ip # rs'" and m: "mx_results e z mxs h1 h' rs'" by auto
    let ?t = "map (\<lambda>m. canonName e (snd m)) mxs"
    have "map fst (zone_mx rs z) = ?t" by (simp add: rs zone_mx_results [OF m] case_prod_unfold)
    then have "card (set ?t) < length ?t" using assms(2) card_length [of ?t] card_distinct [of ?t]
      by (metis le_neq_implies_less)
    with checks_at_most_targets [OF m assms(3), of ip] show ?thesis by (simp add: rs zone_mx_results [OF m])
  qed
qed

text \<open>Two MX records with one target. When two records of a zone name the same target, at whatever priorities,
  the rows that all targets resolve and that all are valid read FAIL, even if every target resolves and is
  valid: they compare the number of records with a number of distinct targets.\<close>

lemma mx_shared_target_fails:
  assumes "ProbeMX e z nss dlg h = Some (Inr rs, h')" and "\<not> distinct (map fst (zone_mx rs z))"
    and "zone_labels z ls"
    and \<open>scraped db z ls ''dnshealth_mx_count'' (int (length (zone_mx rs z)))\<close>
    and \<open>scraped db z ls ''dnshealth_mx_resolved_count'' (int (mx_check_count rs ''mx_resolves'' z))\<close>
    and \<open>scraped db z ls ''dnshealth_mx_cname_count'' (int (mx_check_count rs ''mx_is_cname'' z))\<close>
    and \<open>scraped db z ls ''dnshealth_mx_syntax_valid_count'' (int (mx_check_count rs ''mx_syntax_valid'' z))\<close>
    and \<open>scraped db z ls ''dnshealth_mx_null_mx'' (if zone_mx rs z = [(''.'', 0)] then 1 else 0)\<close>
    and \<open>scraped db z ls ''dnshealth_mx_has_null_mx_rr'' (if (''.'', 0) \<in> set (zone_mx rs z) then 1 else 0)\<close>
  shows "row_reads db z mx_row_B mx_row_B_ast [([], 0)] \<and> row_reads db z mx_row_D mx_row_D_ast [([], 0)]"
proof -
  have "zone_mx rs z \<noteq> []" "zone_mx rs z \<noteq> [(''.'', 0)]" using assms(2) by auto
  moreover note shared_target_counts [OF assms(1,2), of "''mx_resolves''"] shared_target_counts [OF assms(1,2), of "''mx_syntax_valid''"]
  ultimately show ?thesis
    using mx_rows [OF assms(3-9)] by (simp add: status_value_def)
qed


text \<open>A zone with the records \<^verbatim>\<open>10 mail.\<close> and \<^verbatim>\<open>20 mail.\<close>, whose target has an address.\<close>

definition shared_net :: "dns_msg \<Rightarrow> string \<Rightarrow> goerror + response" where
  \<open>shared_net msg addr =
     (if msg_type msg = TypeMX then Inr (rsp True [RR_MX ''a.z.'' 10 ''mail.'', RR_MX ''a.z.'' 20 ''mail.''] [] [])
      else if msg_type msg = TypeA then Inr (rsp True [RR_A ''mail.'' [7, 0, 0, 1]] [] [])
      else Inr (rsp True [] [] []))\<close>

definition shared_delegation :: DelegationResult where
  \<open>shared_delegation = \<lparr>ParentServer = ''r'', NSRecords = [\<lparr>Hostname = ''n.z.'', NS_IP = ''7.0.0.1''\<rparr>], Glue = []\<rparr>\<close>

definition shared_db :: series_db where
  \<open>shared_db = map (\<lambda>(m, v). (''dnshealth_'' @ m, [(''zone'', ''a.z'')], v))
     [(''mx_count'', 2), (''mx_resolved_count'', 1), (''mx_cname_count'', 0), (''mx_syntax_valid_count'', 1),
      (''mx_null_mx'', 0), (''mx_has_null_mx_rr'', 0)]\<close>

lemma shared_run:
  \<open>case ProbeMX (static_env shared_net) ''a.z'' (NSRecords shared_delegation) shared_delegation [] of
     Some (Inr rs, h') \<Rightarrow> zone_mx rs ''a.z'' = [(''mail.'', 10), (''mail.'', 20)] \<and> mx_check_count rs ''mx_resolves'' ''a.z'' = 1 \<and>
       mx_check_count rs ''mx_is_cname'' ''a.z'' = 0 \<and> mx_check_count rs ''mx_syntax_valid'' ''a.z'' = 1
   | _ \<Rightarrow> False\<close>
  by code_simp

lemma mx_shared_target_fails_example:
  \<open>\<exists>rs h'. ProbeMX (static_env shared_net) ''a.z'' (NSRecords shared_delegation) shared_delegation [] = Some (Inr rs, h') \<and>
     mx_check_count rs ''mx_resolves'' ''a.z'' = card (set (map fst (zone_mx rs ''a.z''))) \<and>
     row_reads shared_db ''a.z'' mx_row_B mx_row_B_ast [([], 0)]\<close>
proof -
  obtain rs h' where run: \<open>ProbeMX (static_env shared_net) ''a.z'' (NSRecords shared_delegation) shared_delegation [] = Some (Inr rs, h')\<close>
    and mx: \<open>zone_mx rs ''a.z'' = [(''mail.'', 10), (''mail.'', 20)]\<close>
    and counts: \<open>mx_check_count rs ''mx_resolves'' ''a.z'' = 1\<close> \<open>mx_check_count rs ''mx_is_cname'' ''a.z'' = 0\<close>
      \<open>mx_check_count rs ''mx_syntax_valid'' ''a.z'' = 1\<close>
    using shared_run by (auto split: option.splits sum.splits)
  have db: "zone_labels ''a.z'' [(''zone'', ''a.z'')]" \<open>scraped shared_db ''a.z'' [(''zone'', ''a.z'')] ''dnshealth_mx_count'' 2\<close>
    \<open>scraped shared_db ''a.z'' [(''zone'', ''a.z'')] ''dnshealth_mx_resolved_count'' 1\<close>
    \<open>scraped shared_db ''a.z'' [(''zone'', ''a.z'')] ''dnshealth_mx_cname_count'' 0\<close>
    \<open>scraped shared_db ''a.z'' [(''zone'', ''a.z'')] ''dnshealth_mx_syntax_valid_count'' 1\<close>
    \<open>scraped shared_db ''a.z'' [(''zone'', ''a.z'')] ''dnshealth_mx_null_mx'' 0\<close>
    \<open>scraped shared_db ''a.z'' [(''zone'', ''a.z'')] ''dnshealth_mx_has_null_mx_rr'' 0\<close>
    by code_simp+
  have "row_reads shared_db ''a.z'' mx_row_B mx_row_B_ast [([], 0)]"
    using mx_shared_target_fails [OF run, of "[(''zone'', ''a.z'')]" shared_db] by (simp add: mx counts db)
  then show ?thesis using run mx counts by auto
qed

section \<open>The stealth row\<close>

text \<open>The row for stealth nameservers reads PASS as soon as no nameserver is self-only, whatever the number of
  parent-only nameservers is: the two comparisons are joined with \<^verbatim>\<open>and\<close>, which keeps the left
  sample whenever the right one exists, and both counts exist for every configured zone.\<close>

lemma stealth_row_ignores_parent_only:
  assumes \<open>select_series db z ''dnshealth_ns_classification_count'' [Equals ''classification'' ''self-only'', Equals ''zone'' ''$zone''] = [(ls, s)]\<close>
    and \<open>select_series db z ''dnshealth_ns_classification_count'' [Equals ''classification'' ''parent-only'', Equals ''zone'' ''$zone''] = [(ls', p)]\<close>
    and "zone_labels z ls" and "zone_labels z ls'"
  shows \<open>row_reads db z ns_row_G ns_row_G_ast [([(''zone'', z)], if s = 0 then 1 else 0)]\<close>
proof -
  have k: \<open>keep_labels [''zone''] ls = [(''zone'', z)]\<close> \<open>keep_labels [''zone''] ls' = [(''zone'', z)]\<close>
    using assms(3,4) by (simp_all add: zone_labels_def)
  have "eval db z (compose_ast ns_row_G_ast) = Some (Samples [([(''zone'', z)], if s = 0 then 1 else 0)])"
    by (simp add: compose_ast_def ns_row_G_ast_def assms(1,2) aggregate_single k binary_value_def match_key_simps keep_labels_simps)
  with compose_render [OF rows_described(9)] show ?thesis by (simp add: row_reads_def)
qed

definition parent_only_db :: series_db where
  \<open>parent_only_db = [(''dnshealth_ns_classification_count'', [(''classification'', ''self-only''), (''zone'', ''a.z'')], 0),
     (''dnshealth_ns_classification_count'', [(''classification'', ''parent-only''), (''zone'', ''a.z'')], 3)]\<close>

lemma stealth_row_ignores_parent_only_example:
  \<open>row_reads parent_only_db ''a.z'' ns_row_G ns_row_G_ast [([(''zone'', ''a.z'')], 1)]\<close>
proof -
  have \<open>select_series parent_only_db ''a.z'' ''dnshealth_ns_classification_count'' [Equals ''classification'' ''self-only'', Equals ''zone'' ''$zone''] =
      [([(''classification'', ''self-only''), (''zone'', ''a.z'')], 0)]\<close>
    \<open>select_series parent_only_db ''a.z'' ''dnshealth_ns_classification_count'' [Equals ''classification'' ''parent-only'', Equals ''zone'' ''$zone''] =
      [([(''classification'', ''parent-only''), (''zone'', ''a.z'')], 3)]\<close>
    \<open>zone_labels ''a.z'' [(''classification'', ''self-only''), (''zone'', ''a.z'')]\<close>
    \<open>zone_labels ''a.z'' [(''classification'', ''parent-only''), (''zone'', ''a.z'')]\<close>
    by code_simp+
  from stealth_row_ignores_parent_only [OF this] show ?thesis by simp
qed

section \<open>The serial row\<close>

text \<open>The samples of one zone aggregated by zone.\<close>

lemma aggregate_zone:
  assumes "vec \<noteq> []" and "list_all (\<lambda>s. zone_labels z (fst s)) vec"
  shows \<open>aggregate a [''zone''] vec = [([(''zone'', z)], agg_value a (map snd vec))]\<close>
proof -
  have keys: \<open>map (\<lambda>s. keep_labels [''zone''] (fst s)) vec = map (\<lambda>s. [(''zone'', z)]) vec\<close>
    using assms(2) by (auto simp: list_all_iff zone_labels_def)
  have \<open>filter (\<lambda>s. keep_labels [''zone''] (fst s) = [(''zone'', z)]) vec = vec\<close>
    using assms(2) by (simp add: list_all_iff zone_labels_def)
  then show ?thesis unfolding aggregate_def keys remdups_constant [OF assms(1)] by simp
qed

lemma spread_zero:
  assumes "finite S" and "S \<noteq> {}"
  shows "Max S - Min S = (0 :: int) \<longleftrightarrow> (\<forall>x\<in>S. \<forall>y\<in>S. x = y)"
proof
  assume "Max S - Min S = 0"
  then have "x = Min S" if "x \<in> S" for x
    using Max_ge [OF assms(1) that] Min_le [OF assms(1) that] by linarith
  then show "\<forall>x\<in>S. \<forall>y\<in>S. x = y" by metis
next
  assume "\<forall>x\<in>S. \<forall>y\<in>S. x = y"
  then have "Max S = Min S" using Max_in [OF assms] Min_in [OF assms] by blast
  then show "Max S - Min S = 0" by simp
qed

text \<open>The serial row: it does not apply without SOA data, and otherwise passes exactly when all serials are equal.\<close>

lemma serial_row:
  assumes \<open>select_series db z ''dnshealth_soa_serial'' [Equals ''zone'' ''$zone''] = vec\<close>
    and "list_all (\<lambda>s. zone_labels z (fst s)) vec"
  shows "row_reads db z soa_row_A soa_row_A_ast
    [([], status_value (vec = []) (\<forall>s\<in>set vec. \<forall>t\<in>set vec. snd s = snd t) False)]"
proof (cases "vec = []")
  case True
  have "row_reads db z soa_row_A soa_row_A_ast [([], status_value True False False)]"
  proof (rule row_verdict [OF rows_described(11)])
    show "yields_option db z (fst (snd soa_row_A_ast)) [([(''zone'', z)], 1)]" "yields db z (fst soa_row_A_ast) [([], 0)]"
      "yields_option db z (snd (snd soa_row_A_ast)) []"
      using assms(1) True by (simp_all add: soa_row_A_ast_def yields_def yields_option_def map_filter_simps interpolate_def
        aggregate_Nil binary_value_def match_vectors_Nil)
  qed (simp_all add: soa_row_A_ast_def holds_simps)
  with True show ?thesis by (simp add: status_value_def)
next
  case False
  let ?vs = "map snd vec"
  have vs: "?vs \<noteq> []" using False by simp
  have equal: "agg_value Agg_max ?vs - agg_value Agg_min ?vs = 0 \<longleftrightarrow> (\<forall>s\<in>set vec. \<forall>t\<in>set vec. snd s = snd t)"
    unfolding agg_max [OF vs] agg_min [OF vs] using spread_zero [of "set ?vs"] vs by simp
  have "row_reads db z soa_row_A soa_row_A_ast
      [([], status_value False (agg_value Agg_max ?vs - agg_value Agg_min ?vs = 0) False)]"
  proof (rule row_verdict [OF rows_described(11)])
    show "yields db z (fst soa_row_A_ast)
        [([(''zone'', z)], if agg_value Agg_max ?vs - agg_value Agg_min ?vs = 0 then 1 else 0)]"
      "yields_option db z (fst (snd soa_row_A_ast)) []" "yields_option db z (snd (snd soa_row_A_ast)) []"
      using False by (simp_all del: agg_value.simps add: soa_row_A_ast_def yields_def yields_option_def assms(1) binary_value_def
        aggregate_zone [OF False assms(2)] match_vectors_single match_key_simps keep_labels_simps)
  qed (simp_all add: soa_row_A_ast_def holds_simps del: agg_value.simps)
  with False show ?thesis unfolding equal by simp
qed

end
