(* ===== verification/Fixture.thy ===== *)
theory Fixture
  imports Zone_Probe
begin

text \<open>
  The test servers of \<^verbatim>\<open>testutil/records.go\<close> and \<^verbatim>\<open>testutil/fixture.go\<close>: authoritative and
  referring DNS servers over a list of records, run in the test process, and the probe of a zone against
  them. They are the network the integration tests of the probers rest on.

  A server answers one request at a time as far as its state goes (an atomic counter of requests), so its
  replies are a function of the number of requests so far. The UDP transport is the DNS library's: a dropped
  request is a timeout for the client, \<open>tp_deliver\<close> is what packing and unpacking does to a message, and the
  readiness requests made before the test are a number per server (a server that never gets ready ends the
  test).
\<close>

section \<open>Records\<close>

definition serialCounter_init :: "32 word" where "serialCounter_init = 1000000"

definition nextSerial :: "32 word \<Rightarrow> 32 word \<times> 32 word" where
  "nextSerial counter = (counter + 1, counter + 1)"

type_synonym SOAOption = "soa_rdata \<Rightarrow> soa_rdata"

definition Serial :: "32 word \<Rightarrow> SOAOption" where "Serial n soa = soa\<lparr>soa_Serial := n\<rparr>"

definition Refresh_opt :: "32 word \<Rightarrow> SOAOption" where "Refresh_opt n soa = soa\<lparr>soa_Refresh := n\<rparr>"

definition Retry_opt :: "32 word \<Rightarrow> SOAOption" where "Retry_opt n soa = soa\<lparr>soa_Retry := n\<rparr>"

definition Expire_opt :: "32 word \<Rightarrow> SOAOption" where "Expire_opt n soa = soa\<lparr>soa_Expire := n\<rparr>"

definition Minttl_opt :: "32 word \<Rightarrow> SOAOption" where "Minttl_opt n soa = soa\<lparr>soa_Minttl := n\<rparr>"

definition Mname :: "(string \<Rightarrow> string) \<Rightarrow> string \<Rightarrow> SOAOption" where
  "Mname Fqdn name soa = soa\<lparr>soa_Ns := Fqdn name\<rparr>"

text \<open>The mailbox, the class and the time to live of a record are not read by the program.\<close>

definition SOA_rr :: "(string \<Rightarrow> string) \<Rightarrow> string \<Rightarrow> SOAOption list \<Rightarrow> 32 word \<Rightarrow> rr \<times> 32 word" where
  \<open>SOA_rr Fqdn zone opts counter =
     (let zone = Fqdn zone; (serial, counter') = nextSerial counter;
          soa = \<lparr>soa_Ns = ''ns1.'' @ zone, soa_Serial = serial, soa_Refresh = 3600, soa_Retry = 300,
                 soa_Expire = 2419200, soa_Minttl = 300\<rparr>
      in (RR_SOA zone (fold (\<lambda>opt soa. opt soa) opts soa), counter'))\<close>

definition NS_rr :: "(string \<Rightarrow> string) \<Rightarrow> string \<Rightarrow> string \<Rightarrow> rr" where
  "NS_rr Fqdn zone nameserver = RR_NS (Fqdn zone) (Fqdn nameserver)"

text \<open>The result of \<open>net.ParseIP\<close>, \<^verbatim>\<open>nil\<close> (no bytes) for text that is not an address.\<close>

definition parsed_ip :: "string \<Rightarrow> ip_bytes" where
  "parsed_ip ip = (case ParseIP ip of Some b \<Rightarrow> b | None \<Rightarrow> [])"

definition A_rr :: "(string \<Rightarrow> string) \<Rightarrow> string \<Rightarrow> string \<Rightarrow> rr" where
  "A_rr Fqdn name ip = RR_A (Fqdn name) (parsed_ip ip)"

definition AAAA_rr :: "(string \<Rightarrow> string) \<Rightarrow> string \<Rightarrow> string \<Rightarrow> rr" where
  "AAAA_rr Fqdn name ipv6 = RR_AAAA (Fqdn name) (parsed_ip ipv6)"

definition CNAME_rr :: "(string \<Rightarrow> string) \<Rightarrow> string \<Rightarrow> string \<Rightarrow> rr" where
  "CNAME_rr Fqdn name target = RR_CNAME (Fqdn name) (Fqdn target)"

definition TXT_rr :: "(string \<Rightarrow> string) \<Rightarrow> string \<Rightarrow> string list \<Rightarrow> rr" where
  "TXT_rr Fqdn name strings = RR_TXT (Fqdn name) strings"

definition MX_rr :: "(string \<Rightarrow> string) \<Rightarrow> string \<Rightarrow> 16 word \<Rightarrow> string \<Rightarrow> rr" where
  "MX_rr Fqdn zone preference exchange = RR_MX (Fqdn zone) preference (Fqdn exchange)"

text \<open>The type of a record; other records are of a type the program never asks for.\<close>

fun Rrtype :: "rr \<Rightarrow> qtype option" where
  "Rrtype (RR_A _ _) = Some TypeA"
| "Rrtype (RR_AAAA _ _) = Some TypeAAAA"
| "Rrtype (RR_NS _ _) = Some TypeNS"
| "Rrtype (RR_CNAME _ _) = Some TypeCNAME"
| "Rrtype (RR_SOA _ _) = Some TypeSOA"
| "Rrtype (RR_MX _ _ _) = Some TypeMX"
| "Rrtype (RR_TXT _ _) = Some TypeTXT"
| "Rrtype (RR_Other _) = None"

section \<open>Servers\<close>

text \<open>The code 0 is \<open>RcodeSuccess\<close>, which means no override.\<close>

record ServerOptions =
  so_RecursionAvailable :: bool
  so_Rcode :: rcode
  so_Drop :: bool
  so_Garbage :: bool
  so_DropFirstN :: int

definition no_options :: ServerOptions where
  "no_options = \<lparr>so_RecursionAvailable = False, so_Rcode = RcodeSuccess, so_Drop = False, so_Garbage = False, so_DropFirstN = 0\<rparr>"

record testServer =
  ts_addr :: string
  ts_records :: "rr list"
  ts_referral :: bool
  ts_options :: ServerOptions

definition Server :: "string \<Rightarrow> rr list \<Rightarrow> testServer list \<Rightarrow> testServer list" where
  "Server addr records servers =
     servers @ [\<lparr>ts_addr = addr, ts_records = records, ts_referral = False, ts_options = no_options\<rparr>]"

definition ServerWithOptions :: "string \<Rightarrow> ServerOptions \<Rightarrow> rr list \<Rightarrow> testServer list \<Rightarrow> testServer list" where
  "ServerWithOptions addr opts records servers =
     servers @ [\<lparr>ts_addr = addr, ts_records = records, ts_referral = False, ts_options = opts\<rparr>]"

definition ReferralServer :: "string \<Rightarrow> rr list \<Rightarrow> testServer list \<Rightarrow> testServer list" where
  "ReferralServer addr records servers =
     servers @ [\<lparr>ts_addr = addr, ts_records = records, ts_referral = True, ts_options = no_options\<rparr>]"

section \<open>Referrals\<close>

text \<open>The A and AAAA records of a name, in the order of the records.\<close>

definition glue_records :: "rr list \<Rightarrow> string \<Rightarrow> rr list" where
  "glue_records records nsName = filter (\<lambda>rr. case rr of
       RR_A name _ \<Rightarrow> name = nsName | RR_AAAA name _ \<Rightarrow> name = nsName | _ \<Rightarrow> False) records"

definition glue_of :: "rr list \<Rightarrow> rr list \<Rightarrow> rr list" where
  "glue_of records nsRecords = concat (map (glue_records records) (ns_targets nsRecords))"

definition ns_at :: "rr list \<Rightarrow> string \<Rightarrow> rr list" where
  "ns_at records name = filter (\<lambda>rr. case rr of RR_NS n _ \<Rightarrow> n = name | _ \<Rightarrow> False) records"

text \<open>One turn of the loop strips the first label; \<open>None\<close> is the end of the loop.\<close>

definition strip_label :: "string \<Rightarrow> string option" where
  "strip_label name = (case dropWhile (\<lambda>c. c \<noteq> CHR ''.'') name of
     [] \<Rightarrow> None
   | _ # rest \<Rightarrow> if rest = [] then None else Some rest)"

lemma strip_label_shorter: "strip_label name = Some rest \<Longrightarrow> length rest < length name"
  using length_dropWhile_le [of "\<lambda>c. c \<noteq> CHR ''.''" name]
  by (auto simp: strip_label_def split: list.splits if_splits)

function findReferral :: "rr list \<Rightarrow> string \<Rightarrow> rr list \<times> rr list" where
  "findReferral records qname =
     (case strip_label qname of
        None \<Rightarrow> ([], [])
      | Some name \<Rightarrow>
          (let ns = ns_at records name in
           if ns \<noteq> [] then (ns, glue_of records ns) else findReferral records name))"
  by pat_completeness auto

termination by (relation "measure (length \<circ> snd)") (auto dest: strip_label_shorter)

declare findReferral.simps [simp del]

section \<open>The handler\<close>

datatype question_type = QType qtype | TypeANY

text \<open>What the handler sends: nothing, eight bytes that are no message, or a message.\<close>

datatype reply = NoReply | GarbageBytes | Message response

definition SetReply :: response where
  "SetReply = \<lparr>rsp_Authoritative = False, rsp_RecursionAvailable = False, rsp_Rcode = RcodeSuccess,
     rsp_Answer = [], rsp_Ns = [], rsp_Extra = []\<rparr>"

definition matches :: "string \<Rightarrow> question_type \<Rightarrow> rr \<Rightarrow> bool" where
  "matches qname qt rr \<longleftrightarrow> rr_name rr = qname \<and>
     (qt = TypeANY \<or> (case Rrtype rr of Some t \<Rightarrow> qt = QType t | None \<Rightarrow> False))"

text \<open>The request is the one with number \<open>queryCount\<close>, from 1.\<close>

definition handler :: "testServer \<Rightarrow> int \<Rightarrow> (string \<times> question_type) list \<Rightarrow> reply" where
  "handler srv queryCount questions =
     (let opts = ts_options srv in
      if so_Drop opts then NoReply
      else if so_DropFirstN opts > 0 \<and> queryCount \<le> so_DropFirstN opts then NoReply
      else if so_Garbage opts then GarbageBytes
      else if so_Rcode opts \<noteq> RcodeSuccess then Message (SetReply\<lparr>rsp_Rcode := so_Rcode opts\<rparr>)
      else (case questions of
        [] \<Rightarrow> Message SetReply
      | (qname, qt) # _ \<Rightarrow>
          (let matched = filter (matches qname qt) (ts_records srv) in
           if ts_referral srv \<and> matched \<noteq> [] \<and> qt = QType TypeNS
           then Message (SetReply\<lparr>rsp_Ns := matched, rsp_Extra := glue_of (ts_records srv) matched\<rparr>)
           else if ts_referral srv \<and> matched = []
           then (let (referralNS, referralExtra) = findReferral (ts_records srv) qname in
                 if referralNS \<noteq> [] then Message (SetReply\<lparr>rsp_Ns := referralNS, rsp_Extra := referralExtra\<rparr>)
                 else Message SetReply)
           else Message (SetReply\<lparr>rsp_Authoritative := True, rsp_RecursionAvailable := so_RecursionAvailable opts,
                  rsp_Answer := matched,
                  rsp_Extra := (if qt = QType TypeNS then glue_of (ts_records srv) matched else [])\<rparr>))))"

section \<open>The network of a fixture\<close>

text \<open>How often an address has been asked.\<close>

fun asked :: "string \<Rightarrow> history \<Rightarrow> nat" where
  "asked addr [] = 0"
| "asked addr (EvExchange t msg a # h) = (if a = addr then 1 else 0) + asked addr h"
| "asked addr (_ # h) = asked addr h"

text \<open>What packing, sending and unpacking a message gives, the error when it cannot be read.\<close>

record transport =
  tp_deliver :: "response \<Rightarrow> goerror + response"
  tp_unreachable :: goerror
  tp_unpack_error :: goerror
  tp_ready :: "string \<Rightarrow> nat"

text \<open>The readiness requests are skipped for servers that drop requests or send garbage.\<close>

definition ready_requests :: "transport \<Rightarrow> testServer \<Rightarrow> nat" where
  "ready_requests tp srv =
     (let opts = ts_options srv in
      if so_Drop opts \<or> so_Garbage opts \<or> so_DropFirstN opts > 0 then 0 else tp_ready tp (ts_addr srv))"

definition QueryCount :: "transport \<Rightarrow> testServer list \<Rightarrow> history \<Rightarrow> string \<Rightarrow> int" where
  "QueryCount tp servers h addr = (case find (\<lambda>srv. ts_addr srv = addr) servers of
     None \<Rightarrow> 0
   | Some srv \<Rightarrow> int (ready_requests tp srv + asked addr h))"

definition fixture_exchange :: "transport \<Rightarrow> testServer list \<Rightarrow> history \<Rightarrow> dns_msg \<Rightarrow> string \<Rightarrow> goerror + response" where
  "fixture_exchange tp servers h msg addr =
     (case find (\<lambda>srv. ts_addr srv = addr) servers of
        None \<Rightarrow> Inl (tp_unreachable tp)
      | Some srv \<Rightarrow>
          (case handler srv (QueryCount tp servers h addr + 1) [(msg_name msg, QType (msg_type msg))] of
             NoReply \<Rightarrow> Inl (NetError True)
           | GarbageBytes \<Rightarrow> Inl (tp_unpack_error tp)
           | Message r \<Rightarrow> tp_deliver tp r))"

text \<open>An environment whose network is the fixture's; the rest is arbitrary.\<close>

definition runs_fixture :: "transport \<Rightarrow> testServer list \<Rightarrow> penv \<Rightarrow> bool" where
  "runs_fixture tp servers e \<longleftrightarrow>
     (\<forall>h t msg addr. net_exchange e h t msg addr = fixture_exchange tp servers h msg addr)"

section \<open>Probing a zone against the fixture\<close>

fun seed_loop :: "nameserver list \<Rightarrow> nameserver list \<Rightarrow> string list \<Rightarrow> nameserver list \<times> string list" where
  "seed_loop [] nameservers seen = (nameservers, seen)"
| "seed_loop (ns # nss) nameservers seen =
     (if NS_IP ns = [] then seed_loop nss nameservers seen
      else (let key = Hostname ns @ '':'' @ NS_IP ns in
        if key \<in> set seen then seed_loop nss nameservers seen
        else seed_loop nss (nameservers @ [ns]) (key # seen)))"

fun fixture_families :: "nameserver list \<Rightarrow> (string \<times> bool \<times> bool) list \<Rightarrow> (string \<times> bool \<times> bool) list" where
  "fixture_families [] m = m"
| "fixture_families (ns # nss) m =
     (let (v4, v6) = (case map_of m (Hostname ns) of Some f \<Rightarrow> f | None \<Rightarrow> (False, False));
          fam = (if NS_IP ns \<noteq> [] then
             (case ParseIP (NS_IP ns) of
                Some parsed \<Rightarrow> if To4 parsed = None then (v4, True) else (True, v6)
              | None \<Rightarrow> (True, v6)) else (v4, v6)) in
      fixture_families nss (AList.update (Hostname ns) fam m))"

fun address_loop :: "string \<Rightarrow> string list \<Rightarrow> nameserver list \<Rightarrow> string list \<Rightarrow> nameserver list \<times> string list" where
  "address_loop host [] nameservers seen = (nameservers, seen)"
| "address_loop host (ip # ips) nameservers seen =
     (let key = host @ '':'' @ ip in
      if key \<in> set seen then address_loop host ips nameservers seen
      else address_loop host ips (nameservers @ [\<lparr>Hostname = host, NS_IP = ip\<rparr>]) (key # seen))"

fun resolve_families ::
  "penv \<Rightarrow> (string \<times> bool \<times> bool) list \<Rightarrow> nameserver list \<Rightarrow> string list \<Rightarrow> history \<Rightarrow> (nameserver list \<times> history) option" where
  "resolve_families e [] nameservers seen h = Some (nameservers, h)"
| "resolve_families e ((host, v4, v6) # fams) nameservers seen h =
     (if v4 \<and> v6 then resolve_families e fams nameservers seen h
      else (case ResolveHostnames e host h of
        None \<Rightarrow> None
      | Some (Inl err, h1) \<Rightarrow> resolve_families e fams nameservers seen h1
      | Some (Inr ips, h1) \<Rightarrow>
          (let (nameservers', seen') = address_loop host ips nameservers seen in
           resolve_families e fams nameservers' seen' h1)))"

definition fixture_nameservers ::
  "penv \<Rightarrow> ((string \<times> bool \<times> bool) list \<Rightarrow> (string \<times> bool \<times> bool) list) \<Rightarrow> DelegationResult \<Rightarrow> history \<Rightarrow>
   (nameserver list \<times> history) option" where
  "fixture_nameservers e order delegation h =
     (let (nameservers, seen) = seed_loop (NSRecords delegation) [] [] in
      resolve_families e (order (fixture_families (NSRecords delegation) [])) nameservers seen h)"

text \<open>An error of the prober is logged; its results, none, make an empty registry.\<close>

definition fixture_Probe ::
  "(gauge_desc list \<Rightarrow> gauge_desc \<Rightarrow> bool) \<Rightarrow> penv \<Rightarrow> ((string \<times> bool \<times> bool) list \<Rightarrow> (string \<times> bool \<times> bool) list) \<Rightarrow>
   probe_fn \<Rightarrow> string \<Rightarrow> history \<Rightarrow> (registry \<times> history) option" where
  "fixture_Probe accepts e order fn zone h =
     (case WalkDelegation e zone h of
        None \<Rightarrow> None
      | Some (Inl err, h1) \<Rightarrow> Some ([], h1)
      | Some (Inr delegation, h1) \<Rightarrow>
          (case fixture_nameservers e order delegation h1 of
             None \<Rightarrow> None
           | Some (nameservers, h2) \<Rightarrow>
               (case fn e zone nameservers delegation h2 of
                  None \<Rightarrow> None
                | Some (Inl err, h3) \<Rightarrow> Some (BuildRegistry accepts [], h3)
                | Some (Inr results, h3) \<Rightarrow> Some (BuildRegistry accepts results, h3))))"

section \<open>The closest referral\<close>

text \<open>The domains a name is in, closest first: what follows each dot, the root excepted.\<close>

fun enclosing :: "string \<Rightarrow> string list" where
  "enclosing [] = []"
| "enclosing (c # cs) = (if c = CHR ''.'' \<and> cs \<noteq> [] then [cs] else []) @ enclosing cs"

lemma enclosing_step: "enclosing name = (case strip_label name of None \<Rightarrow> [] | Some rest \<Rightarrow> rest # enclosing rest)"
  by (induction name) (auto simp: strip_label_def split: list.splits)

lemma enclosing_shorter: "d \<in> set (enclosing name) \<Longrightarrow> length d < length name"
  by (induction name) (auto split: if_splits)

text \<open>A referral leads to the closest domain: among the domains that enclose the name, the first (the longest) that
  has NS records here, with all of these and the address records of their hosts; none when no enclosing
  domain short of the root has any.\<close>

lemma findReferral_eq:
  "findReferral records qname = (case find (\<lambda>d. ns_at records d \<noteq> []) (enclosing qname) of
     None \<Rightarrow> ([], [])
   | Some d \<Rightarrow> (ns_at records d, glue_of records (ns_at records d)))"
  by (induction records qname rule: findReferral.induct)
    (subst findReferral.simps, subst enclosing_step, simp add: Let_def split: option.split)

section \<open>Discovery as the runner does it\<close>

definition to_families :: "string \<times> bool \<times> bool \<Rightarrow> string \<times> families" where
  "to_families x = (case x of (host, v4, v6) \<Rightarrow> (host, \<lparr>has_v4 = v4, has_v6 = v6\<rparr>))"

definition from_families :: "string \<times> families \<Rightarrow> string \<times> bool \<times> bool" where
  "from_families x = (case x of (host, f) \<Rightarrow> (host, has_v4 f, has_v6 f))"

lemma families_inverse [simp]: "to_families (from_families x) = x" "from_families (to_families y) = y"
  by (simp_all add: to_families_def from_families_def split: prod.split)

lemma seed_loop_initial: "seed_loop nss acc seen = (let (out, seen') = initial_loop nss seen in (acc @ out, seen'))"
  by (induction nss arbitrary: acc seen) (auto simp: addr_key_def Let_def split: prod.splits)

lemma map_of_to_families: "map_of (map to_families m) host = map_option (\<lambda>(v4, v6). \<lparr>has_v4 = v4, has_v6 = v6\<rparr>) (map_of m host)"
  by (induction m) (auto simp: to_families_def)

lemma update_to_families:
  "map to_families (AList.update host (v4, v6) m) = AList.update host \<lparr>has_v4 = v4, has_v6 = v6\<rparr> (map to_families m)"
  by (induction m) (auto simp: to_families_def)

lemma fixture_families_eq: "map to_families (fixture_families nss m) = families_loop nss (map to_families m)"
proof (induction nss arbitrary: m)
  case (Cons ns nss)
  show ?case
    by (cases "map_of m (Hostname ns)")
      (auto simp: Let_def Cons map_of_to_families update_to_families isIPv6_def split: option.split prod.splits)
qed simp

lemma address_loop_eq: "address_loop host ips nss seen = add_addresses host ips nss seen"
  by (induction ips arbitrary: nss seen) (simp_all add: addr_key_def Let_def)

lemma resolve_families_eq:
  "resolve_families e fams nss seen h =
     augment_loop e (map fst (filter (\<lambda>(host, f). \<not> has_v4 f \<or> \<not> has_v6 f) (map to_families fams))) nss seen h"
  by (induction e fams nss seen h rule: resolve_families.induct)
    (auto simp: to_families_def address_loop_eq split: option.splits sum.splits prod.splits)

definition runner_order ::
  "((string \<times> bool \<times> bool) list \<Rightarrow> (string \<times> bool \<times> bool) list) \<Rightarrow> family_map \<Rightarrow> family_map" where
  "runner_order order m = map to_families (order (map from_families m))"

lemma fixture_discovery:
  "fixture_nameservers e order delegation h = discoverNameservers e (runner_order order) delegation h"
proof -
  have "map from_families (families_loop nss []) = fixture_families nss []" for nss
    using arg_cong [OF fixture_families_eq [of nss "[]"], of "map from_families"] by (simp add: comp_def)
  then show ?thesis
    by (simp add: fixture_nameservers_def discoverNameservers_def buildInitialNameservers_def seed_loop_initial
        resolve_families_eq hostsNeedingAugmentation_def runner_order_def Let_def split: prod.split)
qed

text \<open>C29: the tests probe what the runner probes: with the same order of map entries, the fixture finds exactly the
  nameservers of the cycle runner and asks the same questions for it, and unless there are none, the registry
  it returns is the one built of the results the runner collects for the zone from that prober alone.\<close>

theorem fixture_probes_as_runner:
  "fixture_nameservers e order delegation h = discoverNameservers e (runner_order order) delegation h \<and>
   fixture_Probe accepts e order fn zone h = (case WalkDelegation e zone h of
      None \<Rightarrow> None
    | Some (Inl err, h1) \<Rightarrow> Some ([], h1)
    | Some (Inr delegation, h1) \<Rightarrow>
        (case discoverNameservers e (runner_order order) delegation h1 of
           Some ([], h2) \<Rightarrow> map_option (\<lambda>(out, h3). (BuildRegistry accepts (case_sum (\<lambda>_. []) id out), h3)) (fn e zone [] delegation h2)
         | _ \<Rightarrow> map_option (\<lambda>(results, h3). (BuildRegistry accepts results, h3))
             (probe_delegation e zone (runner_order order) [(name, fn)] delegation h1)))"
proof (intro conjI fixture_discovery)
  show "fixture_Probe accepts e order fn zone h = (case WalkDelegation e zone h of
      None \<Rightarrow> None
    | Some (Inl err, h1) \<Rightarrow> Some ([], h1)
    | Some (Inr delegation, h1) \<Rightarrow>
        (case discoverNameservers e (runner_order order) delegation h1 of
           Some ([], h2) \<Rightarrow> map_option (\<lambda>(out, h3). (BuildRegistry accepts (case_sum (\<lambda>_. []) id out), h3)) (fn e zone [] delegation h2)
         | _ \<Rightarrow> map_option (\<lambda>(results, h3). (BuildRegistry accepts results, h3))
             (probe_delegation e zone (runner_order order) [(name, fn)] delegation h1)))"
    unfolding fixture_Probe_def fixture_discovery probe_delegation_def
    by (auto split: option.split sum.split list.split prod.split)
qed

end
