(* ===== verification/Fixture_Walk.thy ===== *)
theory Fixture_Walk
  imports Fixture
begin

text \<open>
  The delegation walk is complete on a network of test servers: a chain of referrals that is there is followed
  to its end, and what the last server holds is what the walk returns.
\<close>

section \<open>What arrives at the client\<close>

text \<open>What a client reads of a record: of an address, its text.\<close>

fun same_rr :: "rr \<Rightarrow> rr \<Rightarrow> bool" where
  "same_rr (RR_A n ip) r \<longleftrightarrow> (case r of RR_A m ip' \<Rightarrow> n = m \<and> IP_String ip = IP_String ip' | _ \<Rightarrow> False)"
| "same_rr (RR_AAAA n ip) r \<longleftrightarrow> (case r of RR_AAAA m ip' \<Rightarrow> n = m \<and> IP_String ip = IP_String ip' | _ \<Rightarrow> False)"
| "same_rr r r' \<longleftrightarrow> r = r'"

definition same_response :: "response \<Rightarrow> response \<Rightarrow> bool" where
  "same_response r r' \<longleftrightarrow> rsp_Authoritative r = rsp_Authoritative r' \<and> list_all2 same_rr (rsp_Answer r) (rsp_Answer r') \<and>
     list_all2 same_rr (rsp_Ns r) (rsp_Ns r') \<and> list_all2 same_rr (rsp_Extra r) (rsp_Extra r')"

text \<open>The server of an address, when it answers a question for the nameservers of the zone, however often it
  is asked, and the answer arrives intact.\<close>

definition answering :: "transport \<Rightarrow> testServer list \<Rightarrow> string \<Rightarrow> string \<Rightarrow> testServer option" where
  "answering tp servers zone addr = (case find (\<lambda>srv. ts_addr srv = addr) servers of
     None \<Rightarrow> None
   | Some srv \<Rightarrow>
       if so_DropFirstN (ts_options srv) > 0 \<or> so_Rcode (ts_options srv) \<noteq> RcodeSuccess then None
       else (case handler srv 1 [(zone, QType TypeNS)] of
         Message r \<Rightarrow> (case tp_deliver tp r of
             Inl _ \<Rightarrow> None
           | Inr r' \<Rightarrow> if same_response r' r then Some srv else None)
       | _ \<Rightarrow> None))"

text \<open>The server at \<open>addr\<close> refers a question about \<open>zone\<close> to the address \<open>nxt\<close>, by glue.\<close>

definition refers :: "penv \<Rightarrow> transport \<Rightarrow> testServer list \<Rightarrow> string \<Rightarrow> string \<Rightarrow> string \<Rightarrow> bool" where
  "refers e tp servers zone addr nxt \<longleftrightarrow> (case answering tp servers zone addr of
     None \<Rightarrow> False
   | Some srv \<Rightarrow> ts_referral srv \<and> ns_at (ts_records srv) zone = [] \<and> nxt \<noteq> [] \<and>
       (case find (\<lambda>d. ns_at (ts_records srv) d \<noteq> []) (enclosing zone) of
          None \<Rightarrow> False
        | Some d \<Rightarrow> (let ns = ns_at (ts_records srv) d in
            nxt = glued_server e (referral_glue (glue_of (ts_records srv) ns)) (ns_targets ns))))"

text \<open>The last server holds the zone's NS records, as its parent or as its own server.\<close>

definition delegates :: "transport \<Rightarrow> testServer list \<Rightarrow> string \<Rightarrow> string \<Rightarrow> bool" where
  "delegates tp servers zone addr \<longleftrightarrow> (case answering tp servers zone addr of
     None \<Rightarrow> False | Some srv \<Rightarrow> ns_at (ts_records srv) zone \<noteq> [])"

fun refer_chain :: "penv \<Rightarrow> transport \<Rightarrow> testServer list \<Rightarrow> string \<Rightarrow> string list \<Rightarrow> bool" where
  "refer_chain e tp servers zone [] \<longleftrightarrow> False"
| "refer_chain e tp servers zone [addr] \<longleftrightarrow> delegates tp servers zone addr"
| "refer_chain e tp servers zone (addr # nxt # addrs) \<longleftrightarrow>
     refers e tp servers zone addr nxt \<and> refer_chain e tp servers zone (nxt # addrs)"

text \<open>The delegation the records of a server describe.\<close>

definition held_delegation :: "testServer list \<Rightarrow> string \<Rightarrow> string \<Rightarrow> DelegationResult" where
  "held_delegation servers zone addr = (case find (\<lambda>srv. ts_addr srv = addr) servers of
     None \<Rightarrow> \<lparr>ParentServer = addr, NSRecords = [], Glue = []\<rparr>
   | Some srv \<Rightarrow> (let ns = ns_at (ts_records srv) zone in
       extractDelegation addr ns (glue_of (ts_records srv) ns) zone))"

lemma same_targets: "list_all2 same_rr rrs' rrs \<Longrightarrow> ns_targets rrs' = ns_targets rrs"
proof (induction rule: list_all2_induct)
  case (Cons rr' rrs' rr rrs)
  then show ?case by (cases rr'; cases rr) (auto simp: ns_targets_def map_filter_simps)
qed simp

lemma same_glue_addrs:
  assumes "list_all2 same_rr rrs' rrs"
  shows "glue_addrs rrs' = glue_addrs rrs"
proof
  fix n
  let ?f = "\<lambda>rr. case rr of RR_A m ip \<Rightarrow> if m = n then Some (IP_String ip) else None
      | RR_AAAA m ip \<Rightarrow> if m = n then Some (IP_String ip) else None | _ \<Rightarrow> None"
  have f: "?f r' = ?f r" if "same_rr r' r" for r' r
    using that by (cases r'; cases r) auto
  from assms have "List.map_filter ?f rrs' = List.map_filter ?f rrs"
  proof (induction rule: list_all2_induct)
    case (Cons rr' rrs' rr rrs)
    show ?case by (simp only: map_filter_simps f [OF Cons.hyps(1)] Cons.IH)
  qed simp
  then show "glue_addrs rrs' n = glue_addrs rrs n" by (simp add: glue_addrs_def)
qed

lemma same_extract:
  assumes "list_all2 same_rr ns' ns" and "list_all2 same_rr extra' extra"
  shows "extractDelegation p ns' extra' z = extractDelegation p ns extra z"
  by (simp add: DelegationResult.equality extractDelegation_def extract_loop_Parent extract_loop_entries
      extract_loop_Glue glue_map_loop_addrs glue_addrs_nonempty same_targets [OF assms(1)] same_glue_addrs [OF assms(2)])

lemma same_referral_glue: "list_all2 same_rr rrs' rrs \<Longrightarrow> referral_glue rrs' = referral_glue rrs"
proof -
  have "list_all2 same_rr rrs' rrs \<Longrightarrow> referral_glue_loop rrs' m = referral_glue_loop rrs m" for m
  proof (induction arbitrary: m rule: list_all2_induct)
    case (Cons rr' rrs' rr rrs)
    then show ?case by (cases rr'; cases rr) (auto simp: fun_upd_def cong: if_cong)
  qed simp
  then show "list_all2 same_rr rrs' rrs \<Longrightarrow> referral_glue rrs' = referral_glue rrs"
    by (simp add: referral_glue_def)
qed

lemma same_name: "same_rr r' r \<Longrightarrow> rr_name r' = rr_name r"
  by (cases r'; cases r) auto

lemma same_head: "list_all2 same_rr rrs' rrs \<Longrightarrow> rrs \<noteq> [] \<Longrightarrow> rrs' \<noteq> [] \<and> rr_name (hd rrs') = rr_name (hd rrs)"
  by (cases rrs; cases rrs') (auto dest: same_name)

lemma matched_NS: "filter (matches zone (QType TypeNS)) records = ns_at records zone"
  unfolding ns_at_def by (rule filter_cong) (auto simp: matches_def split: rr.splits elim: Rrtype.elims)

lemma ns_at_targets: "ns_at records zone \<noteq> [] \<Longrightarrow> ns_targets (ns_at records zone) \<noteq> []"
proof (induction records)
  case (Cons rr records)
  then show ?case by (cases rr) (auto simp: ns_at_def ns_targets_def map_filter_simps)
qed (simp add: ns_at_def)

lemma ns_at_name: "ns_at records d \<noteq> [] \<Longrightarrow> rr_name (hd (ns_at records d)) = d"
proof -
  have "rr_name rr = d" if "rr \<in> set (ns_at records d)" for rr
    using that by (auto simp: ns_at_def split: rr.splits)
  then show "ns_at records d \<noteq> [] \<Longrightarrow> rr_name (hd (ns_at records d)) = d" by (simp add: hd_in_set)
qed

text \<open>What arrives of an answering server's reply.\<close>

lemma answering_reply:
  assumes runs: "runs_fixture tp servers e" and srv: "answering tp servers zone addr = Some srv"
  obtains r r' where "ExchangeContext e t (NonRecursive zone TypeNS) addr h = (Inr r', h @ [EvExchange t (NonRecursive zone TypeNS) addr])"
    and "same_response r' r" and "handler srv 1 [(zone, QType TypeNS)] = Message r"
    and "find (\<lambda>srv. ts_addr srv = addr) servers = Some srv"
proof -
  have f: "find (\<lambda>srv. ts_addr srv = addr) servers = Some srv" and n: "\<not> so_DropFirstN (ts_options srv) > 0"
    using srv by (auto simp: answering_def split: option.splits if_splits reply.splits sum.splits)
  obtain r r' where r: "handler srv 1 [(zone, QType TypeNS)] = Message r" "tp_deliver tp r = Inr r'" "same_response r' r"
    using srv f by (auto simp: answering_def split: option.splits if_splits reply.splits sum.splits)
  have "handler srv k q = handler srv 1 q" for k q
    by (simp only: handler_def Let_def n simp_thms if_False)
  with r(1) have "handler srv k [(zone, QType TypeNS)] = Message r" for k by metis
  with runs f r have "net_exchange e h t (NonRecursive zone TypeNS) addr = Inr r'"
    by (simp add: runs_fixture_def fixture_exchange_def NonRecursive_def SetQuestion_def)
  then show thesis using that r f by (simp add: ExchangeContext_def)
qed

lemma answering_handler:
  assumes "answering tp servers zone addr = Some srv" and "handler srv 1 [(zone, QType TypeNS)] = Message r"
  shows "ns_at (ts_records srv) zone \<noteq> [] \<Longrightarrow> ts_referral srv \<Longrightarrow>
      r = SetReply\<lparr>rsp_Ns := ns_at (ts_records srv) zone, rsp_Extra := glue_of (ts_records srv) (ns_at (ts_records srv) zone)\<rparr>"
    and "\<not> ts_referral srv \<Longrightarrow> rsp_Authoritative r \<and> rsp_Answer r = ns_at (ts_records srv) zone \<and>
      rsp_Extra r = glue_of (ts_records srv) (ns_at (ts_records srv) zone)"
    and "ns_at (ts_records srv) zone = [] \<Longrightarrow> ts_referral srv \<Longrightarrow> findReferral (ts_records srv) zone = (ns, extra) \<Longrightarrow> ns \<noteq> [] \<Longrightarrow>
      r = SetReply\<lparr>rsp_Ns := ns, rsp_Extra := extra\<rparr>"
  using assms by (auto simp: answering_def handler_def Let_def matched_NS split: option.splits if_splits reply.splits sum.splits)

lemma walk_delegates:
  assumes runs: "runs_fixture tp servers e" and d: "delegates tp servers zone addr"
  shows "WalkDelegation_loop e zone (Suc left) addr h =
    (Inr (held_delegation servers zone addr), h @ [EvExchange (client_Timeout e) (NonRecursive zone TypeNS) addr])"
proof -
  obtain srv where srv: "answering tp servers zone addr = Some srv" and ns: "ns_at (ts_records srv) zone \<noteq> []"
    using d by (auto simp: delegates_def split: option.splits)
  let ?ns = "ns_at (ts_records srv) zone"
  obtain r r' where x: "ExchangeContext e (client_Timeout e) (NonRecursive zone TypeNS) addr h =
      (Inr r', h @ [EvExchange (client_Timeout e) (NonRecursive zone TypeNS) addr])"
    and same: "same_response r' r" and hd: "handler srv 1 [(zone, QType TypeNS)] = Message r"
    and f: "find (\<lambda>srv. ts_addr srv = addr) servers = Some srv"
    by (rule answering_reply [OF runs srv])
  show ?thesis
  proof (cases "ts_referral srv")
    case True
    then have r: "r = SetReply\<lparr>rsp_Ns := ?ns, rsp_Extra := glue_of (ts_records srv) ?ns\<rparr>"
      by (rule answering_handler(1) [OF srv hd ns])
    with same have *: "\<not> rsp_Authoritative r'" "list_all2 same_rr (rsp_Ns r') ?ns"
      "list_all2 same_rr (rsp_Extra r') (glue_of (ts_records srv) ?ns)"
      by (simp_all add: same_response_def SetReply_def)
    show ?thesis
      using * x f same_head [OF *(2) ns] same_targets [OF *(2)] ns_at_targets [OF ns] ns_at_name [OF ns]
      by (simp add: held_delegation_def Let_def same_extract [OF *(2,3)] EqualFold_def)
  next
    case False
    with same answering_handler(2) [OF srv hd] have *: "rsp_Authoritative r'" "list_all2 same_rr (rsp_Answer r') ?ns"
      "list_all2 same_rr (rsp_Extra r') (glue_of (ts_records srv) ?ns)"
      by (simp_all add: same_response_def)
    show ?thesis
      using * x f same_head [OF *(2) ns] by (simp add: held_delegation_def Let_def same_extract [OF *(2,3)])
  qed
qed

lemma walk_refers:
  assumes runs: "runs_fixture tp servers e" and d: "refers e tp servers zone addr nxt"
  shows "WalkDelegation_loop e zone (Suc left) addr h =
    WalkDelegation_loop e zone left nxt (h @ [EvExchange (client_Timeout e) (NonRecursive zone TypeNS) addr])"
proof -
  obtain srv d where srv: "answering tp servers zone addr = Some srv" and ref: "ts_referral srv"
    and none: "ns_at (ts_records srv) zone = []" and nxt: "nxt \<noteq> []"
    and found: "find (\<lambda>d. ns_at (ts_records srv) d \<noteq> []) (enclosing zone) = Some d"
    and glued: "nxt = glued_server e (referral_glue (glue_of (ts_records srv) (ns_at (ts_records srv) d)))
      (ns_targets (ns_at (ts_records srv) d))"
    using d by (auto simp: refers_def Let_def split: option.splits)
  let ?ns = "ns_at (ts_records srv) d"
  obtain r r' where x: "ExchangeContext e (client_Timeout e) (NonRecursive zone TypeNS) addr h =
      (Inr r', h @ [EvExchange (client_Timeout e) (NonRecursive zone TypeNS) addr])"
    and same: "same_response r' r" and hd: "handler srv 1 [(zone, QType TypeNS)] = Message r"
    by (rule answering_reply [OF runs srv])
  have ns: "?ns \<noteq> []" and short: "length d < length zone"
    using found by (auto simp: find_Some_iff intro!: enclosing_shorter)
  have "r = SetReply\<lparr>rsp_Ns := ?ns, rsp_Extra := glue_of (ts_records srv) ?ns\<rparr>"
    by (rule answering_handler(3) [OF srv hd none ref _ ns]) (simp add: findReferral_eq found)
  with same have *: "\<not> rsp_Authoritative r'" "list_all2 same_rr (rsp_Ns r') ?ns"
    "list_all2 same_rr (rsp_Extra r') (glue_of (ts_records srv) ?ns)"
    by (simp_all add: same_response_def SetReply_def)
  have other: "\<not> EqualFold d zone"
    using short by (auto simp: EqualFold_def dest: arg_cong [where f = length])
  show ?thesis
    using * x nxt other same_head [OF *(2) ns] same_targets [OF *(2)] ns_at_targets [OF ns] ns_at_name [OF ns]
    by (simp add: walk_next_def same_referral_glue [OF *(3)] glued [symmetric] Let_def)
qed

lemma walk_chain:
  assumes "runs_fixture tp servers e" and "refer_chain e tp servers zone addrs" and "length addrs \<le> left"
  shows "WalkDelegation_loop e zone left (hd addrs) h =
    (Inr (held_delegation servers zone (last addrs)),
     h @ map (EvExchange (client_Timeout e) (NonRecursive zone TypeNS)) addrs)"
  using assms(2,3)
proof (induction addrs arbitrary: left h rule: induct_list012)
  case (2 addr)
  then show ?case by (cases left) (simp_all add: walk_delegates [OF assms(1)] del: WalkDelegation_loop.simps)
next
  case (3 addr nxt addrs)
  from 3(4) obtain left' where left: "left = Suc left'" by (cases left) auto
  from 3(3) have "refers e tp servers zone addr nxt" by simp
  from walk_refers [OF assms(1) this] 3(2) [of left'] 3(3,4) left show ?case
    by (simp del: WalkDelegation_loop.simps)
qed simp

text \<open>C27: the walk finds what is there: on a fixture where each of at most ten servers refers by glue to the
  address of the next, starting at the first root server, and the last one holds NS records of the zone
  (as a parent, referring, or authoritatively), it succeeds with exactly these records and their glue, after
  one question to each server of the chain.\<close>

theorem fixture_walk_complete:
  assumes "runs_fixture tp servers e" and "RootServers e = root # roots"
    and "refer_chain e tp servers (dns_Fqdn e zone) (root # addrs)" and "length addrs < 10"
  shows "WalkDelegation e zone h = Some (Inr (held_delegation servers (dns_Fqdn e zone) (last (root # addrs))),
     h @ map (EvExchange (client_Timeout e) (NonRecursive (dns_Fqdn e zone) TypeNS)) (root # addrs))"
  using walk_chain [OF assms(1,3), of 10 h] assms(2,4) by (simp add: WalkDelegation_def del: WalkDelegation_loop.simps)

text \<open>A root server refers to a server of the top-level domain, which refers to the zone's nameservers.\<close>

definition wire_loopback :: transport where
  "wire_loopback = \<lparr>tp_deliver = Inr, tp_unreachable = NetError False, tp_unpack_error = PlainError ''short read'', tp_ready = (\<lambda>_. 1)\<rparr>"

definition example_servers :: "testServer list" where
  \<open>example_servers =
     ReferralServer ''127.0.0.2:10053'' [NS_rr id ''example.test.'' ''ns1.example.test.'', A_rr id ''ns1.example.test.'' ''127.0.0.3'']
       (ReferralServer ''127.0.0.1:10053'' [NS_rr id ''test.'' ''ns.test.'', A_rr id ''ns.test.'' ''127.0.0.2''] [])\<close>

definition example_env :: penv where
  \<open>example_env = \<lparr>net_exchange = (\<lambda>h t msg addr. fixture_exchange wire_loopback example_servers h msg addr),
     ctx_Err = (\<lambda>_. False), clock = (\<lambda>_. 0), dns_Fqdn = id, client_Timeout = 1000000000,
     RootServers = [''127.0.0.1:10053''], ResolveAddress = (\<lambda>ip. JoinHostPort ip ''10053'')\<rparr>\<close>

lemma fixture_walk_complete_witness:
  "WalkDelegation example_env ''example.test.'' [] = Some
     (Inr \<lparr>ParentServer = ''127.0.0.2:10053'',
           NSRecords = [\<lparr>Hostname = ''ns1.example.test.'', NS_IP = ''127.0.0.3''\<rparr>],
           Glue = [\<lparr>Hostname = ''ns1.example.test.'', NS_IP = ''127.0.0.3''\<rparr>]\<rparr>,
      map (EvExchange 1000000000 (NonRecursive ''example.test.'' TypeNS)) [''127.0.0.1:10053'', ''127.0.0.2:10053''])"
proof -
  have env: "runs_fixture wire_loopback example_servers example_env" "RootServers example_env = [''127.0.0.1:10053'']"
    "dns_Fqdn example_env z = z" "client_Timeout example_env = 1000000000" for z
    by (simp_all add: runs_fixture_def example_env_def)
  have chain: "refer_chain example_env wire_loopback example_servers ''example.test.'' [''127.0.0.1:10053'', ''127.0.0.2:10053'']"
    by code_simp
  have held: "held_delegation example_servers ''example.test.'' ''127.0.0.2:10053'' = \<lparr>ParentServer = ''127.0.0.2:10053'',
       NSRecords = [\<lparr>Hostname = ''ns1.example.test.'', NS_IP = ''127.0.0.3''\<rparr>],
       Glue = [\<lparr>Hostname = ''ns1.example.test.'', NS_IP = ''127.0.0.3''\<rparr>]\<rparr>"
    by code_simp
  show ?thesis
    using fixture_walk_complete [of wire_loopback example_servers example_env "''127.0.0.1:10053''" "[]" "''example.test.''" "[''127.0.0.2:10053'']" "[]"]
      env chain held by simp
qed

end
