(* ===== verification/Fixture_Loss.thy ===== *)
theory Fixture_Loss
  imports Fixture_Walk
begin

text \<open>
  Requests that get lost, on a network of test servers of which each may drop its first requests
  (\<^verbatim>\<open>DropFirstN\<close>). The probers ask through \<^verbatim>\<open>ExchangeWithRetry\<close> and do not notice one loss per server; the
  delegation walk, hostname resolution and the CNAME lookup ask once.
\<close>

section \<open>Losses to come\<close>

text \<open>How many more requests the server of an address drops, not counting those that drop every one.\<close>

definition losses_left :: "transport \<Rightarrow> testServer list \<Rightarrow> history \<Rightarrow> string \<Rightarrow> int" where
  "losses_left tp servers h addr = (case find (\<lambda>srv. ts_addr srv = addr) servers of
     None \<Rightarrow> 0
   | Some srv \<Rightarrow> so_DropFirstN (ts_options srv) - QueryCount tp servers h addr)"

text \<open>What a request gets once the losses are over.\<close>

definition settled_exchange :: "transport \<Rightarrow> testServer list \<Rightarrow> dns_msg \<Rightarrow> string \<Rightarrow> goerror + response" where
  "settled_exchange tp servers msg addr = (case find (\<lambda>srv. ts_addr srv = addr) servers of
     None \<Rightarrow> Inl (tp_unreachable tp)
   | Some srv \<Rightarrow> (case handler srv (max 1 (so_DropFirstN (ts_options srv) + 1)) [(msg_name msg, QType (msg_type msg))] of
       NoReply \<Rightarrow> Inl (NetError True)
     | GarbageBytes \<Rightarrow> Inl (tp_unpack_error tp)
     | Message r \<Rightarrow> tp_deliver tp r))"

lemma QueryCount_nonneg: "0 \<le> QueryCount tp servers h addr"
  by (simp add: QueryCount_def split: option.split)

lemma handler_settled:
  assumes "0 < k" and "so_DropFirstN (ts_options srv) < k"
  shows "handler srv k q = handler srv (max 1 (so_DropFirstN (ts_options srv) + 1)) q"
proof -
  have "\<not> (so_DropFirstN (ts_options srv) > 0 \<and> k \<le> so_DropFirstN (ts_options srv))"
    "\<not> (so_DropFirstN (ts_options srv) > 0 \<and>
        max 1 (so_DropFirstN (ts_options srv) + 1) \<le> so_DropFirstN (ts_options srv))" using assms by auto
  then show ?thesis unfolding handler_def Let_def by (simp only: if_False)
qed

lemma handler_lost:
  assumes "0 < k" and "k \<le> so_DropFirstN (ts_options srv)"
  shows "handler srv k q = NoReply"
  using assms by (simp add: handler_def Let_def)

lemma fixture_exchange_losses:
  "fixture_exchange tp servers h msg addr =
     (if 0 < losses_left tp servers h addr then Inl (NetError True) else settled_exchange tp servers msg addr)"
proof (cases "find (\<lambda>srv. ts_addr srv = addr) servers")
  case (Some srv)
  let ?k = "QueryCount tp servers h addr + 1"
  have k: "0 < ?k" using QueryCount_nonneg [of tp servers h addr] by linarith
  show ?thesis
  proof (cases "0 < losses_left tp servers h addr")
    case True
    then have "?k \<le> so_DropFirstN (ts_options srv)" by (simp add: losses_left_def Some)
    from handler_lost [OF k this] True Some show ?thesis by (simp add: fixture_exchange_def)
  next
    case False
    then have "so_DropFirstN (ts_options srv) < ?k" by (simp add: losses_left_def Some)
    from handler_settled [OF k this] False Some show ?thesis
      by (simp only: fixture_exchange_def settled_exchange_def option.case if_False)
  qed
qed (simp add: fixture_exchange_def settled_exchange_def losses_left_def)

section \<open>Each request uses up a loss\<close>

lemma asked_append: "asked addr (h @ h') = asked addr h + asked addr h'"
  by (induction h rule: asked.induct) simp_all

lemma losses_left_mono: "prefix h h' \<Longrightarrow> losses_left tp servers h' addr \<le> losses_left tp servers h addr"
  by (auto simp: prefix_def losses_left_def QueryCount_def asked_append split: option.split)

lemma losses_left_step:
  assumes "0 < losses_left tp servers h addr"
  shows "losses_left tp servers (h @ [EvExchange t msg addr]) addr = losses_left tp servers h addr - 1"
    and "losses_left tp servers (h @ [EvExchange t msg addr, EvCtx]) addr = losses_left tp servers h addr - 1"
  using assms by (auto simp: losses_left_def QueryCount_def asked_append split: option.splits)

text \<open>An exchange with retry outlives one loss, and no more.\<close>

lemma retry_one_loss:
  assumes "runs_fixture tp servers e" and "\<And>h. \<not> ctx_Err e h"
    and "losses_left tp servers h addr \<le> 1" and "settled_exchange tp servers msg addr = Inr resp"
  shows "fst (ExchangeWithRetry e msg addr h) = Inr resp"
proof (cases "0 < losses_left tp servers h addr")
  case True
  then have "losses_left tp servers h addr = 1" using assms(3) by simp
  with True losses_left_step(2) [OF True] assms show ?thesis
    by (simp add: ExchangeWithRetry_def ExchangeContext_def ctxErr_def runs_fixture_def fixture_exchange_losses)
next
  case False
  with assms show ?thesis
    by (simp add: ExchangeWithRetry_def ExchangeContext_def runs_fixture_def fixture_exchange_losses)
qed

lemma retry_two_losses:
  assumes "runs_fixture tp servers e" and "1 < losses_left tp servers h addr"
  shows "fst (ExchangeWithRetry e msg addr h) = Inl (NetError True)"
proof -
  have l: "0 < losses_left tp servers h addr" using assms(2) by simp
  from losses_left_step(2) [OF l] assms l show ?thesis
    by (simp add: ExchangeWithRetry_def ExchangeContext_def ctxErr_def runs_fixture_def fixture_exchange_losses
        split: bool.split)
qed

section \<open>A zone whose servers lose one request each\<close>

text \<open>The SOA data a nameserver hands out, at the latest when asked twice.\<close>

definition soa_when_retried :: "penv \<Rightarrow> transport \<Rightarrow> testServer list \<Rightarrow> history \<Rightarrow> string \<Rightarrow> nameserver \<Rightarrow> soa_rdata option" where
  "soa_when_retried e tp servers h zone ns =
     (if losses_left tp servers h (ResolveAddress e (NS_IP ns)) \<le> 1 then
        (case settled_exchange tp servers (SetQuestion (dns_Fqdn e zone) TypeSOA) (ResolveAddress e (NS_IP ns)) of
           Inl _ \<Rightarrow> None
         | Inr resp \<Rightarrow> first_SOA (rsp_Answer resp))
      else None)"

lemma soa_reported_retried:
  assumes "runs_fixture tp servers e" and "\<And>h. \<not> ctx_Err e h"
    and "soa_when_retried e tp servers h zone ns = Some soa" and "soa_reported e zone nsSet c h h' ns r"
  shows "Success r \<and> \<not> TimedOut r \<and> map_of (Metrics r) ''soa_serial'' = Some (uint (soa_Serial soa))"
proof -
  obtain h1 x h2 dur where x: "ExchangeWithRetry e (SetQuestion (dns_Fqdn e zone) TypeSOA) (ResolveAddress e (NS_IP ns)) h1 = (x, h2)"
    and p: "prefix h h1" and r: "r = soa_result e zone ns nsSet (\<lambda>k. c k = Some True) dur x"
    using assms(4) unfolding soa_reported_def by blast
  obtain resp where left: "losses_left tp servers h (ResolveAddress e (NS_IP ns)) \<le> 1"
    and resp: "settled_exchange tp servers (SetQuestion (dns_Fqdn e zone) TypeSOA) (ResolveAddress e (NS_IP ns)) = Inr resp"
    and soa: "first_SOA (rsp_Answer resp) = Some soa"
    using assms(3) by (auto simp: soa_when_retried_def split: if_splits sum.splits)
  from losses_left_mono [OF p] left have "losses_left tp servers h1 (ResolveAddress e (NS_IP ns)) \<le> 1"
    by (rule order_trans)
  from retry_one_loss [OF assms(1,2) this resp] have "x = Inr resp" by (simp add: x)
  then show ?thesis by (simp add: r soa soa_result_def soa_metrics_def Let_def)
qed

lemma walk_lost:
  assumes "runs_fixture tp servers e" and "RootServers e = root # roots" and "0 < losses_left tp servers h root"
  shows "WalkDelegation e zone h = Some (Inl (Wrapped (''querying '' @ root) (NetError True)),
    h @ [EvExchange (client_Timeout e) (NonRecursive (dns_Fqdn e zone) TypeNS) root])"
  using assms by (simp add: WalkDelegation_def numeral_eq_Suc ExchangeContext_def runs_fixture_def fixture_exchange_losses)

text \<open>C28: one lost request is masked by the probers and kills the walk. On a fixture whose servers drop their first
  requests, while the context lasts, the SOA prober reports success and the serial number for every nameserver
  that loses at most one more request and then has SOA data; but the delegation walk fails with a timeout, after a
  single exchange, if the first root server loses just the next request.\<close>

theorem one_loss:
  assumes "runs_fixture tp servers e" and "\<And>h. \<not> ctx_Err e h" and "RootServers e = root # roots"
    and "list_all (\<lambda>ns. soa_when_retried e tp servers h zone ns \<noteq> None) nss"
  shows "(\<exists>rs h'. ProbeSOA e zone nss dlg h = Some (Inr rs, h') \<and>
      list_all2 (\<lambda>ns r. Success r \<and> \<not> TimedOut r \<and>
        map_of (Metrics r) ''soa_serial'' = map_option (\<lambda>soa. uint (soa_Serial soa)) (soa_when_retried e tp servers h zone ns)) nss rs) \<and>
    (0 < losses_left tp servers h root \<longrightarrow> (\<exists>err. IsTimeout (Some err) \<and>
      WalkDelegation e zone h = Some (Inl err, h @ [EvExchange (client_Timeout e) (NonRecursive (dns_Fqdn e zone) TypeNS) root])))"
proof (intro conjI impI)
  obtain out h' where run: "ProbeSOA e zone nss dlg h = Some (out, h')"
    using soa.no_panic [of e zone nss dlg h] assms(3) by auto
  obtain rs c where out: "out = Inr rs"
    and rs: "list_all2 (soa_reported e zone (map (\<lambda>ns. hostKey e (Hostname ns)) (NSRecords dlg)) c h h') nss rs"
    by (rule ProbeSOA_reports [OF run])
  have "list_all2 (\<lambda>ns r. Success r \<and> \<not> TimedOut r \<and>
      map_of (Metrics r) ''soa_serial'' = map_option (\<lambda>soa. uint (soa_Serial soa)) (soa_when_retried e tp servers h zone ns)) nss rs"
    using rs assms(4)
  proof (induction rule: list_all2_induct)
    case (Cons ns nss r rs)
    then obtain soa where "soa_when_retried e tp servers h zone ns = Some soa" by auto
    with soa_reported_retried [OF assms(1,2) this Cons.hyps(1)] Cons show ?case by simp
  qed simp
  with run out show "\<exists>rs h'. ProbeSOA e zone nss dlg h = Some (Inr rs, h') \<and>
      list_all2 (\<lambda>ns r. Success r \<and> \<not> TimedOut r \<and>
        map_of (Metrics r) ''soa_serial'' = map_option (\<lambda>soa. uint (soa_Serial soa)) (soa_when_retried e tp servers h zone ns)) nss rs"
    by blast
qed (use walk_lost [OF assms(1,3)] in auto)

text \<open>Two servers that drop the first request to them, one of them the root.\<close>

definition lossy_servers :: "testServer list" where
  "lossy_servers =
     ServerWithOptions ''127.0.0.2:10053'' (no_options\<lparr>so_DropFirstN := 1\<rparr>)
       [fst (SOA_rr id ''example.test.'' [Serial 777] serialCounter_init), NS_rr id ''example.test.'' ''ns1.example.test.'']
       (ServerWithOptions ''127.0.0.1:10053'' (no_options\<lparr>so_DropFirstN := 1\<rparr>) [NS_rr id ''example.test.'' ''ns1.example.test.''] [])"

definition lossy_env :: penv where
  "lossy_env = example_env\<lparr>net_exchange := (\<lambda>h t msg addr. fixture_exchange wire_loopback lossy_servers h msg addr)\<rparr>"

lemma one_loss_witness:
  "(\<exists>r h'. ProbeSOA lossy_env ''example.test.'' [\<lparr>Hostname = ''ns1.example.test.'', NS_IP = ''127.0.0.2''\<rparr>]
       \<lparr>ParentServer = [], NSRecords = [], Glue = []\<rparr> [] = Some (Inr [r], h') \<and>
      Success r \<and> map_of (Metrics r) ''soa_serial'' = Some 777) \<and>
   (\<exists>err. IsTimeout (Some err) \<and> WalkDelegation lossy_env ''example.test.'' [] = Some (Inl err,
      [EvExchange 1000000000 (NonRecursive ''example.test.'' TypeNS) ''127.0.0.1:10053'']))"
proof -
  let ?ns = "\<lparr>Hostname = ''ns1.example.test.'', NS_IP = ''127.0.0.2''\<rparr>"
  have env: "runs_fixture wire_loopback lossy_servers lossy_env" "RootServers lossy_env = [''127.0.0.1:10053'']"
    "\<not> ctx_Err lossy_env h" "dns_Fqdn lossy_env z = z" "client_Timeout lossy_env = 1000000000" for h z
    by (simp_all add: runs_fixture_def lossy_env_def example_env_def)
  have soa: "map_option (\<lambda>soa. uint (soa_Serial soa))
      (soa_when_retried lossy_env wire_loopback lossy_servers [] ''example.test.'' ?ns) = Some 777"
    by code_simp
  then have "list_all (\<lambda>ns. soa_when_retried lossy_env wire_loopback lossy_servers [] ''example.test.'' ns \<noteq> None) [?ns]" by auto
  moreover have "0 < losses_left wire_loopback lossy_servers [] ''127.0.0.1:10053''" by code_simp
  ultimately show ?thesis
    using one_loss [of wire_loopback lossy_servers lossy_env "''127.0.0.1:10053''" "[]" "[]" "''example.test.''" "[?ns]"
        "\<lparr>ParentServer = [], NSRecords = [], Glue = []\<rparr>"] env soa
    by (simp add: list_all2_Cons1) blast
qed

end
