(* ===== verification/Assertions.thy ===== *)
theory Assertions
  imports Complex_Main Registry
begin

text \<open>
  The assertions of \<^verbatim>\<open>testutil/assertions.go\<close> on the metrics of a registry. \<^verbatim>\<open>Registry.Gather\<close> is the
  Prometheus library's: \<open>gather\<close> is a parameter, its documented result the hypothesis \<open>gathered\<close>. A failing
  assertion ends the test (\<open>Fatal\<close>) or marks it failed and goes on (\<open>Errored\<close>). A value is the rational
  number of its float64; \<open>float\<close> is that of a gauge.
\<close>

section \<open>Matchers\<close>

record metricMatcher =
  mm_labels :: "(string \<times> string) list"
  mm_hasValue :: bool
  mm_value :: rat

type_synonym MetricOption = "metricMatcher \<Rightarrow> metricMatcher"

fun label_pairs :: "string list \<Rightarrow> (string \<times> string) list \<Rightarrow> (string \<times> string) list" where
  "label_pairs (k # v # pairs) m = label_pairs pairs (AList.update k v m)"
| "label_pairs [k] m = m"
| "label_pairs [] m = m"

definition WithLabels :: "string list \<Rightarrow> MetricOption" where
  "WithLabels pairs m = m\<lparr>mm_labels := label_pairs pairs (mm_labels m)\<rparr>"

definition WithValue :: "rat \<Rightarrow> MetricOption" where
  "WithValue v m = m\<lparr>mm_hasValue := True, mm_value := v\<rparr>"

definition apply_options :: "MetricOption list \<Rightarrow> metricMatcher" where
  "apply_options opts = fold (\<lambda>opt m. opt m) opts \<lparr>mm_labels = [], mm_hasValue = False, mm_value = 0\<rparr>"

section \<open>Finding a metric\<close>

record dto_metric =
  m_labels :: "(string \<times> string) list"
  m_gauge :: gauge_value

record metric_family =
  fam_name :: string
  fam_metrics :: "dto_metric list"

text \<open>A Go map gives the empty string for a label that is not there.\<close>

definition matchLabels :: "dto_metric \<Rightarrow> (string \<times> string) list \<Rightarrow> bool" where
  "matchLabels m want \<longleftrightarrow>
     (let got = fold (\<lambda>(k, v). AList.update k v) (m_labels m) [] in
      want = [] \<or> list_all (\<lambda>(k, v). (case map_of got k of Some g \<Rightarrow> g | None \<Rightarrow> []) = v) want)"

fun find_in_families :: "string \<Rightarrow> (string \<times> string) list \<Rightarrow> metric_family list \<Rightarrow> dto_metric option" where
  "find_in_families name labels [] = None"
| "find_in_families name labels (fam # fams) =
     (if fam_name fam \<noteq> name then find_in_families name labels fams
      else (case find (\<lambda>m. matchLabels m labels) (fam_metrics fam) of
          Some m \<Rightarrow> Some m
        | None \<Rightarrow> find_in_families name labels fams))"

type_synonym gatherer = "registry \<Rightarrow> goerror + metric_family list"

definition findMetric :: "gatherer \<Rightarrow> registry \<Rightarrow> string \<Rightarrow> (string \<times> string) list \<Rightarrow> goerror + dto_metric option" where
  "findMetric gather reg name labels = (case gather reg of
     Inl err \<Rightarrow> Inl err
   | Inr families \<Rightarrow> Inr (find_in_families name labels families))"

section \<open>Assertions\<close>

datatype verdict = Passed | Errored | Fatal

definition AssertGauge ::
  "gatherer \<Rightarrow> (gauge_value \<Rightarrow> rat) \<Rightarrow> registry \<Rightarrow> string \<Rightarrow> MetricOption list \<Rightarrow> verdict" where
  "AssertGauge gather float reg name opts =
     (let m = apply_options opts in
      case findMetric gather reg name (mm_labels m) of
        Inr (Some metric) \<Rightarrow>
          (if mm_hasValue m \<and> float (m_gauge metric) \<noteq> mm_value m then Errored else Passed)
      | _ \<Rightarrow> Fatal)"

definition AssertGaugeExists :: "gatherer \<Rightarrow> registry \<Rightarrow> string \<Rightarrow> MetricOption list \<Rightarrow> verdict" where
  "AssertGaugeExists gather reg name opts =
     (case findMetric gather reg name (mm_labels (apply_options opts)) of Inr (Some metric) \<Rightarrow> Passed | _ \<Rightarrow> Fatal)"

definition AssertGaugeMissing :: "gatherer \<Rightarrow> registry \<Rightarrow> string \<Rightarrow> MetricOption list \<Rightarrow> verdict" where
  "AssertGaugeMissing gather reg name opts =
     (case findMetric gather reg name (mm_labels (apply_options opts)) of Inr None \<Rightarrow> Passed | _ \<Rightarrow> Fatal)"

definition AssertGaugeInRange ::
  "gatherer \<Rightarrow> (gauge_value \<Rightarrow> rat) \<Rightarrow> registry \<Rightarrow> string \<Rightarrow> MetricOption list \<Rightarrow> rat \<Rightarrow> rat \<Rightarrow> verdict" where
  "AssertGaugeInRange gather float reg name opts lo hi =
     (case findMetric gather reg name (mm_labels (apply_options opts)) of
        Inr (Some metric) \<Rightarrow>
          (let got = float (m_gauge metric) in if got < lo \<or> got > hi then Errored else Passed)
      | _ \<Rightarrow> Fatal)"

text \<open>The lines logged by \<open>DumpMetrics\<close>; quoting and the printing of a value are those of \<open>fmt\<close>.\<close>

definition dump_labels :: "(string \<Rightarrow> string) \<Rightarrow> (string \<times> string) list \<Rightarrow> string" where
  "dump_labels quote pairs = fold (\<lambda>(k, v) acc. (if acc \<noteq> [] then acc @ '','' else acc) @ k @ ''='' @ quote v) pairs []"

definition DumpMetrics ::
  "gatherer \<Rightarrow> (string \<Rightarrow> string) \<Rightarrow> (gauge_value \<Rightarrow> string) \<Rightarrow> registry \<Rightarrow> goerror + string list" where
  "DumpMetrics gather quote print_value reg = (case gather reg of
     Inl err \<Rightarrow> Inl err
   | Inr families \<Rightarrow> Inr (concat (map (\<lambda>fam. map (\<lambda>m. ''  '' @ fam_name fam @ ''{'' @ dump_labels quote (m_labels m) @
       ''} = '' @ print_value (m_gauge m)) (fam_metrics fam)) families)))"

section \<open>What an assertion says of the registry\<close>

text \<open>
  \<^verbatim>\<open>Gather\<close> returns exactly the gauges registered, each in a family of its name and with its labels, no label
  name twice.
\<close>

definition gathered :: "registry \<Rightarrow> metric_family list \<Rightarrow> bool" where
  "gathered reg fams \<longleftrightarrow>
     (\<forall>fam\<in>set fams. \<forall>m\<in>set (fam_metrics fam). distinct (map fst (m_labels m)) \<and>
        (\<exists>(d, v)\<in>set reg. g_name d = fam_name fam \<and> set (g_labels d) = set (m_labels m) \<and> v = m_gauge m)) \<and>
     (\<forall>(d, v)\<in>set reg. \<exists>fam\<in>set fams. fam_name fam = g_name d \<and>
        (\<exists>m\<in>set (fam_metrics fam). set (m_labels m) = set (g_labels d) \<and> m_gauge m = v))"

text \<open>A gauge fits the wanted labels: each has the value, or the value is empty and the label absent.\<close>

definition carries :: "(string \<times> string) list \<Rightarrow> gauge_desc \<Rightarrow> bool" where
  "carries want d \<longleftrightarrow> (\<forall>(k, v)\<in>set want. (k, v) \<in> set (g_labels d) \<or> v = [] \<and> k \<notin> fst ` set (g_labels d))"

lemma update_all: "map_of (fold (\<lambda>(k, v). AList.update k v) xs m) = map_of m ++ map_of (rev xs)"
  by (induction xs arbitrary: m) (auto simp: update_conv' fun_eq_iff map_add_def split: option.split)

lemma label_lookup:
  assumes "distinct (map fst labels)"
  shows "(case map_of labels k of Some g \<Rightarrow> g | None \<Rightarrow> []) = v \<longleftrightarrow>
      (k, v) \<in> set labels \<or> v = [] \<and> k \<notin> fst ` set (labels :: (string \<times> string) list)"
proof (cases "map_of labels k")
  case None
  then have "k \<notin> fst ` set labels" by (simp add: map_of_eq_None_iff)
  with None show ?thesis by force
next
  case (Some g)
  then have "k \<in> fst ` set labels" by (metis map_of_eq_None_iff option.distinct(1))
  moreover have "(k, v) \<in> set labels \<longleftrightarrow> g = v" using Some map_of_eq_Some_iff [OF assms, of k v] by auto
  ultimately show ?thesis using Some by simp
qed

lemma matchLabels_carries:
  assumes "distinct (map fst (m_labels m))" and "set (g_labels d) = set (m_labels m)"
  shows "matchLabels m want \<longleftrightarrow> carries want d"
proof -
  have got: "map_of (fold (\<lambda>(k, v). AList.update k v) (m_labels m) []) = map_of (m_labels m)"
    using assms(1) by (simp add: update_all map_of_inject_set rev_map [symmetric])
  show ?thesis
    unfolding matchLabels_def carries_def Let_def got assms(2) list_all_iff label_lookup [OF assms(1)] by force
qed

lemma find_in_families_Some:
  "find_in_families name labels fams = Some m \<Longrightarrow>
   \<exists>fam\<in>set fams. fam_name fam = name \<and> m \<in> set (fam_metrics fam) \<and> matchLabels m labels"
  by (induction fams) (auto simp: find_Some_iff split: if_splits option.splits)

lemma find_in_families_None:
  "find_in_families name labels fams = None \<Longrightarrow> fam \<in> set fams \<Longrightarrow> fam_name fam = name \<Longrightarrow>
   m \<in> set (fam_metrics fam) \<Longrightarrow> \<not> matchLabels m labels"
  by (induction fams) (auto simp: find_None_iff split: if_splits option.splits)

text \<open>The gauges an assertion is about.\<close>

definition candidates :: "registry \<Rightarrow> string \<Rightarrow> MetricOption list \<Rightarrow> (gauge_desc \<times> gauge_value) set" where
  "candidates reg name opts = set (filter (\<lambda>(d, v). g_name d = name \<and> carries (mm_labels (apply_options opts)) d) reg)"

lemma find_candidate:
  assumes "gathered reg fams" and "find_in_families name (mm_labels (apply_options opts)) fams = Some m"
  shows "\<exists>d. (d, m_gauge m) \<in> candidates reg name opts"
proof -
  obtain fam where fam: "fam \<in> set fams" "fam_name fam = name" "m \<in> set (fam_metrics fam)"
    and match: "matchLabels m (mm_labels (apply_options opts))"
    using find_in_families_Some [OF assms(2)] by blast
  then obtain d where "(d, m_gauge m) \<in> set reg" "g_name d = name" "set (g_labels d) = set (m_labels m)"
    "distinct (map fst (m_labels m))"
    using assms(1) unfolding gathered_def by fastforce
  then show ?thesis using match matchLabels_carries by (auto simp: candidates_def)
qed

lemma no_candidate:
  assumes "gathered reg fams" and "find_in_families name (mm_labels (apply_options opts)) fams = None"
  shows "candidates reg name opts = {}"
proof -
  have False if "(d, v) \<in> candidates reg name opts" for d v
  proof -
    from that assms(1) obtain fam m where "fam \<in> set fams" "fam_name fam = name" "m \<in> set (fam_metrics fam)"
      "set (m_labels m) = set (g_labels d)" "distinct (map fst (m_labels m))"
      unfolding gathered_def candidates_def by fastforce
    then show False
      using find_in_families_None [OF assms(2)] matchLabels_carries [of m d] that by (auto simp: candidates_def)
  qed
  then show ?thesis by auto
qed

text \<open>What an assertion says: on the gauges a registry gathers, \<open>AssertGaugeExists\<close> passes exactly when some
  gauge of the name carries the wanted labels, \<open>AssertGaugeMissing\<close> exactly when none does, and an assertion
  about a value or a range passes only when such a gauge has such a value - and whenever it is the only one.\<close>

lemma assertions_mean:
  assumes "gather reg = Inr fams" and "gathered reg fams"
  shows "(AssertGaugeExists gather reg name opts = Passed \<longleftrightarrow> candidates reg name opts \<noteq> {}) \<and>
    (AssertGaugeMissing gather reg name opts = Passed \<longleftrightarrow> candidates reg name opts = {}) \<and>
    (AssertGauge gather float reg name (opts @ [WithValue x]) = Passed \<longrightarrow>
       (\<exists>(d, v)\<in>candidates reg name opts. float v = x)) \<and>
    (AssertGaugeInRange gather float reg name opts lo hi = Passed \<longrightarrow>
       (\<exists>(d, v)\<in>candidates reg name opts. lo \<le> float v \<and> float v \<le> hi)) \<and>
    (\<forall>d v. candidates reg name opts = {(d, v)} \<longrightarrow>
       AssertGauge gather float reg name (opts @ [WithValue x]) = (if float v = x then Passed else Errored) \<and>
       AssertGaugeInRange gather float reg name opts lo hi = (if lo \<le> float v \<and> float v \<le> hi then Passed else Errored))"
proof -
  have m: "mm_labels (apply_options (opts @ [WithValue x])) = mm_labels (apply_options opts)"
    "mm_hasValue (apply_options (opts @ [WithValue x]))" "mm_value (apply_options (opts @ [WithValue x])) = x"
    by (simp_all add: apply_options_def WithValue_def)
  note defs = AssertGauge_def AssertGaugeExists_def AssertGaugeMissing_def AssertGaugeInRange_def findMetric_def
    Let_def assms(1) m
  show ?thesis
  proof (cases "find_in_families name (mm_labels (apply_options opts)) fams")
    case None
    with no_candidate [OF assms(2) None] show ?thesis by (simp add: defs)
  next
    case (Some metric)
    obtain d where d: "(d, m_gauge metric) \<in> candidates reg name opts"
      using find_candidate [OF assms(2) Some] by blast
    then have "v' = m_gauge metric" if "candidates reg name opts = {(d', v')}" for d' v' using that by auto
    with d Some show ?thesis by (auto simp: defs not_less split: if_splits)
  qed
qed

text \<open>One family per name of the registry, in the order of first use.\<close>

definition plain_gather :: gatherer where
  "plain_gather reg = Inr (map (\<lambda>name. \<lparr>fam_name = name,
     fam_metrics = map (\<lambda>(d, v). \<lparr>m_labels = g_labels d, m_gauge = v\<rparr>) (filter (\<lambda>(d, v). g_name d = name) reg)\<rparr>)
     (remdups (map (g_name \<circ> fst) reg)))"

definition two_hosts :: registry where
  \<open>two_hosts = [(\<lparr>g_name = ''up'', g_help = [], g_labels = [(''ip'', ''1''), (''zone'', ''z'')]\<rparr>, Number 1),
     (\<lparr>g_name = ''up'', g_help = [], g_labels = [(''ip'', ''2''), (''zone'', ''z'')]\<rparr>, Number 0)]\<close>

definition plain_float :: "gauge_value \<Rightarrow> rat" where
  "plain_float v = (case v of Number n \<Rightarrow> rat_of_int n | SecondsOf n \<Rightarrow> rat_of_int n / 1000000000)"

lemma plain_gathered:
  assumes "list_all (\<lambda>(d, v). distinct (map fst (g_labels d))) reg"
  shows "\<exists>fams. plain_gather reg = Inr fams \<and> gathered reg fams"
proof -
  let ?family = "\<lambda>name. \<lparr>fam_name = name,
     fam_metrics = map (\<lambda>(d, v). \<lparr>m_labels = g_labels d, m_gauge = v\<rparr>) (filter (\<lambda>(d, v). g_name d = name) reg)\<rparr>"
  have "gathered reg (map ?family (remdups (map (g_name \<circ> fst) reg)))"
    unfolding gathered_def
  proof (intro conjI ballI)
    fix g assume g: "g \<in> set reg"
    obtain d v where dv: "g = (d, v)" by fastforce
    with g have mem: "?family (g_name d) \<in> set (map ?family (remdups (map (g_name \<circ> fst) reg)))"
      "\<lparr>m_labels = g_labels d, m_gauge = v\<rparr> \<in> set (fam_metrics (?family (g_name d)))"
      by force+
    show "case g of (d, v) \<Rightarrow> \<exists>fam\<in>set (map ?family (remdups (map (g_name \<circ> fst) reg))). fam_name fam = g_name d \<and>
        (\<exists>m\<in>set (fam_metrics fam). set (m_labels m) = set (g_labels d) \<and> m_gauge m = v)"
      unfolding dv prod.case by (intro bexI [OF _ mem(1)] conjI bexI [OF _ mem(2)]) simp_all
  next
    fix fam m assume "fam \<in> set (map ?family (remdups (map (g_name \<circ> fst) reg)))" and "m \<in> set (fam_metrics fam)"
    then obtain d v where "(d, v) \<in> set reg" "g_name d = fam_name fam" "m = \<lparr>m_labels = g_labels d, m_gauge = v\<rparr>"
      by auto
    then show "distinct (map fst (m_labels m))"
      "\<exists>(d, v)\<in>set reg. g_name d = fam_name fam \<and> set (g_labels d) = set (m_labels m) \<and> v = m_gauge m"
      using assms by (auto simp: list_all_iff)
  qed
  then show ?thesis by (simp add: plain_gather_def)
qed

lemma assertions_mean_example:
  \<open>AssertGaugeExists plain_gather two_hosts ''up'' [WithLabels [''ip'', ''1'']] = Passed \<and>
   AssertGauge plain_gather plain_float two_hosts ''up'' ([WithLabels [''ip'', ''1'']] @ [WithValue 1]) = Passed\<close>
proof -
  have "\<exists>fams. plain_gather two_hosts = Inr fams \<and> gathered two_hosts fams"
    by (rule plain_gathered) code_simp
  then obtain fams where g: "plain_gather two_hosts = Inr fams" "gathered two_hosts fams" by blast
  define name opts d where \<open>name = ''up''\<close> and \<open>opts = [WithLabels [''ip'', ''1'']]\<close>
    and "d = fst (hd two_hosts)"
  have one: "candidates two_hosts name opts = {(d, Number 1)}"
    unfolding name_def opts_def d_def by code_simp
  have "plain_float (Number 1) = 1" by (simp add: plain_float_def)
  with assertions_mean [where gather = plain_gather and reg = two_hosts and name = name and opts = opts and
      float = plain_float and x = 1 and lo = 0 and hi = 1, OF g] one
  have "AssertGaugeExists plain_gather two_hosts name opts = Passed \<and>
    AssertGauge plain_gather plain_float two_hosts name (opts @ [WithValue 1]) = Passed" by simp
  then show ?thesis unfolding name_def opts_def .
qed

text \<open>Among several gauges that carry the labels, only the first the registry gathers is compared.\<close>

lemma AssertGauge_first_only:
  \<open>AssertGauge plain_gather plain_float two_hosts ''up'' [WithLabels [''zone'', ''z''], WithValue 0] = Errored\<close>
  by code_simp

text \<open>An empty wanted value also fits a gauge without the label.\<close>

lemma empty_label_absent:
  \<open>AssertGaugeExists plain_gather two_hosts ''up'' [WithLabels [''source'', []]] = Passed\<close>
  by code_simp

end
