(* ===== verification/Spec2Isabelle.thy ===== *)
theory Spec2Isabelle
  imports Augmentation Cycle_Cache Exported_Values Exporter_Process Dashboard_Queries Dashboard_Verdicts Fixture_Walk Fixture_Loss Assertions
begin

text \<open>
  A verification development of dnshealth_exporter, a Prometheus exporter that probes the DNS
  health of configured zones (Go, under \<^verbatim>\<open>src/\<close>).

  \<^bold>\<open>The program and the theories.\<close> \<^verbatim>\<open>main.go\<close> loads a configuration, runs a probe cycle at once
  and then per tick, publishes the cycle's results as a registry, and serves it. A cycle
  (\<^verbatim>\<open>cycle/runner.go\<close>) starts one goroutine per zone; each gets the parent's delegation from the
  cache (\<^verbatim>\<open>cache/delegation.go\<close>) or by an iterative walk from a root server
  (\<^verbatim>\<open>prober/prober.go\<close>), works out the nameservers, and runs seven probers over them; at the end
  the runner aggregates the results into its own metrics. The theories follow that, bottom up:

  \<^item> \<open>Prelude\<close>, \<open>Go_Net\<close>: what the program uses of Go's \<open>strings\<close>, \<open>strconv\<close>, \<open>fmt\<close> and
    \<open>net\<close>, on byte strings, with the round trip and the order of padded decimals.
  \<^item> \<open>Dns_Model\<close>: DNS records, the environment \<open>penv\<close> (network, clock, context as arbitrary
    functions of the history of calls), \<open>ExchangeWithRetry\<close> (\<^verbatim>\<open>retry.go\<close>), results, the
    type \<open>ProbeFn\<close> and its contract, the locale \<open>prober\<close>, which every prober interprets; runs of exchanges
    (\<open>ask_run\<close>), in terms of which properties say what was asked and nothing else.
  \<^item> \<open>Delegation\<close>: \<^verbatim>\<open>prober.go\<close>, the delegation walk and hostname resolution with the glueless
    fallback, their soundness against the answers received, and bounds on the exchanges.
  \<^item> \<open>Spf\<close>, \<open>Spf_Lookup\<close>, \<open>Dmarc\<close>: the SPF and DMARC parsers and the SPF lookup counter, which
    is a refinement of the evaluation cost of a record's include tree.
  \<^item> \<open>Ns_Hostname\<close>, \<open>Soa\<close>, \<open>Glue_Probe\<close>, \<open>Ns_Classification\<close>, \<open>Mx\<close>, \<open>Email_Auth\<close>: the probers of
    the files of these names (\<open>Soa\<close> holds \<^verbatim>\<open>recursion.go\<close>, \<open>Email_Auth\<close> holds
    \<^verbatim>\<open>spf_resolve.go\<close> too): for each, what its results say of the answers received.
  \<^item> \<open>Config\<close>, \<open>Delegation_Cache\<close>: loading and validation; the cache as an instance of the locale
    \<open>ttl_cache\<close>.
  \<^item> \<open>Registry\<close>: \<^verbatim>\<open>registry.go\<close>, the label schema of all metrics, that every prober keeps to it
    (the locale \<open>schema_prober\<close>), and that the first result of a series wins.
  \<^item> \<open>Zone_Probe\<close>: the nameservers of a delegation, as the glue and a run of resolutions (\<open>resolve_run\<close>), and the
    run of the registered probers; \<open>Augmentation\<close>: the hosts resolved are those without a glue record of a
    family, by the round trip of addresses and their texts (\<open>Address_Text\<close>).
  \<^item> \<open>Cycle_Metrics\<close>: the runner's metrics as the sequence of calls made on them, how such a
    sequence reads, and what the aggregation computes.
  \<^item> \<open>Cycle\<close>: the goroutines of a cycle as steps between accesses of shared state
    (\<open>zone_step\<close>, refined by the relation \<open>goroutine_step\<close>), for every schedule: the cycle ends,
    its results do not depend on the schedule, its metrics are exact; \<open>Cycle_Cache\<close>: what it leaves in
    the delegation cache and in the cache's counters; \<open>Exported_Values\<close>: the SOA numbers of the registry are those
    of answers received in the cycle, and none is lost, from the network through all layers.
  \<^item> \<open>Exporter\<close>: the process as a state and events (launch, tick, a goroutine's turn, end of a
    cycle, reload), its reachable states and their invariant; \<open>Exporter_Process\<close>: the pages it
    serves, its start and the ways it ends.
  \<^item> \<open>Grafana\<close>, \<open>Status_Rows\<close>, \<open>Dashboard\<close>, \<open>Dashboard_Layout\<close>: the generator of the demo's dashboard
    (\<^verbatim>\<open>demo/dashboard\<close>), whose builders are sequences of calls on the Grafana SDK: the checks of the
    status tables with their texts, the records tables, the two variants, the generator's main function;
    their layout and columns.
  \<^item> \<open>Promql\<close>, \<open>Query_Text\<close>, \<open>Status_Queries\<close>, \<open>Dashboard_Queries\<close>, \<open>Dashboard_Verdicts\<close>: the PromQL the
    tables use, as expressions with a meaning, and the words of a query, read from its text alone; every query text of
    a table is that of an expression, over metrics and labels the exporter exports (\<open>NewRunner\<close>,
    \<open>gauge_schema\<close>), the four states of a row, and what rows
    read in terms of the runner's gauges.
  \<^item> \<open>Fixture\<close>, \<open>Fixture_Walk\<close>, \<open>Fixture_Loss\<close>, \<open>Assertions\<close>: the test servers, the probe of a zone against them and
    the metric assertions (\<^verbatim>\<open>testutil\<close>): the fixture probes what the runner probes, the delegation walk
    finds what is there on a network of such servers, one lost request is masked by the probers' retry but ends
    the walk, and what a passing assertion says of a registry.

  \<^bold>\<open>How code is modelled.\<close> A function that talks to the network takes the environment and the
  history of calls and returns the history extended. A panic is \<open>None\<close> (the only one the probers
  have is reading \<open>RootServers[0]\<close> of an empty list). Errors are the left of a sum. A Go map is a partial
  function where only lookups matter and an association list where it is ranged over; the order
  of such a range is a parameter, any permutation. Durations are nanoseconds, metric values are
  integers (all that occur are whole), 16- and 32-bit fields are words. Loops are
  structural recursions; the walks recurse on the iterations left, which are the code's own
  constants (10 referrals, 3 levels of glueless resolution, 16 hops for an SPF target, 10 SPF fetches), so no bound
  is added to the code's.

  \<^bold>\<open>Parameters and hypotheses.\<close> The DNS library and the network (\<open>penv\<close>), YAML decoding and the file
  (\<open>Load\<close>), the acceptance of a gauge by a Prometheus registry (\<open>prometheus_rule\<close> states the
  documented rule) and what it gathers (\<open>gathered\<close>), the transport between a test server and the client, the
  scheduler (a schedule), map orders (\<open>orders_ok\<close>), the Grafana SDK and JSON encoding.
  The meaning of PromQL (\<open>eval\<close>) is the documented one, restricted to instant queries over integer samples. Each property with such a
  hypothesis has a witness with concrete values.

  \<^bold>\<open>What the proofs brought to light.\<close> The SPF counter calls valid records that include a target twice
  over budget (\<open>spf_diamond_reported_over_budget\<close>); the success of the parent's view masks failed self
  queries of the glue check (\<open>glue_success_masked\<close>); a negative interval loads and kills the process
  (\<open>negative_interval_crashes\<close>); a delegation can be cached past the reload that discards it
  (\<open>reload_keeps_stale_delegation\<close>); the per-zone counts have no series while a cycle runs
  (\<open>cycle_metrics_gap\<close>); the query counters count results (\<open>cycle_server_counters\<close>); one
  lost request ends a delegation walk, which does not retry (\<open>one_loss\<close>). On the dashboard, two
  MX records with one target read FAIL (\<open>mx_shared_target_fails\<close>), and the stealth row ignores nameservers
  only the parent lists (\<open>stealth_row_ignores_parent_only\<close>).

  \<^bold>\<open>Not modelled.\<close> Flags, logging, listening and the rendering of the metrics page of \<^verbatim>\<open>main.go\<close>, starting and stopping the test servers (I/O only); the help texts of
  the runner's metrics; UTF-8 beyond ASCII (the DNS library escapes such bytes); the unsynchronised writes
  of \<open>prober.RootServers\<close> and \<open>prober.ResolveAddress\<close> by a reload are seen between the steps of a
  goroutine, not within one; the meaning of range queries (the operator panels of the dashboard).
\<close>

end
